(* ===== verification/Prelude.thy ===== *)
theory Prelude
  imports Main "HOL-Library.Word"
begin

text \<open>
  Shared vocabulary of the development.

  \<^item> Machine integers of the Rust code: \<open>i32\<close>, \<open>u32\<close>, \<open>u64\<close> are words; \<open>usize\<close> is \<open>nat\<close>
    and the casts \<open>as u64\<close>, \<open>as usize\<close> of the source are written out.
  \<^item> A Rust panic is a value: an operation that can panic returns \<open>panic + 'a\<close>, with
    \<open>Inl\<close> for the panic, and \<open>rbind\<close> sequences such operations.
  \<^item> \<open>std::task::Poll\<close>, \<open>std::io::Error\<close> and \<open>std::io::Result\<close> as datatypes.
  \<^item> Generic lemmas on these, collected in \<open>rs_simps\<close>, and on bounded lists.
\<close>

named_theorems rs_simps \<open>unfolding rules of the panic-or-value combinators\<close>

subsection \<open>Machine integers\<close>

type_synonym i32 = "32 word"
type_synonym u16 = "16 word"
type_synonym u32 = "32 word"
type_synonym u64 = "64 word"
type_synonym usize = nat

definition usize_as_u64 :: "usize \<Rightarrow> u64" where
  "usize_as_u64 n = of_nat n"

definition u64_as_usize :: "u64 \<Rightarrow> usize" where
  "u64_as_usize w = unat w"

definition usize_as_u32 :: "usize \<Rightarrow> u32" where
  "usize_as_u32 n = of_nat n"

definition i32_as_usize :: "i32 \<Rightarrow> usize" where
  "i32_as_usize v = nat (sint v mod 2 ^ 64)"

text \<open>\<open>i32::abs\<close> of an optimised build: it wraps at the least value (a build with overflow
  checks panics there).\<close>

definition i32_abs :: "i32 \<Rightarrow> i32" where
  "i32_abs v = (if sint v < 0 then - v else v)"

subsection \<open>Panics\<close>

datatype panic =
    UnwrapNone            \<comment> \<open>\<open>Option::unwrap\<close> on \<open>None\<close>\<close>
  | UnwrapErr             \<comment> \<open>\<open>Result::unwrap\<close> on \<open>Err\<close>\<close>
  | ExpectErr string      \<comment> \<open>\<open>Result::expect\<close> on \<open>Err\<close>\<close>
  | SlabFull              \<comment> \<open>\<open>Slab::insert\<close> past the range of its keys\<close>
  | SlabInvalidKey        \<comment> \<open>\<open>Slab::remove\<close> of a vacant key\<close>
  | PanicMsg string       \<comment> \<open>\<open>panic!\<close> and \<open>unreachable!\<close>\<close>

type_synonym 'a rs = "panic + 'a"

fun rbind :: "'a rs \<Rightarrow> ('a \<Rightarrow> 'b rs) \<Rightarrow> 'b rs" where
  "rbind (Inl p) f = Inl p"
| "rbind (Inr x) f = f x"

definition unwrap :: "'a option \<Rightarrow> 'a rs" where
  "unwrap v = (case v of None \<Rightarrow> Inl UnwrapNone | Some x \<Rightarrow> Inr x)"

definition is_ok :: "'a rs \<Rightarrow> bool" where
  "is_ok r = (case r of Inl _ \<Rightarrow> False | Inr _ \<Rightarrow> True)"

subsection \<open>Poll and I/O results\<close>

datatype 'a Poll = Poll_Pending | Poll_Ready 'a

definition map_poll :: "('a \<Rightarrow> 'b) \<Rightarrow> 'a Poll \<Rightarrow> 'b Poll" where
  "map_poll f p = (case p of Poll_Pending \<Rightarrow> Poll_Pending | Poll_Ready x \<Rightarrow> Poll_Ready (f x))"

datatype ErrorKind = NotFound | InvalidData | UnexpectedEof

datatype io_error = OsError i32 | SimpleError ErrorKind | CustomError ErrorKind string

type_synonym 'a io_result = "io_error + 'a"

definition map_io :: "('a \<Rightarrow> 'b) \<Rightarrow> 'a io_result \<Rightarrow> 'b io_result" where
  "map_io f r = (case r of Inl e \<Rightarrow> Inl e | Inr x \<Rightarrow> Inr (f x))"

subsection \<open>Bounded lists\<close>

definition keep_last :: "nat \<Rightarrow> 'a list \<Rightarrow> 'a list" where
  "keep_last n xs = drop (length xs - n) xs"

subsection \<open>Lemmas\<close>

lemma rbind_eq_Inr [rs_simps]: "rbind m f = Inr y \<longleftrightarrow> (\<exists>x. m = Inr x \<and> f x = Inr y)"
  by (cases m) auto

lemma rbind_eq_Inl [rs_simps]:
  "rbind m f = Inl p \<longleftrightarrow> m = Inl p \<or> (\<exists>x. m = Inr x \<and> f x = Inl p)"
  by (cases m) auto

lemma rbind_assoc: "rbind (rbind m f) g = rbind m (\<lambda>x. rbind (f x) g)"
  by (cases m) auto

lemma unwrap_simps [simp]: "unwrap None = Inl UnwrapNone" "unwrap (Some x) = Inr x"
  by (simp_all add: unwrap_def)

lemma unwrap_eq_Inr [rs_simps]: "unwrap v = Inr x \<longleftrightarrow> v = Some x"
  by (cases v) auto

lemma is_ok_simps [simp]: "is_ok (Inl p) = False" "is_ok (Inr x) = True"
  by (simp_all add: is_ok_def)

lemma is_ok_iff: "is_ok r \<longleftrightarrow> (\<exists>x. r = Inr x)"
  by (cases r) auto

lemma map_poll_simps [simp]:
  "map_poll f Poll_Pending = Poll_Pending" "map_poll f (Poll_Ready x) = Poll_Ready (f x)"
  by (simp_all add: map_poll_def)

lemma map_poll_pending_iff [simp]: "map_poll f p = Poll_Pending \<longleftrightarrow> p = Poll_Pending"
  by (cases p) auto

lemma map_io_simps [simp]: "map_io f (Inl e) = Inl e" "map_io f (Inr x) = Inr (f x)"
  by (simp_all add: map_io_def)

lemma usize_u64_roundtrip [simp]: "n < 2 ^ 64 \<Longrightarrow> u64_as_usize (usize_as_u64 n) = n"
  by (simp add: u64_as_usize_def usize_as_u64_def unat_of_nat take_bit_nat_eq_self)

lemma u64_usize_roundtrip [simp]: "usize_as_u64 (u64_as_usize w) = w"
  by (simp add: u64_as_usize_def usize_as_u64_def)

lemma u64_as_usize_inj [simp]: "u64_as_usize a = u64_as_usize b \<longleftrightarrow> a = b"
  by (metis u64_usize_roundtrip)

lemma unat_usize_as_u32: "unat (usize_as_u32 n) = n mod 2 ^ 32"
  by (simp add: usize_as_u32_def unat_of_nat)

lemma i32_as_usize_nonneg: "0 \<le> sint v \<Longrightarrow> i32_as_usize v = nat (sint v)"
  using sint_lt [of v] by (simp add: i32_as_usize_def)

lemma keep_last_short [simp]: "length xs \<le> n \<Longrightarrow> keep_last n xs = xs"
  by (simp add: keep_last_def)

lemma length_keep_last [simp]: "length (keep_last n xs) = min n (length xs)"
  by (simp add: keep_last_def min_def)

lemma keep_last_append: "keep_last n (keep_last n xs @ ys) = keep_last n (xs @ ys)"
proof (cases "length xs \<le> n")
  case False
  have "drop (n + length ys - n) (drop (length xs - n) xs @ ys)
      = drop (length xs + length ys - n) (xs @ ys)"
    using False by (simp add: add.commute)
  with False show ?thesis by (simp add: keep_last_def)
qed simp

lemma keep_last_suffix: "\<exists>zs. xs = zs @ keep_last n xs"
  by (metis append_take_drop_id keep_last_def)

lemma ran_extract: "m k = Some x \<Longrightarrow> insert x (ran (m(k := None))) = ran m"
  by (auto simp: ran_def) (metis option.inject)

lemma list_all2_set: "list_all2 P xs ys \<Longrightarrow> x \<in> set xs \<Longrightarrow> \<exists>y\<in>set ys. P x y"
  by (induction rule: list_all2_induct) auto

end
