(* ===== verification/Slab.thy ===== *)
theory Slab
  imports Prelude
begin

text \<open>
  The \<open>slab\<close> crate is not part of the repository. The code uses it through the operations
  of \<open>slab_api\<close>, which are arguments of every definition that works on a slab; the
  locale \<open>slab_laws\<close> holds what the crate documents about them, stated over the one
  observation \<open>slab_get\<close>. \<open>vec_slab\<close>, a vector of optional entries, satisfies the laws, so
  they are consistent; it is used to evaluate the model on concrete inputs and nowhere
  else.
\<close>

subsection \<open>The operations of the crate\<close>

text \<open>
  \<open>slab_insert\<close> returns the key and the new slab (\<open>None\<close> where the crate panics);
  \<open>slab_set\<close> is an assignment through the reference returned by \<open>get_mut\<close>;
  \<open>slab_remove\<close> is \<open>None\<close> where the crate panics on a vacant key; \<open>slab_vacant_key\<close> is the
  key of the entry returned by \<open>vacant_entry\<close>, into which the next insertion goes.
\<close>

record ('s, 'a) slab_api =
  slab_new :: 's
  slab_get :: "'s \<Rightarrow> usize \<Rightarrow> 'a option"
  slab_set :: "'s \<Rightarrow> usize \<Rightarrow> 'a \<Rightarrow> 's"
  slab_insert :: "'s \<Rightarrow> 'a \<Rightarrow> (usize \<times> 's) option"
  slab_vacant_key :: "'s \<Rightarrow> usize"
  slab_remove :: "'s \<Rightarrow> usize \<Rightarrow> ('a \<times> 's) option"
  slab_try_remove :: "'s \<Rightarrow> usize \<Rightarrow> 'a option \<times> 's"
  slab_is_empty :: "'s \<Rightarrow> bool"

text \<open>The panicking forms, as the code calls them.\<close>

definition insert_rs :: "('s, 'a) slab_api \<Rightarrow> 's \<Rightarrow> 'a \<Rightarrow> (usize \<times> 's) rs" where
  "insert_rs S s v = (case slab_insert S s v of None \<Rightarrow> Inl SlabFull | Some r \<Rightarrow> Inr r)"

definition remove_rs :: "('s, 'a) slab_api \<Rightarrow> 's \<Rightarrow> usize \<Rightarrow> 's rs" where
  "remove_rs S s k = (case slab_remove S s k of None \<Rightarrow> Inl SlabInvalidKey | Some r \<Rightarrow> Inr (snd r))"

subsection \<open>The documented laws\<close>

locale slab_laws =
  fixes S :: "('s, 'a) slab_api"
  assumes get_new: "slab_get S (slab_new S) = Map.empty"
    and get_set: "slab_get S s k = Some v \<Longrightarrow> slab_get S (slab_set S s k w) = (slab_get S s)(k \<mapsto> w)"
    and insert_key: "slab_insert S s v = Some (k, s') \<Longrightarrow> k = slab_vacant_key S s \<and> k < 2 ^ 64"
    and insert_vacant: "slab_insert S s v = Some (k, s') \<Longrightarrow> slab_get S s k = None"
    and get_insert: "slab_insert S s v = Some (k, s') \<Longrightarrow> slab_get S s' = (slab_get S s)(k \<mapsto> v)"
    and remove_occupied: "slab_get S s k = Some v \<Longrightarrow>
      \<exists>s'. slab_remove S s k = Some (v, s') \<and> slab_get S s' = (slab_get S s)(k := None)"
    and remove_vacant: "slab_get S s k = None \<Longrightarrow> slab_remove S s k = None"
    and try_remove_occupied: "slab_get S s k = Some v \<Longrightarrow>
      \<exists>s'. slab_try_remove S s k = (Some v, s') \<and> slab_get S s' = (slab_get S s)(k := None)"
    and try_remove_vacant: "slab_get S s k = None \<Longrightarrow> slab_try_remove S s k = (None, s)"
    and is_empty_iff: "slab_is_empty S s \<longleftrightarrow> slab_get S s = Map.empty"
begin

lemma insert_rsD:
  assumes "insert_rs S s v = Inr (k, s')"
  shows "slab_get S s k = None" "slab_get S s' = (slab_get S s)(k \<mapsto> v)" "k < 2 ^ 64"
    "k = slab_vacant_key S s"
  using assms insert_key insert_vacant get_insert
  by (auto simp: insert_rs_def split: option.splits)

lemma remove_rs_occupied:
  assumes "slab_get S s k = Some v"
  obtains s' where "remove_rs S s k = Inr s'" "slab_get S s' = (slab_get S s)(k := None)"
  using remove_occupied [OF assms] by (auto simp: remove_rs_def)

lemma remove_rs_Inr_iff: "is_ok (remove_rs S s k) \<longleftrightarrow> slab_get S s k \<noteq> None"
  using remove_occupied remove_vacant
  by (cases "slab_get S s k") (fastforce simp: remove_rs_def)+

lemma remove_rsD:
  assumes "remove_rs S s k = Inr s'"
  shows "slab_get S s k \<noteq> None" "slab_get S s' = (slab_get S s)(k := None)"
proof -
  show occ: "slab_get S s k \<noteq> None"
    using assms remove_rs_Inr_iff [of s k] by simp
  then show "slab_get S s' = (slab_get S s)(k := None)"
    using assms remove_occupied by (fastforce simp: remove_rs_def)
qed

end

subsection \<open>A slab that satisfies the laws\<close>

definition vec_get :: "'a option list \<Rightarrow> usize \<Rightarrow> 'a option" where
  "vec_get xs k = (if k < length xs then xs ! k else None)"

fun first_vacant :: "'a option list \<Rightarrow> usize" where
  "first_vacant [] = 0"
| "first_vacant (None # xs) = 0"
| "first_vacant (Some _ # xs) = Suc (first_vacant xs)"

definition vec_insert :: "'a option list \<Rightarrow> 'a \<Rightarrow> (usize \<times> 'a option list) option" where
  "vec_insert xs v = (let k = first_vacant xs in
     if k < 2 ^ 64 then Some (k, if k < length xs then xs[k := Some v] else xs @ [Some v])
     else None)"

definition vec_slab :: "('a option list, 'a) slab_api" where
  "vec_slab = \<lparr> slab_new = [],
     slab_get = vec_get,
     slab_set = (\<lambda>xs k v. xs[k := Some v]),
     slab_insert = vec_insert,
     slab_vacant_key = first_vacant,
     slab_remove = (\<lambda>xs k. case vec_get xs k of None \<Rightarrow> None | Some v \<Rightarrow> Some (v, xs[k := None])),
     slab_try_remove = (\<lambda>xs k. case vec_get xs k of None \<Rightarrow> (None, xs) | Some v \<Rightarrow> (Some v, xs[k := None])),
     slab_is_empty = (\<lambda>xs. list_all (\<lambda>x. x = None) xs) \<rparr>"

lemma first_vacant_le: "first_vacant xs \<le> length xs"
  by (induction xs rule: first_vacant.induct) auto

lemma vec_get_first_vacant: "vec_get xs (first_vacant xs) = None"
  by (induction xs rule: first_vacant.induct) (auto simp: vec_get_def split: if_splits)

lemma vec_get_update: "k < length xs \<Longrightarrow> vec_get (xs[k := v]) = (vec_get xs)(k := v)"
  by (auto simp: vec_get_def fun_eq_iff)

lemma vec_get_append: "vec_get (xs @ [v]) = (vec_get xs)(length xs := v)"
  by (auto simp: vec_get_def fun_eq_iff nth_append less_Suc_eq)

lemma vec_get_Some_less: "vec_get xs k = Some v \<Longrightarrow> k < length xs"
  by (auto simp: vec_get_def split: if_splits)

lemma vec_insert_get:
  "vec_insert xs v = Some (k, ys) \<Longrightarrow> vec_get ys = (vec_get xs)(k \<mapsto> v)"
  using first_vacant_le [of xs]
  by (auto simp: vec_insert_def Let_def vec_get_update vec_get_append split: if_splits)

lemma vec_all_None_iff: "list_all (\<lambda>x. x = None) xs \<longleftrightarrow> vec_get xs = Map.empty"
  by (auto simp: list_all_length vec_get_def fun_eq_iff)

lemmas vec_slab_simps = vec_slab_def vec_get_def vec_insert_def insert_rs_def remove_rs_def

interpretation vec: slab_laws "vec_slab :: ('a option list, 'a) slab_api"
proof unfold_locales
  fix s :: "'a option list" and k v s'
  assume "slab_insert vec_slab s v = Some (k, s')"
  then have ins: "vec_insert s v = Some (k, s')" by (simp add: vec_slab_def)
  then show "k = slab_vacant_key vec_slab s \<and> k < 2 ^ 64"
    by (auto simp: vec_slab_def vec_insert_def Let_def split: if_splits)
  from ins show "slab_get vec_slab s k = None"
    using vec_get_first_vacant [of s]
    by (auto simp: vec_slab_def vec_insert_def Let_def split: if_splits)
  from ins show "slab_get vec_slab s' = (slab_get vec_slab s)(k \<mapsto> v)"
    by (simp add: vec_slab_def vec_insert_get)
qed (auto simp: vec_slab_def vec_get_update vec_all_None_iff vec_get_def fun_eq_iff
       split: if_splits option.splits)

end
