(* ===== verification/RingBuf.thy ===== *)
theory RingBuf
  imports Prelude
begin

text \<open>
  The \<open>ringbuffer\<close> crate is not part of the repository. The multishot result store uses a
  \<open>ConstGenericRingBuffer<i32, 1024>\<close> through \<open>new\<close>, \<open>push\<close> and \<open>dequeue\<close>, which are
  arguments of the definitions that use them. \<open>ringbuf_laws\<close> states what the crate
  documents, over the observation \<open>rb_to_vec\<close> (the elements, oldest first): a push cycles
  around when the capacity is reached, so the oldest element is overwritten.
\<close>

abbreviation ring_capacity :: nat where
  "ring_capacity \<equiv> 1024"

record 'rb ringbuf_api =
  rb_new :: 'rb
  rb_push :: "'rb \<Rightarrow> i32 \<Rightarrow> 'rb"
  rb_dequeue :: "'rb \<Rightarrow> i32 option \<times> 'rb"
  rb_to_vec :: "'rb \<Rightarrow> i32 list"

locale ringbuf_laws =
  fixes R :: "'rb ringbuf_api"
  assumes to_vec_new: "rb_to_vec R (rb_new R) = []"
    and to_vec_push: "rb_to_vec R (rb_push R b x) = keep_last ring_capacity (rb_to_vec R b @ [x])"
    and dequeue_empty: "rb_to_vec R b = [] \<Longrightarrow> rb_dequeue R b = (None, b)"
    and dequeue_cons: "rb_to_vec R b = x # xs \<Longrightarrow>
      \<exists>b'. rb_dequeue R b = (Some x, b') \<and> rb_to_vec R b' = xs"
begin

lemma push_capacity: "length (rb_to_vec R (rb_push R b x)) \<le> ring_capacity"
  by (simp add: to_vec_push)

lemma push_room:
  "length (rb_to_vec R b) < ring_capacity \<Longrightarrow> rb_to_vec R (rb_push R b x) = rb_to_vec R b @ [x]"
  by (simp add: to_vec_push)

lemma push_full:
  "length (rb_to_vec R b) = ring_capacity \<Longrightarrow> rb_to_vec R (rb_push R b x) = tl (rb_to_vec R b) @ [x]"
  by (cases "rb_to_vec R b") (simp_all add: to_vec_push keep_last_def)

lemma pushes_to_vec:
  "rb_to_vec R (fold (\<lambda>x b. rb_push R b x) xs b)
    = (if xs = [] then rb_to_vec R b else keep_last ring_capacity (rb_to_vec R b @ xs))"
proof (induction xs arbitrary: b)
  case (Cons x xs)
  then show ?case
    using keep_last_append [of ring_capacity "rb_to_vec R b @ [x]" xs]
    by (auto simp: to_vec_push)
qed simp

end

text \<open>A list that keeps the newest \<open>1024\<close> elements satisfies the laws.\<close>

definition list_ringbuf :: "i32 list ringbuf_api" where
  "list_ringbuf = \<lparr> rb_new = [],
     rb_push = (\<lambda>b x. keep_last ring_capacity (b @ [x])),
     rb_dequeue = (\<lambda>b. case b of [] \<Rightarrow> (None, []) | x # xs \<Rightarrow> (Some x, xs)),
     rb_to_vec = (\<lambda>b. b) \<rparr>"

interpretation lrb: ringbuf_laws list_ringbuf
  by unfold_locales (auto simp: list_ringbuf_def)

end
