(* ===== verification/ResultStore.thy ===== *)
theory ResultStore
  imports Slab RingBuf
begin

text \<open>
  The result stores of \<open>src/src/reactor/uring/result.rs\<close>: where the completions of
  submitted operations are kept until the future that submitted them asks.

  A store is a slab of slots. A slot has two users: the kernel side, which completes it, and
  the handle (\<open>OneshotUringIo\<close>, \<open>MultishotUringIo\<close>), which takes results out and releases
  it when it is dropped. Either may finish first. \<open>phase\<close> is what a slot looks like to them,
  \<open>slot_lifecycle\<close> the contract both stores promise the reactor, and the two sublocale
  statements show that \<open>OneshotStore\<close> and \<open>MultishotStore\<close> keep it.
\<close>

subsection \<open>OneshotStore\<close>

datatype ResultState = RS_Pending | RS_Set i32 | RS_Dropped

definition oneshot_new :: "('os, ResultState) slab_api \<Rightarrow> 'os" where
  "oneshot_new O1 = slab_new O1"

definition oneshot_is_empty :: "('os, ResultState) slab_api \<Rightarrow> 'os \<Rightarrow> bool" where
  "oneshot_is_empty O1 st = slab_is_empty O1 st"

definition oneshot_set_result ::
    "('os, ResultState) slab_api \<Rightarrow> 'os \<Rightarrow> i32 \<Rightarrow> usize \<Rightarrow> 'os rs" where
  "oneshot_set_result O1 st result idx =
     rbind (unwrap (slab_get O1 st idx)) (\<lambda>r_entry.
       case r_entry of
         RS_Dropped \<Rightarrow> remove_rs O1 st idx
       | _ \<Rightarrow> Inr (slab_set O1 st idx (RS_Set result)))"

definition oneshot_get_result ::
    "('os, ResultState) slab_api \<Rightarrow> 'os \<Rightarrow> usize \<Rightarrow> (i32 option \<times> 'os) rs" where
  "oneshot_get_result O1 st idx =
     rbind (unwrap (slab_get O1 st idx)) (\<lambda>r_entry.
       case r_entry of
         RS_Pending \<Rightarrow> Inr (None, st)
       | RS_Set result \<Rightarrow> rbind (remove_rs O1 st idx) (\<lambda>st'. Inr (Some result, st'))
       | RS_Dropped \<Rightarrow> Inl (PanicMsg ''Should not be able to get a dropped result''))"

definition oneshot_drop_result ::
    "('os, ResultState) slab_api \<Rightarrow> 'os \<Rightarrow> usize \<Rightarrow> 'os rs" where
  "oneshot_drop_result O1 st idx =
     rbind (unwrap (slab_get O1 st idx)) (\<lambda>r_entry.
       case r_entry of
         RS_Set _ \<Rightarrow> remove_rs O1 st idx
       | _ \<Rightarrow> Inr (slab_set O1 st idx RS_Dropped))"

definition oneshot_create_slot :: "('os, ResultState) slab_api \<Rightarrow> 'os \<Rightarrow> (usize \<times> 'os) rs" where
  "oneshot_create_slot O1 st = insert_rs O1 st RS_Pending"

subsection \<open>MultishotStore\<close>

record 'rb MultishotResultState =
  ms_results :: 'rb
  ms_dropped :: bool
  ms_finished :: bool

datatype MultishotResult = MR_Value i32 | MR_Pending | MR_Finished

type_synonym ('ms, 'rb) multi_api = "('ms, 'rb MultishotResultState) slab_api"

definition multishot_new :: "('ms, 'rb) multi_api \<Rightarrow> 'ms" where
  "multishot_new M = slab_new M"

definition multishot_is_empty :: "('ms, 'rb) multi_api \<Rightarrow> 'ms \<Rightarrow> bool" where
  "multishot_is_empty M st = slab_is_empty M st"

definition multishot_push_result ::
    "('ms, 'rb) multi_api \<Rightarrow> 'rb ringbuf_api \<Rightarrow> 'ms \<Rightarrow> i32 \<Rightarrow> usize \<Rightarrow> 'ms rs" where
  "multishot_push_result M R st result idx =
     rbind (unwrap (slab_get M st idx)) (\<lambda>e.
       Inr (slab_set M st idx (e\<lparr>ms_results := rb_push R (ms_results e) result\<rparr>)))"

definition multishot_pop_result ::
    "('ms, 'rb) multi_api \<Rightarrow> 'rb ringbuf_api \<Rightarrow> 'ms \<Rightarrow> usize \<Rightarrow> (MultishotResult \<times> 'ms) rs" where
  "multishot_pop_result M R st idx =
     rbind (unwrap (slab_get M st idx)) (\<lambda>result.
       let (v, rb') = rb_dequeue R (ms_results result);
           st' = slab_set M st idx (result\<lparr>ms_results := rb'\<rparr>)
       in case v of
            Some v \<Rightarrow> Inr (MR_Value v, st')
          | None \<Rightarrow> Inr (if ms_finished result then MR_Finished else MR_Pending, st'))"

definition multishot_drop_result :: "('ms, 'rb) multi_api \<Rightarrow> 'ms \<Rightarrow> usize \<Rightarrow> 'ms rs" where
  "multishot_drop_result M st idx =
     rbind (unwrap (slab_get M st idx)) (\<lambda>e.
       if ms_finished e then remove_rs M st idx
       else Inr (slab_set M st idx (e\<lparr>ms_dropped := True\<rparr>)))"

definition multishot_create_slot ::
    "('ms, 'rb) multi_api \<Rightarrow> 'rb ringbuf_api \<Rightarrow> 'ms \<Rightarrow> (usize \<times> 'ms) rs" where
  "multishot_create_slot M R st =
     insert_rs M st \<lparr>ms_results = rb_new R, ms_dropped = False, ms_finished = False\<rparr>"

definition multishot_set_finished :: "('ms, 'rb) multi_api \<Rightarrow> 'ms \<Rightarrow> usize \<Rightarrow> 'ms rs" where
  "multishot_set_finished M st idx =
     rbind (unwrap (slab_get M st idx)) (\<lambda>e.
       if ms_dropped e then remove_rs M st idx
       else Inr (slab_set M st idx (e\<lparr>ms_finished := True\<rparr>)))"

subsection \<open>RingResults\<close>

record ('os, 'ms) RingResults =
  rr_oneshot :: 'os
  rr_multishot :: 'ms

definition ring_results_new ::
    "('os, ResultState) slab_api \<Rightarrow> ('ms, 'rb) multi_api \<Rightarrow> ('os, 'ms) RingResults" where
  "ring_results_new O1 M = \<lparr>rr_oneshot = oneshot_new O1, rr_multishot = multishot_new M\<rparr>"

definition ring_results_is_empty ::
    "('os, ResultState) slab_api \<Rightarrow> ('ms, 'rb) multi_api \<Rightarrow> ('os, 'ms) RingResults \<Rightarrow> bool" where
  "ring_results_is_empty O1 M rr \<longleftrightarrow>
     oneshot_is_empty O1 (rr_oneshot rr) \<and> multishot_is_empty M (rr_multishot rr)"

subsection \<open>The life of a slot\<close>

datatype phase = Free | Live | Done | Released

locale slot_lifecycle =
  fixes create :: "'st \<Rightarrow> (usize \<times> 'st) rs"
    and complete :: "'st \<Rightarrow> 'x \<Rightarrow> usize \<Rightarrow> 'st rs"
    and release :: "'st \<Rightarrow> usize \<Rightarrow> 'st rs"
    and phase :: "'st \<Rightarrow> usize \<Rightarrow> phase"
    and ok :: "'st \<Rightarrow> bool"
  assumes create_phase: "ok st \<Longrightarrow> create st = Inr (k, st') \<Longrightarrow>
      phase st k = Free \<and> phase st' = (phase st)(k := Live) \<and> ok st'"
    and complete_free: "ok st \<Longrightarrow> phase st k = Free \<Longrightarrow> complete st x k = Inl UnwrapNone"
    and complete_live: "ok st \<Longrightarrow> phase st k = Live \<Longrightarrow>
      \<exists>st'. complete st x k = Inr st' \<and> phase st' = (phase st)(k := Done) \<and> ok st'"
    and complete_released: "ok st \<Longrightarrow> phase st k = Released \<Longrightarrow>
      \<exists>st'. complete st x k = Inr st' \<and> phase st' = (phase st)(k := Free) \<and> ok st'"
    and release_free: "ok st \<Longrightarrow> phase st k = Free \<Longrightarrow> release st k = Inl UnwrapNone"
    and release_live: "ok st \<Longrightarrow> phase st k = Live \<Longrightarrow>
      \<exists>st'. release st k = Inr st' \<and> phase st' = (phase st)(k := Released) \<and> ok st'"
    and release_done: "ok st \<Longrightarrow> phase st k = Done \<Longrightarrow>
      \<exists>st'. release st k = Inr st' \<and> phase st' = (phase st)(k := Free) \<and> ok st'"
begin

text \<open>Whichever side finishes first, the slot is free when both have.\<close>

lemma complete_release_free:
  assumes "ok st" "phase st k = Live"
  shows "\<exists>st'. rbind (complete st x k) (\<lambda>s. release s k) = Inr st'
           \<and> phase st' = (phase st)(k := Free) \<and> ok st'"
proof -
  obtain s1 where s1: "complete st x k = Inr s1" "phase s1 = (phase st)(k := Done)" "ok s1"
    using complete_live assms by blast
  moreover from s1 have "phase s1 k = Done" by simp
  ultimately obtain s2 where "release s1 k = Inr s2" "phase s2 = (phase s1)(k := Free)" "ok s2"
    using release_done by blast
  with s1 show ?thesis by auto
qed

lemma release_complete_free:
  assumes "ok st" "phase st k = Live"
  shows "\<exists>st'. rbind (release st k) (\<lambda>s. complete s x k) = Inr st'
           \<and> phase st' = (phase st)(k := Free) \<and> ok st'"
proof -
  obtain s1 where s1: "release st k = Inr s1" "phase s1 = (phase st)(k := Released)" "ok s1"
    using release_live assms by blast
  moreover from s1 have "phase s1 k = Released" by simp
  ultimately obtain s2 where "complete s1 x k = Inr s2" "phase s2 = (phase s1)(k := Free)" "ok s2"
    using complete_released by blast
  with s1 show ?thesis by auto
qed

end

definition oneshot_phase :: "('os, ResultState) slab_api \<Rightarrow> 'os \<Rightarrow> usize \<Rightarrow> phase" where
  "oneshot_phase O1 st k = (case slab_get O1 st k of
     None \<Rightarrow> Free | Some RS_Pending \<Rightarrow> Live | Some (RS_Set _) \<Rightarrow> Done | Some RS_Dropped \<Rightarrow> Released)"

definition multishot_phase :: "('ms, 'rb) multi_api \<Rightarrow> 'ms \<Rightarrow> usize \<Rightarrow> phase" where
  "multishot_phase M st k = (case slab_get M st k of
     None \<Rightarrow> Free
   | Some e \<Rightarrow> if ms_finished e then Done else if ms_dropped e then Released else Live)"

text \<open>A multishot slot is never both finished and dropped: whichever comes second removes it.\<close>

definition multishot_ok :: "('ms, 'rb) multi_api \<Rightarrow> 'ms \<Rightarrow> bool" where
  "multishot_ok M st \<longleftrightarrow> (\<forall>k e. slab_get M st k = Some e \<longrightarrow> \<not> (ms_finished e \<and> ms_dropped e))"

lemmas oneshot_defs = oneshot_set_result_def oneshot_get_result_def oneshot_drop_result_def
  oneshot_create_slot_def

lemmas multishot_defs = multishot_push_result_def multishot_pop_result_def
  multishot_drop_result_def multishot_create_slot_def multishot_set_finished_def

subsection \<open>OneshotStore keeps the contract\<close>

locale oneshot_slab = slab_laws O1 for O1 :: "('os, ResultState) slab_api"
begin

lemma phase_cong: "slab_get O1 st' = (slab_get O1 st)(k := e) \<Longrightarrow>
    oneshot_phase O1 st' = (oneshot_phase O1 st)(k := (case e of
      None \<Rightarrow> Free | Some RS_Pending \<Rightarrow> Live | Some (RS_Set _) \<Rightarrow> Done | Some RS_Dropped \<Rightarrow> Released))"
  by (simp add: oneshot_phase_def fun_eq_iff)

lemma phase_iffs:
  "oneshot_phase O1 st k = Free \<longleftrightarrow> slab_get O1 st k = None"
  "oneshot_phase O1 st k = Live \<longleftrightarrow> slab_get O1 st k = Some RS_Pending"
  "oneshot_phase O1 st k = Done \<longleftrightarrow> (\<exists>r. slab_get O1 st k = Some (RS_Set r))"
  "oneshot_phase O1 st k = Released \<longleftrightarrow> slab_get O1 st k = Some RS_Dropped"
  by (auto simp: oneshot_phase_def split: option.splits ResultState.splits)

lemma set_pending_or_set:
  assumes "slab_get O1 st k = Some e" "e \<noteq> RS_Dropped"
  shows "\<exists>st'. oneshot_set_result O1 st r k = Inr st'
           \<and> slab_get O1 st' = (slab_get O1 st)(k \<mapsto> RS_Set r)"
  using assms get_set [OF assms(1), of "RS_Set r"]
  by (cases e) (auto simp: oneshot_set_result_def)

lemma set_dropped:
  assumes "slab_get O1 st k = Some RS_Dropped"
  shows "\<exists>st'. oneshot_set_result O1 st r k = Inr st' \<and> slab_get O1 st' = (slab_get O1 st)(k := None)"
  by (rule remove_rs_occupied [OF assms]) (simp add: assms oneshot_set_result_def)

lemma get_set_result:
  assumes "slab_get O1 st k = Some (RS_Set r)"
  shows "\<exists>st'. oneshot_get_result O1 st k = Inr (Some r, st')
           \<and> slab_get O1 st' = (slab_get O1 st)(k := None)"
  by (rule remove_rs_occupied [OF assms]) (simp add: assms oneshot_get_result_def)

lemma get_pending:
  "slab_get O1 st k = Some RS_Pending \<Longrightarrow> oneshot_get_result O1 st k = Inr (None, st)"
  by (simp add: oneshot_get_result_def)

lemma drop_pending:
  assumes "slab_get O1 st k = Some RS_Pending"
  shows "\<exists>st'. oneshot_drop_result O1 st k = Inr st'
           \<and> slab_get O1 st' = (slab_get O1 st)(k \<mapsto> RS_Dropped)"
  using get_set [OF assms, of RS_Dropped] assms by (auto simp: oneshot_drop_result_def)

lemma drop_set:
  assumes "slab_get O1 st k = Some (RS_Set r)"
  shows "\<exists>st'. oneshot_drop_result O1 st k = Inr st' \<and> slab_get O1 st' = (slab_get O1 st)(k := None)"
  by (rule remove_rs_occupied [OF assms]) (simp add: assms oneshot_drop_result_def)

lemma create_slotD:
  assumes "oneshot_create_slot O1 st = Inr (k, st')"
  shows "slab_get O1 st k = None" "slab_get O1 st' = (slab_get O1 st)(k \<mapsto> RS_Pending)"
  using insert_rsD [OF assms [unfolded oneshot_create_slot_def]] by simp_all

end

sublocale oneshot_slab \<subseteq> lc: slot_lifecycle "oneshot_create_slot O1"
  "oneshot_set_result O1" "oneshot_drop_result O1" "oneshot_phase O1" "\<lambda>_. True"
proof unfold_locales
  fix st st' k assume "oneshot_create_slot O1 st = Inr (k, st')"
  from create_slotD [OF this] show "oneshot_phase O1 st k = Free
      \<and> oneshot_phase O1 st' = (oneshot_phase O1 st)(k := Live) \<and> True"
    by (simp add: phase_iffs phase_cong)
next
  fix st k x assume "oneshot_phase O1 st k = Live"
  then show "\<exists>st'. oneshot_set_result O1 st x k = Inr st'
      \<and> oneshot_phase O1 st' = (oneshot_phase O1 st)(k := Done) \<and> True"
    using set_pending_or_set [of st k RS_Pending x] by (auto simp: phase_iffs dest: phase_cong)
next
  fix st k x assume "oneshot_phase O1 st k = Released"
  then show "\<exists>st'. oneshot_set_result O1 st x k = Inr st'
      \<and> oneshot_phase O1 st' = (oneshot_phase O1 st)(k := Free) \<and> True"
    using set_dropped [of st k x] by (auto simp: phase_iffs dest: phase_cong)
next
  fix st k assume "oneshot_phase O1 st k = Live"
  then show "\<exists>st'. oneshot_drop_result O1 st k = Inr st'
      \<and> oneshot_phase O1 st' = (oneshot_phase O1 st)(k := Released) \<and> True"
    using drop_pending [of st k] by (auto simp: phase_iffs dest: phase_cong)
next
  fix st k assume "oneshot_phase O1 st k = Done"
  then show "\<exists>st'. oneshot_drop_result O1 st k = Inr st'
      \<and> oneshot_phase O1 st' = (oneshot_phase O1 st)(k := Free) \<and> True"
    using drop_set [of st k] by (fastforce simp: phase_iffs dest: phase_cong)
qed (simp_all add: phase_iffs oneshot_set_result_def oneshot_drop_result_def)

context oneshot_slab
begin

lemmas reclaim = lc.complete_release_free [OF TrueI] lc.release_complete_free [OF TrueI]

end

subsection \<open>MultishotStore keeps the contract\<close>

locale multishot_slab = slab_laws M + rb: ringbuf_laws R
  for M :: "('ms, 'rb MultishotResultState) slab_api" and R :: "'rb ringbuf_api"
begin

lemma phase_cong: "slab_get M st' = (slab_get M st)(k := e) \<Longrightarrow>
    multishot_phase M st' = (multishot_phase M st)(k := (case e of
      None \<Rightarrow> Free
    | Some e \<Rightarrow> if ms_finished e then Done else if ms_dropped e then Released else Live))"
  by (simp add: multishot_phase_def fun_eq_iff)

lemma ok_upd: "multishot_ok M st \<Longrightarrow> slab_get M st' = (slab_get M st)(k := e) \<Longrightarrow>
    (\<And>x. e = Some x \<Longrightarrow> \<not> (ms_finished x \<and> ms_dropped x)) \<Longrightarrow> multishot_ok M st'"
  by (auto simp: multishot_ok_def)

lemma phase_FreeD: "multishot_phase M st k = Free \<Longrightarrow> slab_get M st k = None"
  by (auto simp: multishot_phase_def split: option.splits if_splits)

lemma phase_LiveD: "multishot_phase M st k = Live \<Longrightarrow>
    \<exists>e. slab_get M st k = Some e \<and> \<not> ms_finished e \<and> \<not> ms_dropped e"
  by (auto simp: multishot_phase_def split: option.splits if_splits)

lemma phase_DoneD: "multishot_ok M st \<Longrightarrow> multishot_phase M st k = Done \<Longrightarrow>
    \<exists>e. slab_get M st k = Some e \<and> ms_finished e \<and> \<not> ms_dropped e"
  by (auto simp: multishot_phase_def multishot_ok_def split: option.splits if_splits)

lemma phase_ReleasedD: "multishot_phase M st k = Released \<Longrightarrow>
    \<exists>e. slab_get M st k = Some e \<and> \<not> ms_finished e \<and> ms_dropped e"
  by (auto simp: multishot_phase_def split: option.splits if_splits)

lemma create_slotD:
  assumes "multishot_create_slot M R st = Inr (k, st')"
  shows "slab_get M st k = None" "slab_get M st' = (slab_get M st)
    (k \<mapsto> \<lparr>ms_results = rb_new R, ms_dropped = False, ms_finished = False\<rparr>)"
  using insert_rsD [OF assms [unfolded multishot_create_slot_def]] by simp_all

lemma set_finished_keep:
  assumes "slab_get M st k = Some e" "\<not> ms_dropped e"
  shows "\<exists>st'. multishot_set_finished M st k = Inr st'
           \<and> slab_get M st' = (slab_get M st)(k \<mapsto> e\<lparr>ms_finished := True\<rparr>)"
  using assms get_set [OF assms(1)] by (simp add: multishot_set_finished_def)

lemma set_finished_remove:
  assumes "slab_get M st k = Some e" "ms_dropped e"
  shows "\<exists>st'. multishot_set_finished M st k = Inr st'
           \<and> slab_get M st' = (slab_get M st)(k := None)"
  by (rule remove_rs_occupied [OF assms(1)]) (simp add: assms multishot_set_finished_def)

lemma drop_keep:
  assumes "slab_get M st k = Some e" "\<not> ms_finished e"
  shows "\<exists>st'. multishot_drop_result M st k = Inr st'
           \<and> slab_get M st' = (slab_get M st)(k \<mapsto> e\<lparr>ms_dropped := True\<rparr>)"
  using assms get_set [OF assms(1)] by (simp add: multishot_drop_result_def)

lemma drop_remove:
  assumes "slab_get M st k = Some e" "ms_finished e"
  shows "\<exists>st'. multishot_drop_result M st k = Inr st'
           \<and> slab_get M st' = (slab_get M st)(k := None)"
  by (rule remove_rs_occupied [OF assms(1)]) (simp add: assms multishot_drop_result_def)

lemma push_occupied:
  assumes "slab_get M st k = Some e"
  shows "\<exists>st'. multishot_push_result M R st x k = Inr st'
           \<and> slab_get M st' = (slab_get M st)(k \<mapsto> e\<lparr>ms_results := rb_push R (ms_results e) x\<rparr>)"
  using assms get_set [OF assms(1)] by (simp add: multishot_push_result_def)

lemma push_phase:
  assumes "multishot_ok M st" "multishot_phase M st k \<noteq> Free"
  shows "\<exists>st'. multishot_push_result M R st x k = Inr st'
           \<and> multishot_phase M st' = multishot_phase M st \<and> multishot_ok M st'"
proof -
  from assms(2) obtain e where e: "slab_get M st k = Some e"
    by (auto simp: multishot_phase_def split: option.splits)
  obtain st' where st': "multishot_push_result M R st x k = Inr st'"
      "slab_get M st' = (slab_get M st)(k \<mapsto> e\<lparr>ms_results := rb_push R (ms_results e) x\<rparr>)"
    using push_occupied [OF e] by blast
  have "multishot_phase M st' = multishot_phase M st"
    using phase_cong [OF st'(2)] e by (auto simp: multishot_phase_def fun_eq_iff)
  moreover have "multishot_ok M st'"
    using assms(1) e by (intro ok_upd [OF _ st'(2)]) (auto simp: multishot_ok_def)
  ultimately show ?thesis using st'(1) by blast
qed

end

sublocale multishot_slab \<subseteq> lc: slot_lifecycle "multishot_create_slot M R"
  "\<lambda>st (_ :: unit) k. multishot_set_finished M st k" "multishot_drop_result M"
  "multishot_phase M" "multishot_ok M"
proof unfold_locales
  fix st st' k assume "multishot_ok M st" "multishot_create_slot M R st = Inr (k, st')"
  with create_slotD [OF this(2)] show "multishot_phase M st k = Free
      \<and> multishot_phase M st' = (multishot_phase M st)(k := Live) \<and> multishot_ok M st'"
    by (auto simp: multishot_phase_def fun_eq_iff intro: ok_upd)
next
  fix st k x assume "multishot_ok M st" "multishot_phase M st k = Live"
  then show "\<exists>st'. multishot_set_finished M st k = Inr st'
      \<and> multishot_phase M st' = (multishot_phase M st)(k := Done) \<and> multishot_ok M st'"
    using set_finished_keep phase_LiveD by (fastforce dest: phase_cong elim: ok_upd)
next
  fix st k x assume "multishot_ok M st" "multishot_phase M st k = Released"
  then show "\<exists>st'. multishot_set_finished M st k = Inr st'
      \<and> multishot_phase M st' = (multishot_phase M st)(k := Free) \<and> multishot_ok M st'"
    using set_finished_remove phase_ReleasedD by (fastforce dest: phase_cong elim: ok_upd)
next
  fix st k assume "multishot_ok M st" "multishot_phase M st k = Live"
  then show "\<exists>st'. multishot_drop_result M st k = Inr st'
      \<and> multishot_phase M st' = (multishot_phase M st)(k := Released) \<and> multishot_ok M st'"
    using drop_keep phase_LiveD by (fastforce dest: phase_cong elim: ok_upd)
next
  fix st k assume "multishot_ok M st" "multishot_phase M st k = Done"
  then show "\<exists>st'. multishot_drop_result M st k = Inr st'
      \<and> multishot_phase M st' = (multishot_phase M st)(k := Free) \<and> multishot_ok M st'"
    using drop_remove phase_DoneD by (fastforce dest: phase_cong elim: ok_upd)
qed (auto dest: phase_FreeD simp: multishot_set_finished_def multishot_drop_result_def)

context multishot_slab
begin

lemmas reclaim = lc.complete_release_free lc.release_complete_free

end

subsection \<open>Instances on concrete slabs\<close>

interpretation vec1: oneshot_slab vec_slab
  by unfold_locales

interpretation vecm: multishot_slab vec_slab list_ringbuf
  by unfold_locales

end
