(* ===== verification/Uring.thy ===== *)
theory Uring
  imports ResultStore
begin

text \<open>
  The ring reactor of \<open>src/src/reactor/uring.rs\<close> and the loop of
  \<open>src/src/reactor/mod.rs\<close> that wakes tasks: submission of an operation
  (\<open>submit_io\<close>), processing of one completion (\<open>handle_cqe\<close>, the body of
  \<open>IoCompletionIter::next\<close>) and of all completions (\<open>react\<close>, \<open>react_loop\<close>).

  The \<open>io_uring\<close> crate, and the kernel behind it, are the argument \<open>uring_api\<close>; the slab
  and ring buffer crates are the other fields of \<open>deps\<close>.
\<close>

subsection \<open>What the code hands to the io_uring crate\<close>

text \<open>
  A pointer argument of an operation is described by who owns the memory behind it: the
  pinned future that submits the operation, a buffer the future borrows, or a local
  variable of the function that builds the entry.
\<close>

datatype ptr = InFuture string | Borrowed string | OnStack string

datatype Opcode =
    Op_Read i32 ptr u32 "u64 option"
  | Op_Write i32 ptr u32 "u64 option"
  | Op_OpenAt i32 ptr i32 u32
  | Op_MkDirAt i32 ptr u32
  | Op_AcceptMulti i32
  | Op_Connect i32 ptr u32
  | Op_RecvMsg i32 ptr
  | Op_SendMsg i32 ptr

record Entry =
  entry_op :: Opcode
  entry_user_data :: u64

definition build :: "Opcode \<Rightarrow> Entry" where
  "build opc = \<lparr>entry_op = opc, entry_user_data = 0\<rparr>"

record Cqe =
  cqe_user_data :: u64
  cqe_result :: i32
  cqe_flags :: u32

text \<open>
  \<open>uring_submit_and_wait\<close> is \<open>None\<close> where the call never returns and \<open>Inl\<close> on an error;
  \<open>uring_completion\<close> gives the entries the completion queue holds when it is opened;
  \<open>uring_register_sync_cancel\<close> gives the error, if there is one.
\<close>

record 'u uring_api =
  uring_new :: "u32 \<Rightarrow> 'u option"
  uring_push :: "'u \<Rightarrow> Entry \<Rightarrow> 'u option"
  uring_submit_and_wait :: "'u \<Rightarrow> usize \<Rightarrow> (i32 + 'u) option"
  uring_completion :: "'u \<Rightarrow> Cqe list \<times> 'u"
  uring_register_sync_cancel :: "'u \<Rightarrow> u64 \<Rightarrow> i32 option \<times> 'u"
  cqueue_more :: "u32 \<Rightarrow> bool"

subsection \<open>ReactorInner\<close>

datatype IoKind = Oneshot | Multi

record 't PendingIo =
  assoc_obj :: 't
  result_slab_idx :: usize
  kind :: IoKind

record ('u, 'ps, 'os, 'ms) ReactorInner =
  uring :: 'u
  pending :: 'ps
  results :: "('os, 'ms) RingResults"

record ('u, 'ps, 'os, 'ms, 'rb, 't) deps =
  ur :: "'u uring_api"
  pend :: "('ps, 't PendingIo) slab_api"
  one :: "('os, ResultState) slab_api"
  multi :: "('ms, 'rb MultishotResultState) slab_api"
  rb :: "'rb ringbuf_api"

type_synonym ('u, 'ps, 'os, 'ms) inner = "('u, 'ps, 'os, 'ms) ReactorInner"

abbreviation set_oneshot :: "'os \<Rightarrow> ('u, 'ps, 'os, 'ms) inner \<Rightarrow> ('u, 'ps, 'os, 'ms) inner" where
  "set_oneshot st ri \<equiv> ri\<lparr>results := (results ri)\<lparr>rr_oneshot := st\<rparr>\<rparr>"

abbreviation set_multishot :: "'ms \<Rightarrow> ('u, 'ps, 'os, 'ms) inner \<Rightarrow> ('u, 'ps, 'os, 'ms) inner" where
  "set_multishot st ri \<equiv> ri\<lparr>results := (results ri)\<lparr>rr_multishot := st\<rparr>\<rparr>"

abbreviation get_oneshot :: "('u, 'ps, 'os, 'ms) inner \<Rightarrow> 'os" where
  "get_oneshot ri \<equiv> rr_oneshot (results ri)"

abbreviation get_multishot :: "('u, 'ps, 'os, 'ms) inner \<Rightarrow> 'ms" where
  "get_multishot ri \<equiv> rr_multishot (results ri)"

definition inner_new ::
    "('u, 'ps, 'os, 'ms, 'rb, 't) deps \<Rightarrow> ('u, 'ps, 'os, 'ms) inner rs" where
  "inner_new D = (case uring_new (ur D) 1024 of
     None \<Rightarrow> Inl UnwrapErr
   | Some u \<Rightarrow> Inr \<lparr>uring = u, pending = slab_new (pend D),
       results = ring_results_new (one D) (multi D)\<rparr>)"

definition create_slot :: "('u, 'ps, 'os, 'ms, 'rb, 't) deps \<Rightarrow> IoKind \<Rightarrow>
    ('u, 'ps, 'os, 'ms) inner \<Rightarrow> (usize \<times> ('u, 'ps, 'os, 'ms) inner) rs" where
  "create_slot D knd ri = (case knd of
     Oneshot \<Rightarrow> rbind (oneshot_create_slot (one D) (get_oneshot ri))
       (\<lambda>(idx, st). Inr (idx, set_oneshot st ri))
   | Multi \<Rightarrow> rbind (multishot_create_slot (multi D) (rb D) (get_multishot ri))
       (\<lambda>(idx, st). Inr (idx, set_multishot st ri)))"

definition submit_io :: "('u, 'ps, 'os, 'ms, 'rb, 't) deps \<Rightarrow> ('u, 'ps, 'os, 'ms) inner \<Rightarrow>
    Entry \<Rightarrow> 't \<Rightarrow> IoKind \<Rightarrow> ((u64 \<times> usize) \<times> ('u, 'ps, 'os, 'ms) inner) rs" where
  "submit_io D ri entry obj knd =
     rbind (create_slot D knd ri) (\<lambda>(idx, ri1).
     rbind (insert_rs (pend D) (pending ri1) \<lparr>assoc_obj = obj, result_slab_idx = idx, kind = knd\<rparr>)
       (\<lambda>(slot, p).
     case uring_push (ur D) (uring ri1) (entry\<lparr>entry_user_data := usize_as_u64 slot\<rparr>) of
       None \<Rightarrow> Inl UnwrapErr
     | Some u \<Rightarrow> Inr ((usize_as_u64 slot, idx), ri1\<lparr>pending := p, uring := u\<rparr>)))"

subsection \<open>IoCompletionIter\<close>

record ('u, 'ps, 'os, 'ms) IoCompletionIter =
  compl_queue :: "Cqe list"
  ring :: "('u, 'ps, 'os, 'ms) inner"

definition handle_cqe :: "('u, 'ps, 'os, 'ms, 'rb, 't) deps \<Rightarrow> Cqe \<Rightarrow>
    ('u, 'ps, 'os, 'ms) inner \<Rightarrow> ('t \<times> ('u, 'ps, 'os, 'ms) inner) rs" where
  "handle_cqe D entry ri =
     rbind (unwrap (slab_get (pend D) (pending ri) (u64_as_usize (cqe_user_data entry))))
     (\<lambda>pending_io.
       case kind pending_io of
         Oneshot \<Rightarrow>
           rbind (oneshot_set_result (one D) (get_oneshot ri) (cqe_result entry)
                    (result_slab_idx pending_io)) (\<lambda>st.
           rbind (remove_rs (pend D) (pending ri) (u64_as_usize (cqe_user_data entry))) (\<lambda>p.
           Inr (assoc_obj pending_io, (set_oneshot st ri)\<lparr>pending := p\<rparr>)))
       | Multi \<Rightarrow>
           rbind (multishot_push_result (multi D) (rb D) (get_multishot ri) (cqe_result entry)
                    (result_slab_idx pending_io)) (\<lambda>st.
           rbind (if \<not> cqueue_more (ur D) (cqe_flags entry)
                  then multishot_set_finished (multi D) st (result_slab_idx pending_io)
                  else Inr st) (\<lambda>st'.
           Inr (assoc_obj pending_io, set_multishot st' ri))))"

definition iter_next :: "('u, 'ps, 'os, 'ms, 'rb, 't) deps \<Rightarrow>
    ('u, 'ps, 'os, 'ms) IoCompletionIter \<Rightarrow>
    ('t option \<times> ('u, 'ps, 'os, 'ms) IoCompletionIter) rs" where
  "iter_next D it = (case compl_queue it of
     [] \<Rightarrow> Inr (None, it)
   | entry # rest \<Rightarrow>
       rbind (handle_cqe D entry (ring it)) (\<lambda>(obj, ri).
         Inr (Some obj, \<lparr>compl_queue = rest, ring = ri\<rparr>)))"

text \<open>\<open>ReactorUring::react\<close>: \<open>None\<close> where the wait for a completion never ends.\<close>

definition react :: "('u, 'ps, 'os, 'ms, 'rb, 't) deps \<Rightarrow> ('u, 'ps, 'os, 'ms) inner \<Rightarrow>
    ('u, 'ps, 'os, 'ms) IoCompletionIter rs option" where
  "react D ri = (case uring_submit_and_wait (ur D) (uring ri) 1 of
     None \<Rightarrow> None
   | Some (Inl e) \<Rightarrow> Some (Inl UnwrapErr)
   | Some (Inr u) \<Rightarrow>
       (let (cq, u') = uring_completion (ur D) u
        in Some (Inr \<lparr>compl_queue = cq, ring = ri\<lparr>uring := u'\<rparr>\<rparr>)))"

text \<open>
  \<open>Reactor::react\<close>: every object the iterator yields is woken, in the order of the
  completion queue. \<open>wake\<close> acts on a state of its own (the executor).
\<close>

function react_loop :: "('u, 'ps, 'os, 'ms, 'rb, 't) deps \<Rightarrow> ('t \<Rightarrow> 'x \<Rightarrow> 'x) \<Rightarrow>
    ('u, 'ps, 'os, 'ms) IoCompletionIter \<Rightarrow> 'x \<Rightarrow> (('u, 'ps, 'os, 'ms) inner \<times> 'x) rs" where
  "react_loop D wake it x = (case iter_next D it of
     Inl p \<Rightarrow> Inl p
   | Inr (None, it') \<Rightarrow> Inr (ring it', x)
   | Inr (Some w, it') \<Rightarrow> react_loop D wake it' (wake w x))"
  by pat_completeness auto
termination
  by (relation "measure (\<lambda>(D, wake, it, x). length (compl_queue it))")
     (auto simp: iter_next_def rbind_eq_Inr split: list.splits)

definition reactor_react :: "('u, 'ps, 'os, 'ms, 'rb, 't) deps \<Rightarrow> ('t \<Rightarrow> 'x \<Rightarrow> 'x) \<Rightarrow>
    ('u, 'ps, 'os, 'ms) inner \<Rightarrow> 'x \<Rightarrow> (('u, 'ps, 'os, 'ms) inner \<times> 'x) rs option" where
  "reactor_react D wake ri x = (case react D ri of
     None \<Rightarrow> None
   | Some (Inl p) \<Rightarrow> Some (Inl p)
   | Some (Inr it) \<Rightarrow> Some (react_loop D wake it x))"

subsection \<open>The contract of the crates, together\<close>

locale reactor_deps = pd: slab_laws "pend D" + os: oneshot_slab "one D"
    + ms: multishot_slab "multi D" "rb D"
  for D :: "('u, 'ps, 'os, 'ms, 'rb, 't) deps"

text \<open>A completion is processed the same whether the iterator or a client takes it.\<close>

declare react_loop.simps [simp del]

lemma react_loop_Nil: "react_loop D wake \<lparr>compl_queue = [], ring = ri\<rparr> x = Inr (ri, x)"
  by (subst react_loop.simps) (simp add: iter_next_def)

lemma react_loop_Cons:
  "react_loop D wake \<lparr>compl_queue = c # cs, ring = ri\<rparr> x =
     rbind (handle_cqe D c ri) (\<lambda>(w, ri'). react_loop D wake \<lparr>compl_queue = cs, ring = ri'\<rparr> (wake w x))"
  by (cases "handle_cqe D c ri")
     (auto simp: iter_next_def react_loop.simps [of D wake "\<lparr>compl_queue = c # cs, ring = ri\<rparr>" x])

end
