(* ===== verification/UringIo.thy ===== *)
theory UringIo
  imports Uring
begin

text \<open>
  The handles of \<open>src/src/reactor/uring/io/\<close>: \<open>OneshotUringIo\<close> and
  \<open>MultishotUringIo\<close>, through which every future talks to the reactor. A handle is its
  \<open>IoState\<close>; the shared \<open>Rc<RefCell<ReactorInner>>\<close> is passed explicitly.

  The closure given to \<open>submit_or_get_result\<close> is a function on a state \<open>'w\<close> of its caller
  (a future whose closure arms a timer or fills a header changes that state; most closures
  have none) that returns the entry and the object to wake.
\<close>

definition reactor_value_to_result :: "i32 \<Rightarrow> i32 io_result" where
  "reactor_value_to_result v = (if sint v < 0 then Inl (OsError (i32_abs v)) else Inr v)"

type_synonym ('w, 't) closure = "'w \<Rightarrow> ((Entry \<times> 't) \<times> 'w) rs"

subsection \<open>OneshotUringIo\<close>

datatype OneshotIoState = OS_New | OS_Submitted usize | OS_Finished i32

definition oneshot_io_new :: OneshotIoState where
  "oneshot_io_new = OS_New"

definition poll_of_state :: "OneshotIoState \<Rightarrow> i32 io_result Poll" where
  "poll_of_state st = (case st of
     OS_New \<Rightarrow> Poll_Pending
   | OS_Submitted _ \<Rightarrow> Poll_Pending
   | OS_Finished result \<Rightarrow> Poll_Ready (reactor_value_to_result result))"

definition oneshot_submit_or_get_result ::
    "('u, 'ps, 'os, 'ms, 'rb, 't) deps \<Rightarrow> ('w, 't) closure \<Rightarrow>
     OneshotIoState \<Rightarrow> ('u, 'ps, 'os, 'ms) inner \<Rightarrow> 'w \<Rightarrow>
     (i32 io_result Poll \<times> OneshotIoState \<times> ('u, 'ps, 'os, 'ms) inner \<times> 'w) rs" where
  "oneshot_submit_or_get_result D f st ri w =
     rbind (case st of
       OS_New \<Rightarrow>
         rbind (f w) (\<lambda>((entry, obj), w').
         rbind (submit_io D ri entry obj Oneshot) (\<lambda>((_, result_slot), ri').
         Inr (OS_Submitted result_slot, ri', w')))
     | OS_Submitted slot \<Rightarrow>
         rbind (oneshot_get_result (one D) (get_oneshot ri) slot) (\<lambda>(res, st1).
         Inr (case res of Some r \<Rightarrow> OS_Finished r | None \<Rightarrow> OS_Submitted slot,
              set_oneshot st1 ri, w))
     | OS_Finished r \<Rightarrow> Inr (OS_Finished r, ri, w))
     (\<lambda>(st', ri', w'). Inr (poll_of_state st', st', ri', w'))"

definition oneshot_io_drop :: "('u, 'ps, 'os, 'ms, 'rb, 't) deps \<Rightarrow> OneshotIoState \<Rightarrow>
    ('u, 'ps, 'os, 'ms) inner \<Rightarrow> ('u, 'ps, 'os, 'ms) inner rs" where
  "oneshot_io_drop D st ri = (case st of
     OS_Submitted slot \<Rightarrow>
       rbind (oneshot_drop_result (one D) (get_oneshot ri) slot) (\<lambda>st1. Inr (set_oneshot st1 ri))
   | _ \<Rightarrow> Inr ri)"

subsection \<open>MultishotUringIo\<close>

datatype MultishotIoState = MS_New | MS_Submitted usize u64

definition multishot_io_new :: MultishotIoState where
  "multishot_io_new = MS_New"

definition multishot_submit_or_get_result ::
    "('u, 'ps, 'os, 'ms, 'rb, 't) deps \<Rightarrow> ('w, 't) closure \<Rightarrow>
     MultishotIoState \<Rightarrow> ('u, 'ps, 'os, 'ms) inner \<Rightarrow> 'w \<Rightarrow>
     (i32 io_result option Poll \<times> MultishotIoState \<times> ('u, 'ps, 'os, 'ms) inner \<times> 'w) rs" where
  "multishot_submit_or_get_result D f st ri w = (case st of
     MS_New \<Rightarrow>
       rbind (f w) (\<lambda>((entry, obj), w').
       rbind (submit_io D ri entry obj Multi) (\<lambda>((ud, result_slot), ri').
       Inr (Poll_Pending, MS_Submitted result_slot ud, ri', w')))
   | MS_Submitted slot ud \<Rightarrow>
       rbind (multishot_pop_result (multi D) (rb D) (get_multishot ri) slot) (\<lambda>(res, st1).
       Inr (case res of
              MR_Value v \<Rightarrow> Poll_Ready (Some (reactor_value_to_result v))
            | MR_Pending \<Rightarrow> Poll_Pending
            | MR_Finished \<Rightarrow> Poll_Ready None,
            MS_Submitted slot ud, set_multishot st1 ri, w)))"

definition multishot_io_drop :: "('u, 'ps, 'os, 'ms, 'rb, 't) deps \<Rightarrow> MultishotIoState \<Rightarrow>
    ('u, 'ps, 'os, 'ms) inner \<Rightarrow> ('u, 'ps, 'os, 'ms) inner rs" where
  "multishot_io_drop D st ri = (case st of
     MS_Submitted slot ud \<Rightarrow>
       (case uring_register_sync_cancel (ur D) (uring ri) ud of
          (Some e, u) \<Rightarrow> Inl (ExpectErr ''Should be able to cancel in-flight multishot IO'')
        | (None, u) \<Rightarrow>
            rbind (multishot_drop_result (multi D) (get_multishot ri) slot)
              (\<lambda>st1. Inr (set_multishot st1 (ri\<lparr>uring := u\<rparr>))))
   | MS_New \<Rightarrow> Inr ri)"

subsection \<open>Results\<close>

lemma reactor_value_ok: "0 \<le> sint v \<Longrightarrow> reactor_value_to_result v = Inr v"
  by (simp add: reactor_value_to_result_def)

lemma sint_uminus_neg:
  assumes "sint (v :: i32) < 0" "sint v \<noteq> - (2 ^ 31)"
  shows "sint (- v) = - sint v"
proof -
  have "- (2 ^ 31) \<le> sint v" using sint_greater_eq [of v] by simp
  with assms have "signed_take_bit 31 (- sint v) = - sint v"
    by (intro signed_take_bit_int_eq_self) auto
  then show ?thesis by (simp add: sint_word_ariths)
qed

text \<open>The first poll runs the closure and submits; every later one ignores it.\<close>

lemma oneshot_first:
  "oneshot_submit_or_get_result D f OS_New i w = Inr (q, st, i', w') \<longleftrightarrow>
     (\<exists>e ob ud k. f w = Inr ((e, ob), w') \<and> submit_io D i e ob Oneshot = Inr ((ud, k), i')
        \<and> st = OS_Submitted k \<and> q = Poll_Pending)"
  by (auto simp: oneshot_submit_or_get_result_def rbind_eq_Inr poll_of_state_def)

lemma oneshot_later:
  assumes "st \<noteq> OS_New" "oneshot_submit_or_get_result D f st i w = Inr (q, st', i', w')"
  shows "oneshot_submit_or_get_result D g st i v = Inr (q, st', i', v)"
  using assms by (cases st) (auto simp: oneshot_submit_or_get_result_def rbind_eq_Inr)

lemma oneshot_closure_cong:
  "f w = g w \<Longrightarrow> oneshot_submit_or_get_result D f st i w = oneshot_submit_or_get_result D g st i w"
  by (cases st) (simp_all add: oneshot_submit_or_get_result_def)

lemma oneshot_poll_of_state:
  "oneshot_submit_or_get_result D f st i w = Inr (q, st', i', w') \<Longrightarrow> q = poll_of_state st'"
  by (auto simp: oneshot_submit_or_get_result_def rbind_eq_Inr)

lemma oneshot_ready_finished:
  "oneshot_submit_or_get_result D f st i w = Inr (Poll_Ready r, st', i', w') \<Longrightarrow> \<exists>v. st' = OS_Finished v"
  by (drule oneshot_poll_of_state) (cases st', simp_all add: poll_of_state_def)

end
