(* ===== verification/ReactorSys.thy ===== *)
theory ReactorSys
  imports UringIo
begin

text \<open>
  The reactor together with its clients: any number of oneshot and multishot handles, the
  operations the kernel still owes a completion for, and the interleavings of what they do.

  \<open>rstep\<close> is one event (a handle is created, polled or dropped, a completion is processed,
  the ring moves on its own); \<open>allowed\<close> is what ownership and the kernel guarantee: a live
  handle is polled or dropped only by its owner, and a completion arrives only for an
  operation in flight, the last one of a multishot operation without the \<open>MORE\<close> flag.
  \<open>reachable\<close> are the states of all such interleavings.

  \<open>slots_ok\<close> is the abstract picture: a set of slots, each shared by at most one handle and
  at most one operation in flight. It is proved once for both kinds of handle.
\<close>

subsection \<open>Slots shared between handles and operations in flight\<close>

definition slots_ok :: "(usize \<Rightarrow> phase) \<Rightarrow> ('h \<rightharpoonup> usize) \<Rightarrow> ('f \<rightharpoonup> usize) \<Rightarrow> bool" where
  "slots_ok ph hs fl \<longleftrightarrow> inj_on hs (dom hs) \<and> inj_on fl (dom fl)
     \<and> (\<forall>k. k \<in> ran hs \<longleftrightarrow> ph k = Live \<or> ph k = Done)
     \<and> (\<forall>k. k \<in> ran fl \<longleftrightarrow> ph k = Live \<or> ph k = Released)"

lemma slots_ok_empty: "slots_ok (\<lambda>_. Free) Map.empty Map.empty"
  by (simp add: slots_ok_def)

lemma inj_upd_fresh: "inj_on m (dom m) \<Longrightarrow> k \<notin> ran m \<Longrightarrow> inj_on (m(a \<mapsto> k)) (dom (m(a \<mapsto> k)))"
  by (auto simp: inj_on_def ran_def split: if_splits)

lemma inj_del: "inj_on m (dom m) \<Longrightarrow> inj_on (m(a := None)) (dom (m(a := None)))"
  by (auto simp: inj_on_def)

lemma ran_del: "inj_on m (dom m) \<Longrightarrow> m a = Some k \<Longrightarrow> ran (m(a := None)) = ran m - {k}"
proof (rule set_eqI)
  fix x assume inj: "inj_on m (dom m)" and a: "m a = Some k"
  have "(\<exists>b. b \<noteq> a \<and> m b = Some x) \<longleftrightarrow> (\<exists>b. m b = Some x) \<and> x \<noteq> k"
    using inj a by (auto simp: inj_on_def dom_def) (metis option.inject)
  then show "x \<in> ran (m(a := None)) \<longleftrightarrow> x \<in> ran m - {k}" by (auto simp: ran_def)
qed

lemma slots_submit:
  assumes "slots_ok ph hs fl" "ph k = Free" "hs h = None" "fl u = None"
  shows "slots_ok (ph(k := Live)) (hs(h \<mapsto> k)) (fl(u \<mapsto> k))"
proof -
  from assms have "k \<notin> ran hs" "k \<notin> ran fl" by (auto simp: slots_ok_def)
  with assms show ?thesis
    by (simp add: slots_ok_def inj_upd_fresh del: dom_fun_upd)
qed

lemma slots_complete:
  assumes "slots_ok ph hs fl" "fl u = Some k"
  shows "ph k = Live \<Longrightarrow> slots_ok (ph(k := Done)) hs (fl(u := None))"
    and "ph k = Released \<Longrightarrow> slots_ok (ph(k := Free)) hs (fl(u := None))"
  using assms by (simp_all add: slots_ok_def inj_del ran_del del: dom_fun_upd)

lemma slots_release:
  assumes "slots_ok ph hs fl" "hs h = Some k"
  shows "ph k = Live \<Longrightarrow> slots_ok (ph(k := Released)) (hs(h := None)) fl"
    and "ph k = Done \<Longrightarrow> slots_ok (ph(k := Free)) (hs(h := None)) fl"
  using assms by (simp_all add: slots_ok_def inj_del ran_del del: dom_fun_upd)

lemma slots_handle_phase: "slots_ok ph hs fl \<Longrightarrow> hs h = Some k \<Longrightarrow> ph k = Live \<or> ph k = Done"
  by (auto simp: slots_ok_def ran_def)

lemma slots_flight_phase: "slots_ok ph hs fl \<Longrightarrow> fl u = Some k \<Longrightarrow> ph k = Live \<or> ph k = Released"
  by (auto simp: slots_ok_def ran_def)

lemma slots_handle_inj: "slots_ok ph hs fl \<Longrightarrow> hs h = Some k \<Longrightarrow> hs h' = Some k \<Longrightarrow> h = h'"
  by (auto simp: slots_ok_def inj_on_def dom_def)

lemma slots_flight_inj: "slots_ok ph hs fl \<Longrightarrow> fl u = Some k \<Longrightarrow> fl u' = Some k \<Longrightarrow> u = u'"
  by (auto simp: slots_ok_def inj_on_def dom_def)

lemma slots_idle_free: "slots_ok ph Map.empty Map.empty \<Longrightarrow> ph = (\<lambda>_. Free)"
  by (auto simp: slots_ok_def fun_eq_iff) (metis phase.exhaust)

subsection \<open>The system\<close>

record ('u, 'ps, 'os, 'ms) rsys =
  ri :: "('u, 'ps, 'os, 'ms) inner"
  ones :: "nat \<rightharpoonup> OneshotIoState"
  multis :: "nat \<rightharpoonup> MultishotIoState"
  inflight :: "u64 \<rightharpoonup> IoKind"

datatype ('u, 't) revent =
    NewOneshot nat
  | NewMultishot nat
  | PollOneshot nat Entry 't
  | PollMultishot nat Entry 't
  | DropOneshot nat
  | DropMultishot nat
  | Complete Cqe
  | RingMoves 'u

definition rinit :: "('u, 'ps, 'os, 'ms, 'rb, 't) deps \<Rightarrow> ('u, 'ps, 'os, 'ms) rsys rs" where
  "rinit D = rbind (inner_new D) (\<lambda>i.
     Inr \<lparr>ri = i, ones = Map.empty, multis = Map.empty, inflight = Map.empty\<rparr>)"

text \<open>The user data the next submission will get: the key of the next vacant pending entry.\<close>

definition next_ud :: "('u, 'ps, 'os, 'ms, 'rb, 't) deps \<Rightarrow> ('u, 'ps, 'os, 'ms) rsys \<Rightarrow> u64" where
  "next_ud D s = usize_as_u64 (slab_vacant_key (pend D) (pending (ri s)))"

definition poll_oneshot :: "('u, 'ps, 'os, 'ms, 'rb, 't) deps \<Rightarrow> nat \<Rightarrow> Entry \<Rightarrow> 't \<Rightarrow>
    ('u, 'ps, 'os, 'ms) rsys \<Rightarrow> (i32 io_result Poll \<times> ('u, 'ps, 'os, 'ms) rsys) rs" where
  "poll_oneshot D h e ob s = (case ones s h of
     None \<Rightarrow> Inr (Poll_Pending, s)
   | Some st \<Rightarrow>
       rbind (oneshot_submit_or_get_result D (\<lambda>w. Inr ((e, ob), w)) st (ri s) ()) (\<lambda>(p, st', ri', _).
       Inr (p, s\<lparr>ri := ri', ones := (ones s)(h \<mapsto> st'),
         inflight := (if st = OS_New then (inflight s)(next_ud D s \<mapsto> Oneshot) else inflight s)\<rparr>)))"

definition poll_multishot :: "('u, 'ps, 'os, 'ms, 'rb, 't) deps \<Rightarrow> nat \<Rightarrow> Entry \<Rightarrow> 't \<Rightarrow>
    ('u, 'ps, 'os, 'ms) rsys \<Rightarrow> (i32 io_result option Poll \<times> ('u, 'ps, 'os, 'ms) rsys) rs" where
  "poll_multishot D h e ob s = (case multis s h of
     None \<Rightarrow> Inr (Poll_Pending, s)
   | Some st \<Rightarrow>
       rbind (multishot_submit_or_get_result D (\<lambda>w. Inr ((e, ob), w)) st (ri s) ()) (\<lambda>(p, st', ri', _).
       Inr (p, s\<lparr>ri := ri', multis := (multis s)(h \<mapsto> st'),
         inflight := (if st = MS_New then (inflight s)(next_ud D s \<mapsto> Multi) else inflight s)\<rparr>)))"

definition complete_cqe :: "('u, 'ps, 'os, 'ms, 'rb, 't) deps \<Rightarrow> Cqe \<Rightarrow>
    ('u, 'ps, 'os, 'ms) rsys \<Rightarrow> ('t \<times> ('u, 'ps, 'os, 'ms) rsys) rs" where
  "complete_cqe D c s = rbind (handle_cqe D c (ri s)) (\<lambda>(ob, i).
     Inr (ob, s\<lparr>ri := i, inflight :=
       (if inflight s (cqe_user_data c) = Some Multi \<and> cqueue_more (ur D) (cqe_flags c)
        then inflight s else (inflight s)(cqe_user_data c := None))\<rparr>))"

fun rstep :: "('u, 'ps, 'os, 'ms, 'rb, 't) deps \<Rightarrow> ('u, 't) revent \<Rightarrow>
    ('u, 'ps, 'os, 'ms) rsys \<Rightarrow> ('u, 'ps, 'os, 'ms) rsys rs" where
  "rstep D (NewOneshot h) s = Inr (s\<lparr>ones := (ones s)(h \<mapsto> oneshot_io_new)\<rparr>)"
| "rstep D (NewMultishot h) s = Inr (s\<lparr>multis := (multis s)(h \<mapsto> multishot_io_new)\<rparr>)"
| "rstep D (PollOneshot h e ob) s = rbind (poll_oneshot D h e ob s) (\<lambda>(_, s'). Inr s')"
| "rstep D (PollMultishot h e ob) s = rbind (poll_multishot D h e ob s) (\<lambda>(_, s'). Inr s')"
| "rstep D (DropOneshot h) s = (case ones s h of
     None \<Rightarrow> Inr s
   | Some st \<Rightarrow> rbind (oneshot_io_drop D st (ri s)) (\<lambda>i. Inr (s\<lparr>ri := i, ones := (ones s)(h := None)\<rparr>)))"
| "rstep D (DropMultishot h) s = (case multis s h of
     None \<Rightarrow> Inr s
   | Some st \<Rightarrow> rbind (multishot_io_drop D st (ri s)) (\<lambda>i. Inr (s\<lparr>ri := i, multis := (multis s)(h := None)\<rparr>)))"
| "rstep D (Complete c) s = rbind (complete_cqe D c s) (\<lambda>(_, s'). Inr s')"
| "rstep D (RingMoves u) s = Inr (s\<lparr>ri := (ri s)\<lparr>uring := u\<rparr>\<rparr>)"

fun allowed :: "('u, 't) revent \<Rightarrow> ('u, 'ps, 'os, 'ms) rsys \<Rightarrow> bool" where
  "allowed (NewOneshot h) s = (ones s h = None)"
| "allowed (NewMultishot h) s = (multis s h = None)"
| "allowed (PollOneshot h _ _) s = (ones s h \<noteq> None)"
| "allowed (PollMultishot h _ _) s = (multis s h \<noteq> None)"
| "allowed (DropOneshot h) s = (ones s h \<noteq> None)"
| "allowed (DropMultishot h) s = (multis s h \<noteq> None)"
| "allowed (Complete c) s = (inflight s (cqe_user_data c) \<noteq> None)"
| "allowed (RingMoves _) s = True"

inductive reachable :: "('u, 'ps, 'os, 'ms, 'rb, 't) deps \<Rightarrow> ('u, 'ps, 'os, 'ms) rsys \<Rightarrow> bool"
  for D where
  start: "rinit D = Inr s \<Longrightarrow> reachable D s"
| step: "reachable D s \<Longrightarrow> allowed ev s \<Longrightarrow> rstep D ev s = Inr s' \<Longrightarrow> reachable D s'"

subsection \<open>The invariant\<close>

fun os_slot :: "OneshotIoState \<Rightarrow> usize option" where
  "os_slot (OS_Submitted k) = Some k"
| "os_slot _ = None"

fun ms_slot :: "MultishotIoState \<Rightarrow> usize option" where
  "ms_slot (MS_Submitted k _) = Some k"
| "ms_slot MS_New = None"

definition one_slots :: "('u, 'ps, 'os, 'ms) rsys \<Rightarrow> nat \<rightharpoonup> usize" where
  "one_slots s h = Option.bind (ones s h) os_slot"

definition multi_slots :: "('u, 'ps, 'os, 'ms) rsys \<Rightarrow> nat \<rightharpoonup> usize" where
  "multi_slots s h = Option.bind (multis s h) ms_slot"

definition pend_of :: "('u, 'ps, 'os, 'ms, 'rb, 't) deps \<Rightarrow> ('u, 'ps, 'os, 'ms) rsys \<Rightarrow>
    u64 \<rightharpoonup> 't PendingIo" where
  "pend_of D s ud = slab_get (pend D) (pending (ri s)) (u64_as_usize ud)"

definition flight :: "('u, 'ps, 'os, 'ms, 'rb, 't) deps \<Rightarrow> IoKind \<Rightarrow> ('u, 'ps, 'os, 'ms) rsys \<Rightarrow>
    u64 \<rightharpoonup> usize" where
  "flight D knd s ud = (if inflight s ud = Some knd then map_option result_slab_idx (pend_of D s ud)
     else None)"

definition pend_ok :: "('u, 'ps, 'os, 'ms, 'rb, 't) deps \<Rightarrow> ('u, 'ps, 'os, 'ms) rsys \<Rightarrow> bool" where
  "pend_ok D s \<longleftrightarrow>
     (\<forall>ud knd. inflight s ud = Some knd \<longrightarrow> (\<exists>p. pend_of D s ud = Some p \<and> kind p = knd))
   \<and> (\<forall>ud p. pend_of D s ud = Some p \<and> kind p = Oneshot \<longrightarrow> inflight s ud = Some Oneshot)"

definition rinv :: "('u, 'ps, 'os, 'ms, 'rb, 't) deps \<Rightarrow> ('u, 'ps, 'os, 'ms) rsys \<Rightarrow> bool" where
  "rinv D s \<longleftrightarrow>
     slots_ok (oneshot_phase (one D) (get_oneshot (ri s))) (one_slots s) (flight D Oneshot s)
   \<and> slots_ok (multishot_phase (multi D) (get_multishot (ri s))) (multi_slots s) (flight D Multi s)
   \<and> multishot_ok (multi D) (get_multishot (ri s))
   \<and> pend_ok D s"

lemma one_slots_upd: "ones s' = (ones s)(h := st) \<Longrightarrow>
    one_slots s' = (one_slots s)(h := Option.bind st os_slot)"
  by (simp add: one_slots_def fun_eq_iff)

lemma multi_slots_upd: "multis s' = (multis s)(h := st) \<Longrightarrow>
    multi_slots s' = (multi_slots s)(h := Option.bind st ms_slot)"
  by (simp add: multi_slots_def fun_eq_iff)

lemma slots_frame [simp]:
  "one_slots (s\<lparr>ri := i\<rparr>) = one_slots s" "one_slots (s\<lparr>inflight := f\<rparr>) = one_slots s"
  "one_slots (s\<lparr>multis := m\<rparr>) = one_slots s" "multi_slots (s\<lparr>ri := i\<rparr>) = multi_slots s"
  "multi_slots (s\<lparr>inflight := f\<rparr>) = multi_slots s" "multi_slots (s\<lparr>ones := m'\<rparr>) = multi_slots s"
  by (simp_all add: one_slots_def multi_slots_def fun_eq_iff)

lemma flight_upd:
  assumes "inflight s' = (inflight s)(ud := x)" "pend_of D s' = (pend_of D s)(ud := y)"
  shows "flight D knd s' = (flight D knd s)(ud := if x = Some knd then map_option result_slab_idx y else None)"
  using assms by (simp add: flight_def fun_eq_iff)

lemma pend_ok_upd:
  assumes "pend_ok D s" "inflight s' = (inflight s)(ud := x)" "pend_of D s' = (pend_of D s)(ud := y)"
    and "\<And>knd. x = Some knd \<Longrightarrow> \<exists>p. y = Some p \<and> kind p = knd"
    and "\<And>p. y = Some p \<Longrightarrow> kind p = Oneshot \<Longrightarrow> x = Some Oneshot"
  shows "pend_ok D s'"
  using assms by (auto simp: pend_ok_def)

lemma pend_of_upd: "slab_get (pend D) (pending (ri s')) = (slab_get (pend D) (pending (ri s)))(u64_as_usize ud := y)
    \<Longrightarrow> pend_of D s' = (pend_of D s)(ud := y)"
  by (simp add: pend_of_def fun_eq_iff)

lemma pend_cong:
  assumes "pending (ri s') = pending (ri s)" "inflight s' = inflight s"
  shows "flight D knd s' = flight D knd s" "pend_ok D s' = pend_ok D s"
proof -
  have "pend_of D s' = pend_of D s" by (simp add: pend_of_def fun_eq_iff assms)
  then show "flight D knd s' = flight D knd s" "pend_ok D s' = pend_ok D s"
    by (simp_all add: flight_def fun_eq_iff pend_ok_def assms)
qed

lemma pend_ok_vacant: "pend_ok D s \<Longrightarrow> pend_of D s ud = None \<Longrightarrow> inflight s ud = None"
  by (auto simp: pend_ok_def) (metis not_None_eq option.distinct(1))

lemma flight_vacant: "pend_of D s ud = None \<Longrightarrow> flight D knd s ud = None"
  by (simp add: flight_def)

lemma rinvD:
  assumes "rinv D s"
  shows "slots_ok (oneshot_phase (one D) (get_oneshot (ri s))) (one_slots s) (flight D Oneshot s)"
    "slots_ok (multishot_phase (multi D) (get_multishot (ri s))) (multi_slots s) (flight D Multi s)"
    "multishot_ok (multi D) (get_multishot (ri s))" "pend_ok D s"
  using assms by (simp_all add: rinv_def)

lemma rinv_cong:
  assumes "rinv D s" "get_oneshot (ri s') = get_oneshot (ri s)" "get_multishot (ri s') = get_multishot (ri s)"
    "pending (ri s') = pending (ri s)" "inflight s' = inflight s"
    "one_slots s' = one_slots s" "multi_slots s' = multi_slots s"
  shows "rinv D s'"
  using assms pend_cong [OF assms(4,5), where D = D] by (simp add: rinv_def)

lemma set_store_idem [simp]:
  "set_oneshot (get_oneshot i) i = i" "set_multishot (get_multishot i) i = i"
  by simp_all

subsection \<open>What each operation does\<close>

context reactor_deps
begin

lemma create_slot_oneshotD:
  assumes "create_slot D Oneshot i = Inr (k, i')"
  obtains st where "oneshot_create_slot (one D) (get_oneshot i) = Inr (k, st)" "i' = set_oneshot st i"
  using assms by (auto simp: create_slot_def rbind_eq_Inr)

lemma create_slot_multiD:
  assumes "create_slot D Multi i = Inr (k, i')"
  obtains st where "multishot_create_slot (multi D) (rb D) (get_multishot i) = Inr (k, st)"
    "i' = set_multishot st i"
  using assms by (auto simp: create_slot_def rbind_eq_Inr)

lemma submit_ioD:
  assumes "submit_io D i e ob knd = Inr ((ud, k), i')"
  obtains i1 where "create_slot D knd i = Inr (k, i1)" "results i' = results i1"
    "slab_get (pend D) (pending i1) (u64_as_usize ud) = None"
    "slab_get (pend D) (pending i') = (slab_get (pend D) (pending i1))
       (u64_as_usize ud \<mapsto> \<lparr>assoc_obj = ob, result_slab_idx = k, kind = knd\<rparr>)"
    "ud = usize_as_u64 (slab_vacant_key (pend D) (pending i1))"
proof -
  from assms obtain i1 slot p u where 1: "create_slot D knd i = Inr (k, i1)"
      "insert_rs (pend D) (pending i1) \<lparr>assoc_obj = ob, result_slab_idx = k, kind = knd\<rparr> = Inr (slot, p)"
      "ud = usize_as_u64 slot" "i' = i1\<lparr>pending := p, uring := u\<rparr>"
    by (auto simp: submit_io_def rbind_eq_Inr split: option.splits)
  note ins = pd.insert_rsD [OF 1(2)]
  from ins(3) have "u64_as_usize ud = slot" by (simp add: 1)
  with 1 ins show thesis by (intro that [of i1]) simp_all
qed

lemma create_slot_pending: "create_slot D knd i = Inr (k, i1) \<Longrightarrow> pending i1 = pending i"
  by (cases knd) (auto simp: create_slot_def rbind_eq_Inr)

lemma submit_pend:
  assumes ok: "pend_ok D s" and sub: "submit_io D (ri s) e ob knd = Inr ((ud, k), i)"
    and s': "ri s' = i" "inflight s' = (inflight s)(next_ud D s \<mapsto> knd)"
  shows "next_ud D s = ud" "pend_ok D s'" "flight D knd s ud = None"
    "flight D knd s' = (flight D knd s)(ud \<mapsto> k)"
    "\<And>knd'. knd' \<noteq> knd \<Longrightarrow> flight D knd' s' = flight D knd' s"
proof -
  obtain i1 where i1: "create_slot D knd (ri s) = Inr (k, i1)"
    and vac: "slab_get (pend D) (pending i1) (u64_as_usize ud) = None"
    and pd': "slab_get (pend D) (pending i) = (slab_get (pend D) (pending i1))
       (u64_as_usize ud \<mapsto> \<lparr>assoc_obj = ob, result_slab_idx = k, kind = knd\<rparr>)"
    and ud: "ud = usize_as_u64 (slab_vacant_key (pend D) (pending i1))"
    by (rule submit_ioD [OF sub])
  note pi = create_slot_pending [OF i1]
  show nud: "next_ud D s = ud" by (simp add: next_ud_def ud pi)
  have po: "pend_of D s' = (pend_of D s)(ud \<mapsto> \<lparr>assoc_obj = ob, result_slab_idx = k, kind = knd\<rparr>)"
    using pd' by (intro pend_of_upd) (simp add: s' pi)
  have inf: "inflight s' = (inflight s)(ud \<mapsto> knd)" by (simp add: s' nud)
  have vac': "pend_of D s ud = None" using vac by (simp add: pend_of_def pi)
  then show "flight D knd s ud = None" by (rule flight_vacant)
  show "pend_ok D s'" using ok by (rule pend_ok_upd [OF _ inf po]) auto
  show "flight D knd s' = (flight D knd s)(ud \<mapsto> k)"
    using flight_upd [OF inf po, of knd] by simp
  show "flight D knd' s' = flight D knd' s" if "knd' \<noteq> knd" for knd'
    using flight_upd [OF inf po, of knd'] vac' that by (simp add: flight_vacant fun_upd_idem)
qed

text \<open>A submission of either kind keeps the invariant: the handle and the operation share a
  slot that was free.\<close>

lemma submit_oneshot_inv:
  assumes inv: "rinv D s" and new: "one_slots s h = None"
    and sub: "submit_io D (ri s) e ob Oneshot = Inr ((ud, k), i)"
    and s': "s' = s\<lparr>ri := i, ones := (ones s)(h \<mapsto> OS_Submitted k),
      inflight := (inflight s)(next_ud D s \<mapsto> Oneshot)\<rparr>"
  shows "rinv D s'"
proof -
  note I = rinvD [OF inv]
  have P: "pend_ok D s'" "flight D Oneshot s ud = None"
      "flight D Oneshot s' = (flight D Oneshot s)(ud \<mapsto> k)" "flight D Multi s' = flight D Multi s"
    using submit_pend [OF I(4) sub, of s'] by (simp_all add: s')
  obtain st where st: "oneshot_create_slot (one D) (get_oneshot (ri s)) = Inr (k, st)"
      and res: "results i = results (set_oneshot st (ri s))"
    using submit_ioD [OF sub] create_slot_oneshotD by metis
  have ph: "oneshot_phase (one D) (get_oneshot (ri s)) k = Free"
      "oneshot_phase (one D) st = (oneshot_phase (one D) (get_oneshot (ri s)))(k := Live)"
    using os.lc.create_phase [OF TrueI st] by simp_all
  have "slots_ok (oneshot_phase (one D) st) ((one_slots s)(h \<mapsto> k)) ((flight D Oneshot s)(ud \<mapsto> k))"
    unfolding ph(2) using I(1) ph(1) new P(2) by (rule slots_submit)
  moreover have "one_slots s' = (one_slots s)(h \<mapsto> k)"
    using one_slots_upd [of s' s h "Some (OS_Submitted k)"] by (simp add: s')
  moreover have "multi_slots s' = multi_slots s" by (simp add: s')
  ultimately show ?thesis using I P res by (simp add: rinv_def s')
qed

lemma submit_multishot_inv:
  assumes inv: "rinv D s" and new: "multi_slots s h = None"
    and sub: "submit_io D (ri s) e ob Multi = Inr ((ud, k), i)"
    and s': "s' = s\<lparr>ri := i, multis := (multis s)(h \<mapsto> MS_Submitted k ud'),
      inflight := (inflight s)(next_ud D s \<mapsto> Multi)\<rparr>"
  shows "rinv D s'"
proof -
  note I = rinvD [OF inv]
  have P: "pend_ok D s'" "flight D Multi s ud = None"
      "flight D Multi s' = (flight D Multi s)(ud \<mapsto> k)" "flight D Oneshot s' = flight D Oneshot s"
    using submit_pend [OF I(4) sub, of s'] by (simp_all add: s')
  obtain st where st: "multishot_create_slot (multi D) (rb D) (get_multishot (ri s)) = Inr (k, st)"
      and res: "results i = results (set_multishot st (ri s))"
    using submit_ioD [OF sub] create_slot_multiD by metis
  have ph: "multishot_phase (multi D) (get_multishot (ri s)) k = Free" "multishot_ok (multi D) st"
      "multishot_phase (multi D) st = (multishot_phase (multi D) (get_multishot (ri s)))(k := Live)"
    using ms.lc.create_phase [OF I(3) st] by simp_all
  have "slots_ok (multishot_phase (multi D) st) ((multi_slots s)(h \<mapsto> k)) ((flight D Multi s)(ud \<mapsto> k))"
    unfolding ph(3) using I(2) ph(1) new P(2) by (rule slots_submit)
  moreover have "multi_slots s' = (multi_slots s)(h \<mapsto> k)"
    using multi_slots_upd [of s' s h "Some (MS_Submitted k ud')"] by (simp add: s')
  moreover have "one_slots s' = one_slots s" by (simp add: s')
  ultimately show ?thesis using I P ph res by (simp add: rinv_def s')
qed

subsection \<open>Completions\<close>

lemma handle_cqe_oneshot:
  assumes p: "slab_get (pend D) (pending i) (u64_as_usize (cqe_user_data c)) = Some p" "kind p = Oneshot"
    and e: "slab_get (one D) (get_oneshot i) (result_slab_idx p) = Some e"
  shows "\<exists>i'. handle_cqe D c i = Inr (assoc_obj p, i')
    \<and> slab_get (pend D) (pending i') = (slab_get (pend D) (pending i))(u64_as_usize (cqe_user_data c) := None)
    \<and> slab_get (one D) (get_oneshot i') = (slab_get (one D) (get_oneshot i))
        (result_slab_idx p := if e = RS_Dropped then None else Some (RS_Set (cqe_result c)))
    \<and> get_multishot i' = get_multishot i"
proof -
  obtain st where "oneshot_set_result (one D) (get_oneshot i) (cqe_result c) (result_slab_idx p) = Inr st"
      "slab_get (one D) st = (slab_get (one D) (get_oneshot i))
        (result_slab_idx p := if e = RS_Dropped then None else Some (RS_Set (cqe_result c)))"
    using os.set_pending_or_set [OF e] os.set_dropped e by (cases "e = RS_Dropped") force+
  moreover obtain q where "remove_rs (pend D) (pending i) (u64_as_usize (cqe_user_data c)) = Inr q"
      "slab_get (pend D) q = (slab_get (pend D) (pending i))(u64_as_usize (cqe_user_data c) := None)"
    by (rule pd.remove_rs_occupied [OF p(1)])
  ultimately show ?thesis using p by (simp add: handle_cqe_def)
qed

lemma handle_cqe_multi:
  assumes p: "slab_get (pend D) (pending i) (u64_as_usize (cqe_user_data c)) = Some p" "kind p = Multi"
    and e: "slab_get (multi D) (get_multishot i) (result_slab_idx p) = Some e"
  defines "e' \<equiv> e\<lparr>ms_results := rb_push (rb D) (ms_results e) (cqe_result c)\<rparr>"
  shows "\<exists>i'. handle_cqe D c i = Inr (assoc_obj p, i') \<and> pending i' = pending i
    \<and> slab_get (multi D) (get_multishot i') = (slab_get (multi D) (get_multishot i))
        (result_slab_idx p := if cqueue_more (ur D) (cqe_flags c) then Some e'
           else if ms_dropped e then None else Some (e'\<lparr>ms_finished := True\<rparr>))
    \<and> get_oneshot i' = get_oneshot i"
proof -
  obtain st where st: "multishot_push_result (multi D) (rb D) (get_multishot i) (cqe_result c) (result_slab_idx p) = Inr st"
      "slab_get (multi D) st = (slab_get (multi D) (get_multishot i))(result_slab_idx p \<mapsto> e')"
    using ms.push_occupied [OF e] unfolding e'_def by blast
  then have e': "slab_get (multi D) st (result_slab_idx p) = Some e'" by simp
  show ?thesis
  proof (cases "cqueue_more (ur D) (cqe_flags c)")
    case False
    obtain st' where "multishot_set_finished (multi D) st (result_slab_idx p) = Inr st'"
        "slab_get (multi D) st' = (slab_get (multi D) st)
          (result_slab_idx p := if ms_dropped e then None else Some (e'\<lparr>ms_finished := True\<rparr>))"
      using ms.set_finished_keep [OF e'] ms.set_finished_remove [OF e']
      by (cases "ms_dropped e") (force simp: e'_def)+
    with False p st show ?thesis by (simp add: handle_cqe_def)
  qed (use p st in \<open>simp add: handle_cqe_def\<close>)
qed

lemma flight_entry:
  assumes "pend_ok D s" "inflight s ud = Some knd"
  obtains p where "slab_get (pend D) (pending (ri s)) (u64_as_usize ud) = Some p" "kind p = knd"
    "flight D knd s ud = Some (result_slab_idx p)"
  using assms unfolding pend_ok_def pend_of_def flight_def by fastforce

lemma complete_oneshot_inv:
  assumes inv: "rinv D s" and fl: "inflight s (cqe_user_data c) = Some Oneshot"
  shows "\<exists>ob s'. complete_cqe D c s = Inr (ob, s') \<and> rinv D s'"
proof -
  note I = rinvD [OF inv]
  obtain p where p: "slab_get (pend D) (pending (ri s)) (u64_as_usize (cqe_user_data c)) = Some p"
      "kind p = Oneshot" "flight D Oneshot s (cqe_user_data c) = Some (result_slab_idx p)"
    by (rule flight_entry [OF I(4) fl])
  let ?k = "result_slab_idx p" and ?ph = "oneshot_phase (one D) (get_oneshot (ri s))"
  have ph: "?ph ?k = Live \<or> ?ph ?k = Released" by (rule slots_flight_phase [OF I(1) p(3)])
  then obtain e where e: "slab_get (one D) (get_oneshot (ri s)) ?k = Some e"
      "?ph ?k = (if e = RS_Dropped then Released else Live)"
    by (auto simp: os.phase_iffs)
  obtain i where i: "handle_cqe D c (ri s) = Inr (assoc_obj p, i)"
      "slab_get (pend D) (pending i) = (slab_get (pend D) (pending (ri s)))(u64_as_usize (cqe_user_data c) := None)"
      "slab_get (one D) (get_oneshot i) = (slab_get (one D) (get_oneshot (ri s)))
        (?k := if e = RS_Dropped then None else Some (RS_Set (cqe_result c)))"
      "get_multishot i = get_multishot (ri s)"
    using handle_cqe_oneshot [OF p(1,2) e(1)] by blast
  define s' where "s' = s\<lparr>ri := i, inflight := (inflight s)(cqe_user_data c := None)\<rparr>"
  have po: "pend_of D s' = (pend_of D s)(cqe_user_data c := None)"
    using i(2) by (intro pend_of_upd) (simp add: s'_def)
  have inf: "inflight s' = (inflight s)(cqe_user_data c := None)" by (simp add: s'_def)
  have "slots_ok (oneshot_phase (one D) (get_oneshot i)) (one_slots s)
      ((flight D Oneshot s)(cqe_user_data c := None))"
    using slots_complete [OF I(1) p(3)] e(2) os.phase_cong [OF i(3)] by (auto split: if_splits)
  moreover have "flight D Multi s (cqe_user_data c) = None" using fl by (simp add: flight_def)
  ultimately have "rinv D s'"
    using I flight_upd [OF inf po] pend_ok_upd [OF I(4) inf po] i(4)
    by (simp add: rinv_def s'_def fun_upd_idem)
  with i(1) fl show ?thesis by (simp add: complete_cqe_def s'_def)
qed

lemma complete_multi_inv:
  assumes inv: "rinv D s" and fl: "inflight s (cqe_user_data c) = Some Multi"
  shows "\<exists>ob s'. complete_cqe D c s = Inr (ob, s') \<and> rinv D s'"
proof -
  note I = rinvD [OF inv]
  let ?more = "cqueue_more (ur D) (cqe_flags c)"
  obtain p where p: "slab_get (pend D) (pending (ri s)) (u64_as_usize (cqe_user_data c)) = Some p"
      "kind p = Multi" "flight D Multi s (cqe_user_data c) = Some (result_slab_idx p)"
    by (rule flight_entry [OF I(4) fl])
  let ?k = "result_slab_idx p" and ?ph = "multishot_phase (multi D) (get_multishot (ri s))"
  have ph: "?ph ?k = Live \<or> ?ph ?k = Released" by (rule slots_flight_phase [OF I(2) p(3)])
  then obtain e where e: "slab_get (multi D) (get_multishot (ri s)) ?k = Some e"
      "?ph ?k = (if ms_dropped e then Released else Live)" "\<not> ms_finished e"
    using ms.phase_LiveD ms.phase_ReleasedD by fastforce
  define e' where "e' = e\<lparr>ms_results := rb_push (rb D) (ms_results e) (cqe_result c)\<rparr>"
  obtain i where i: "handle_cqe D c (ri s) = Inr (assoc_obj p, i)" "pending i = pending (ri s)"
      "slab_get (multi D) (get_multishot i) = (slab_get (multi D) (get_multishot (ri s)))
        (?k := if ?more then Some e'
           else if ms_dropped e then None else Some (e'\<lparr>ms_finished := True\<rparr>))"
      "get_oneshot i = get_oneshot (ri s)"
    using handle_cqe_multi [OF p(1,2) e(1)] unfolding e'_def by blast
  define fl' where "fl' = (if ?more then Some Multi else None)"
  define s' where "s' = s\<lparr>ri := i, inflight := (inflight s)(cqe_user_data c := fl')\<rparr>"
  have po: "pend_of D s' = (pend_of D s)(cqe_user_data c := pend_of D s (cqe_user_data c))"
    using i(2) by (simp add: pend_of_def s'_def fun_eq_iff)
  have pp: "pend_of D s (cqe_user_data c) = Some p" using p(1) by (simp add: pend_of_def)
  have inf: "inflight s' = (inflight s)(cqe_user_data c := fl')" by (simp add: s'_def)
  have phase': "multishot_phase (multi D) (get_multishot i) = ?ph(?k :=
      if ?more then ?ph ?k else if ms_dropped e then Free else Done)"
    using ms.phase_cong [OF i(3)] e by (auto simp: e'_def)
  have fl2: "flight D Multi s' = (flight D Multi s)(cqe_user_data c := if ?more then Some ?k else None)"
    using flight_upd [OF inf po, of Multi] pp by (simp add: fl'_def)
  have "slots_ok (multishot_phase (multi D) (get_multishot i)) (multi_slots s) (flight D Multi s')"
    unfolding fl2 phase' using slots_complete [OF I(2) p(3)] e(2) I(2) p(3)
    by (auto simp: fun_upd_idem)
  moreover have "flight D Oneshot s' = flight D Oneshot s"
    using flight_upd [OF inf po, of Oneshot] fl by (simp add: fl'_def flight_def fun_upd_idem)
  moreover have "pend_ok D s'"
    using pp p(2) by (intro pend_ok_upd [OF I(4) inf po]) (auto simp: fl'_def split: if_splits)
  moreover have "multishot_ok (multi D) (get_multishot i)"
    using e(3) by (intro ms.ok_upd [OF I(3) i(3)]) (auto simp: e'_def split: if_splits)
  ultimately have "rinv D s'"
    using I i(4) by (simp add: rinv_def s'_def)
  moreover have "inflight s' = (if ?more then inflight s else (inflight s)(cqe_user_data c := None))"
    using fl by (simp add: inf fl'_def fun_upd_idem)
  ultimately show ?thesis using i(1) fl by (auto simp: complete_cqe_def s'_def)
qed

subsection \<open>Polls\<close>

lemma poll_oneshot_new:
  assumes "ones s h = Some OS_New"
  shows "poll_oneshot D h e ob s = rbind (submit_io D (ri s) e ob Oneshot) (\<lambda>((_, k), i).
    Inr (Poll_Pending, s\<lparr>ri := i, ones := (ones s)(h \<mapsto> OS_Submitted k),
      inflight := (inflight s)(next_ud D s \<mapsto> Oneshot)\<rparr>))"
  by (cases "submit_io D (ri s) e ob Oneshot")
     (auto simp: poll_oneshot_def oneshot_submit_or_get_result_def poll_of_state_def assms)

lemma poll_oneshot_pending:
  assumes "ones s h = Some (OS_Submitted k)" "slab_get (one D) (get_oneshot (ri s)) k = Some RS_Pending"
  shows "poll_oneshot D h e ob s = Inr (Poll_Pending, s)"
  using assms os.get_pending [OF assms(2)]
  by (simp add: poll_oneshot_def oneshot_submit_or_get_result_def poll_of_state_def fun_upd_idem)

lemma poll_oneshot_ready:
  assumes "ones s h = Some (OS_Submitted k)" "slab_get (one D) (get_oneshot (ri s)) k = Some (RS_Set r)"
  shows "\<exists>st. poll_oneshot D h e ob s = Inr (Poll_Ready (reactor_value_to_result r),
      s\<lparr>ri := set_oneshot st (ri s), ones := (ones s)(h \<mapsto> OS_Finished r)\<rparr>)
    \<and> slab_get (one D) st = (slab_get (one D) (get_oneshot (ri s)))(k := None)"
proof -
  obtain st where st: "oneshot_get_result (one D) (get_oneshot (ri s)) k = Inr (Some r, st)"
      "slab_get (one D) st = (slab_get (one D) (get_oneshot (ri s)))(k := None)"
    using os.get_set_result [OF assms(2)] by blast
  then have "poll_oneshot D h e ob s = Inr (Poll_Ready (reactor_value_to_result r),
      s\<lparr>ri := set_oneshot st (ri s), ones := (ones s)(h \<mapsto> OS_Finished r)\<rparr>)"
    using assms by (simp add: poll_oneshot_def oneshot_submit_or_get_result_def poll_of_state_def)
  with st(2) show ?thesis by blast
qed

lemma oneshot_store_inv:
  assumes inv: "rinv D s" and sl: "one_slots s h = Some k"
    and s': "s' = s\<lparr>ri := set_oneshot st (ri s), ones := (ones s)(h := x)\<rparr>" "Option.bind x os_slot = None"
    and st: "slab_get (one D) st = (slab_get (one D) (get_oneshot (ri s)))(k := y)"
    and y: "oneshot_phase (one D) (get_oneshot (ri s)) k = Live \<and> y = Some RS_Dropped
      \<or> oneshot_phase (one D) (get_oneshot (ri s)) k = Done \<and> y = None"
  shows "rinv D s'"
proof -
  note I = rinvD [OF inv]
  have "slots_ok (oneshot_phase (one D) st) ((one_slots s)(h := None)) (flight D Oneshot s)"
    using slots_release [OF I(1) sl] y os.phase_cong [OF st] by auto
  moreover have "one_slots s' = (one_slots s)(h := None)"
    using one_slots_upd [of s' s h x] s' by simp
  moreover have "flight D knd s' = flight D knd s" "pend_ok D s'" for knd
    using pend_cong [of s' s D] I(4) by (simp_all add: s')
  ultimately show ?thesis using I by (simp add: rinv_def s')
qed

lemma poll_oneshot_inv:
  assumes inv: "rinv D s" and st: "ones s h = Some st" and poll: "poll_oneshot D h e ob s = Inr (p, s')"
  shows "rinv D s'"
proof (cases st)
  case OS_New
  with poll st obtain ud k i where "submit_io D (ri s) e ob Oneshot = Inr ((ud, k), i)"
      "s' = s\<lparr>ri := i, ones := (ones s)(h \<mapsto> OS_Submitted k), inflight := (inflight s)(next_ud D s \<mapsto> Oneshot)\<rparr>"
    by (auto simp: poll_oneshot_new rbind_eq_Inr)
  with OS_New st show ?thesis by (intro submit_oneshot_inv [OF inv]) (simp_all add: one_slots_def)
next
  case (OS_Submitted k)
  with st have sl: "one_slots s h = Some k" by (simp add: one_slots_def)
  from slots_handle_phase [OF rinvD(1) [OF inv] sl] show ?thesis
  proof
    assume "oneshot_phase (one D) (get_oneshot (ri s)) k = Live"
    with poll_oneshot_pending poll inv st OS_Submitted show ?thesis by (simp add: os.phase_iffs)
  next
    assume ph: "oneshot_phase (one D) (get_oneshot (ri s)) k = Done"
    then obtain r where "slab_get (one D) (get_oneshot (ri s)) k = Some (RS_Set r)"
      by (auto simp: os.phase_iffs)
    from poll_oneshot_ready [OF _ this, of h e ob] st OS_Submitted obtain st' where
        "poll_oneshot D h e ob s = Inr (Poll_Ready (reactor_value_to_result r),
           s\<lparr>ri := set_oneshot st' (ri s), ones := (ones s)(h \<mapsto> OS_Finished r)\<rparr>)"
      and g: "slab_get (one D) st' = (slab_get (one D) (get_oneshot (ri s)))(k := None)"
      by blast
    with poll have "s' = s\<lparr>ri := set_oneshot st' (ri s), ones := (ones s)(h \<mapsto> OS_Finished r)\<rparr>" by simp
    with ph g show ?thesis by (intro oneshot_store_inv [OF inv sl]) auto
  qed
next
  case (OS_Finished r)
  with st poll have "s' = s" by (auto simp: poll_oneshot_def oneshot_submit_or_get_result_def fun_upd_idem)
  with inv show ?thesis by simp
qed

lemma drop_oneshot_inv:
  assumes inv: "rinv D s" and st: "ones s h = Some st"
  shows "\<exists>s'. rstep D (DropOneshot h) s = Inr s' \<and> rinv D s'"
proof (cases "os_slot st")
  case None
  then have "rstep D (DropOneshot h) s = Inr (s\<lparr>ones := (ones s)(h := None)\<rparr>)"
    using st by (cases st) (simp_all add: oneshot_io_drop_def)
  moreover have "one_slots (s\<lparr>ones := (ones s)(h := None)\<rparr>) = one_slots s"
    using None st by (auto simp: one_slots_def fun_eq_iff)
  then have "rinv D (s\<lparr>ones := (ones s)(h := None)\<rparr>)" by (intro rinv_cong [OF inv]) simp_all
  ultimately show ?thesis by blast
next
  case (Some k)
  then have stk: "st = OS_Submitted k" by (cases st) auto
  with st have sl: "one_slots s h = Some k" by (simp add: one_slots_def)
  let ?ph = "oneshot_phase (one D) (get_oneshot (ri s)) k"
  from slots_handle_phase [OF rinvD(1) [OF inv] sl] obtain st' y where
      "oneshot_drop_result (one D) (get_oneshot (ri s)) k = Inr st'"
      "slab_get (one D) st' = (slab_get (one D) (get_oneshot (ri s)))(k := y)"
      "?ph = Live \<and> y = Some RS_Dropped \<or> ?ph = Done \<and> y = None"
    using os.drop_pending os.drop_set os.phase_iffs by metis
  then have "rstep D (DropOneshot h) s = Inr (s\<lparr>ri := set_oneshot st' (ri s), ones := (ones s)(h := None)\<rparr>)"
      "rinv D (s\<lparr>ri := set_oneshot st' (ri s), ones := (ones s)(h := None)\<rparr>)"
    using st stk oneshot_store_inv [OF inv sl, where st = st' and x = None and y = y] by (simp_all add: oneshot_io_drop_def)
  then show ?thesis by blast
qed

lemma poll_multishot_new:
  assumes "multis s h = Some MS_New"
  shows "poll_multishot D h e ob s = rbind (submit_io D (ri s) e ob Multi) (\<lambda>((ud, k), i).
    Inr (Poll_Pending, s\<lparr>ri := i, multis := (multis s)(h \<mapsto> MS_Submitted k ud),
      inflight := (inflight s)(next_ud D s \<mapsto> Multi)\<rparr>))"
  by (cases "submit_io D (ri s) e ob Multi")
     (auto simp: poll_multishot_def multishot_submit_or_get_result_def assms)

text \<open>A poll of a submitted multishot handle takes the oldest buffered result; with none left it
  reports the end of the stream if the operation has finished, and waits otherwise.\<close>

lemma poll_multishot_submitted:
  assumes h: "multis s h = Some (MS_Submitted k ud)"
    and e: "slab_get (multi D) (get_multishot (ri s)) k = Some e"
  shows "\<exists>st b. poll_multishot D h en ob s = Inr
      (case rb_to_vec (rb D) (ms_results e) of
         v # _ \<Rightarrow> Poll_Ready (Some (reactor_value_to_result v))
       | [] \<Rightarrow> if ms_finished e then Poll_Ready None else Poll_Pending,
       s\<lparr>ri := set_multishot st (ri s)\<rparr>)
    \<and> slab_get (multi D) st = (slab_get (multi D) (get_multishot (ri s)))(k \<mapsto> e\<lparr>ms_results := b\<rparr>)
    \<and> rb_to_vec (rb D) b = tl (rb_to_vec (rb D) (ms_results e))"
proof -
  obtain v b where deq: "rb_dequeue (rb D) (ms_results e) = (v, b)"
      "v = (case rb_to_vec (rb D) (ms_results e) of [] \<Rightarrow> None | x # _ \<Rightarrow> Some x)"
      "rb_to_vec (rb D) b = tl (rb_to_vec (rb D) (ms_results e))"
    using ms.rb.dequeue_empty ms.rb.dequeue_cons
    by (cases "rb_to_vec (rb D) (ms_results e)") fastforce+
  let ?st = "slab_set (multi D) (get_multishot (ri s)) k (e\<lparr>ms_results := b\<rparr>)"
  have "poll_multishot D h en ob s = Inr
      (case rb_to_vec (rb D) (ms_results e) of
         v # _ \<Rightarrow> Poll_Ready (Some (reactor_value_to_result v))
       | [] \<Rightarrow> if ms_finished e then Poll_Ready None else Poll_Pending,
       s\<lparr>ri := set_multishot ?st (ri s)\<rparr>)"
    using h e deq(1,2) by (simp add: poll_multishot_def multishot_submit_or_get_result_def
        multishot_pop_result_def fun_upd_idem split: list.splits)
  with ms.get_set [OF e] deq(3) show ?thesis by blast
qed

lemma multishot_store_inv:
  assumes inv: "rinv D s" and s': "s' = s\<lparr>ri := (ri s)\<lparr>results := rs, uring := u\<rparr>, multis := m\<rparr>"
    and rs: "rs = (results (ri s))\<lparr>rr_multishot := st\<rparr>"
    and ok: "multishot_ok (multi D) st"
    and sl: "slots_ok (multishot_phase (multi D) st) (multi_slots s') (flight D Multi s)"
  shows "rinv D s'"
proof -
  have "flight D knd s' = flight D knd s" "pend_ok D s' = pend_ok D s" for knd
    using pend_cong [of s' s D] by (simp_all add: s')
  moreover have "one_slots s' = one_slots s" by (simp add: s')
  ultimately show ?thesis
    using rinvD [OF inv] ok sl by (simp add: rinv_def s' rs)
qed

lemma multi_handle_entry:
  assumes "rinv D s" "multis s h = Some (MS_Submitted k ud)"
  obtains e where "slab_get (multi D) (get_multishot (ri s)) k = Some e" "\<not> ms_dropped e"
    "multi_slots s h = Some k"
    "multishot_phase (multi D) (get_multishot (ri s)) k = (if ms_finished e then Done else Live)"
proof -
  note I = rinvD [OF assms(1)]
  have sl: "multi_slots s h = Some k" using assms by (simp add: multi_slots_def)
  from slots_handle_phase [OF I(2) sl] that [OF _ _ sl] show thesis
    using ms.phase_LiveD [of "get_multishot (ri s)" k] ms.phase_DoneD [OF I(3), of k] by fastforce
qed

lemma poll_multishot_inv:
  assumes inv: "rinv D s" and st: "multis s h = Some st" and poll: "poll_multishot D h en ob s = Inr (p, s')"
  shows "rinv D s'"
proof (cases st)
  case MS_New
  with poll st obtain ud k i where "submit_io D (ri s) en ob Multi = Inr ((ud, k), i)"
      "s' = s\<lparr>ri := i, multis := (multis s)(h \<mapsto> MS_Submitted k ud), inflight := (inflight s)(next_ud D s \<mapsto> Multi)\<rparr>"
    by (auto simp: poll_multishot_new rbind_eq_Inr)
  with MS_New st show ?thesis by (intro submit_multishot_inv [OF inv]) (simp_all add: multi_slots_def)
next
  case (MS_Submitted k ud)
  note I = rinvD [OF inv]
  from MS_Submitted st have h: "multis s h = Some (MS_Submitted k ud)" by simp
  obtain e where e: "slab_get (multi D) (get_multishot (ri s)) k = Some e" "\<not> ms_dropped e"
    by (rule multi_handle_entry [OF inv h])
  from poll_multishot_submitted [OF h e(1), of en ob] poll obtain st' b where
      s': "s' = s\<lparr>ri := set_multishot st' (ri s)\<rparr>"
    and st': "slab_get (multi D) st' = (slab_get (multi D) (get_multishot (ri s)))(k \<mapsto> e\<lparr>ms_results := b\<rparr>)"
    by auto
  have "multishot_phase (multi D) st' = multishot_phase (multi D) (get_multishot (ri s))"
    using ms.phase_cong [OF st'] e by (auto simp: multishot_phase_def fun_eq_iff)
  moreover have "multishot_ok (multi D) st'" using e(2) by (intro ms.ok_upd [OF I(3) st']) auto
  ultimately show ?thesis
    using I(2) by (intro multishot_store_inv [OF inv, where st = st' and u = "uring (ri s)" and m = "multis s"])
       (simp_all add: s')
qed

text \<open>Dropping a submitted multishot handle panics exactly when the ring refuses the
  cancellation; otherwise the slot is released or, if the operation has finished, freed.\<close>

lemma drop_multishot_inv:
  assumes inv: "rinv D s" and st: "multis s h = Some (MS_Submitted k ud)"
    and c: "uring_register_sync_cancel (ur D) (uring (ri s)) ud = (None, u)"
  shows "\<exists>s'. rstep D (DropMultishot h) s = Inr s' \<and> rinv D s'"
proof -
  note I = rinvD [OF inv]
  obtain e where e: "slab_get (multi D) (get_multishot (ri s)) k = Some e" "multi_slots s h = Some k"
      "multishot_phase (multi D) (get_multishot (ri s)) k = (if ms_finished e then Done else Live)"
    by (rule multi_handle_entry [OF inv st])
  obtain st' where st': "multishot_drop_result (multi D) (get_multishot (ri s)) k = Inr st'"
      "multishot_phase (multi D) st' = (multishot_phase (multi D) (get_multishot (ri s)))
         (k := if ms_finished e then Free else Released)" "multishot_ok (multi D) st'"
    using ms.lc.release_live [OF I(3), of k] ms.lc.release_done [OF I(3), of k] e(3)
    by (cases "ms_finished e") auto
  let ?s = "s\<lparr>ri := (ri s)\<lparr>results := (results (ri s))\<lparr>rr_multishot := st'\<rparr>, uring := u\<rparr>,
    multis := (multis s)(h := None)\<rparr>"
  have "multi_slots ?s = (multi_slots s)(h := None)" using multi_slots_upd [of ?s s h None] by simp
  moreover have "slots_ok (multishot_phase (multi D) st') ((multi_slots s)(h := None)) (flight D Multi s)"
    unfolding st'(2) using slots_release [OF I(2) e(2)] e(3) by simp
  ultimately have "rinv D ?s" using st'(3) by (intro multishot_store_inv [OF inv refl refl]) simp_all
  moreover have "rstep D (DropMultishot h) s = Inr ?s"
    using st c st'(1) by (simp add: multishot_io_drop_def)
  ultimately show ?thesis by blast
qed

lemma drop_multishot_new_inv:
  assumes inv: "rinv D s" and st: "multis s h = Some MS_New"
  shows "\<exists>s'. rstep D (DropMultishot h) s = Inr s' \<and> rinv D s'"
proof -
  have "multi_slots (s\<lparr>multis := (multis s)(h := None)\<rparr>) = multi_slots s"
    using st by (auto simp: multi_slots_def fun_eq_iff)
  then have "rinv D (s\<lparr>multis := (multis s)(h := None)\<rparr>)" by (intro rinv_cong [OF inv]) simp_all
  then show ?thesis using st by (simp add: multishot_io_drop_def)
qed

subsection \<open>Every event keeps the invariant\<close>

lemma rinit_inv: "rinit D = Inr s \<Longrightarrow> rinv D s"
  by (auto simp: rinit_def inner_new_def rbind_eq_Inr rinv_def ring_results_new_def oneshot_new_def
      multishot_new_def os.get_new ms.get_new pd.get_new oneshot_phase_def [abs_def]
      multishot_phase_def [abs_def] one_slots_def [abs_def] multi_slots_def [abs_def]
      flight_def [abs_def] multishot_ok_def pend_ok_def pend_of_def slots_ok_empty split: option.splits)

lemma new_handle_inv:
  assumes "rinv D s"
  shows "ones s h = None \<Longrightarrow> rinv D (s\<lparr>ones := (ones s)(h \<mapsto> OS_New)\<rparr>)"
    and "multis s h = None \<Longrightarrow> rinv D (s\<lparr>multis := (multis s)(h \<mapsto> MS_New)\<rparr>)"
  by (rule rinv_cong [OF assms], auto simp: one_slots_def multi_slots_def fun_eq_iff)+

lemma rstep_inv:
  assumes inv: "rinv D s" and al: "allowed ev s" and step: "rstep D ev s = Inr s'"
  shows "rinv D s'"
proof (cases ev)
  case (NewOneshot h)
  with inv al step show ?thesis using new_handle_inv(1) by (auto simp: oneshot_io_new_def)
next
  case (NewMultishot h)
  with inv al step show ?thesis using new_handle_inv(2) by (auto simp: multishot_io_new_def)
next
  case (PollOneshot h e ob)
  with al step show ?thesis using poll_oneshot_inv [OF inv] by (auto simp: rbind_eq_Inr)
next
  case (PollMultishot h e ob)
  with al step show ?thesis using poll_multishot_inv [OF inv] by (auto simp: rbind_eq_Inr)
next
  case (DropOneshot h)
  with al step show ?thesis using drop_oneshot_inv [OF inv] by fastforce
next
  case (DropMultishot h)
  with al obtain st where st: "multis s h = Some st" by auto
  show ?thesis
  proof (cases st)
    case MS_New
    with st step DropMultishot show ?thesis using drop_multishot_new_inv [OF inv] by fastforce
  next
    case (MS_Submitted k ud)
    with st step DropMultishot obtain u where
      "uring_register_sync_cancel (ur D) (uring (ri s)) ud = (None, u)"
      by (cases "uring_register_sync_cancel (ur D) (uring (ri s)) ud")
         (auto simp: multishot_io_drop_def rbind_eq_Inr split: option.splits)
    with st MS_Submitted step DropMultishot show ?thesis using drop_multishot_inv [OF inv] by fastforce
  qed
next
  case (Complete c)
  with al obtain knd where "inflight s (cqe_user_data c) = Some knd" by auto
  with Complete step show ?thesis
    using complete_oneshot_inv [OF inv, of c] complete_multi_inv [OF inv, of c]
    by (cases knd) (auto simp: rbind_eq_Inr)
next
  case (RingMoves u)
  with step show ?thesis by (auto intro!: rinv_cong [OF inv])
qed

lemma reachable_inv: "reachable D s \<Longrightarrow> rinv D s"
  by (induction rule: reachable.induct) (auto intro: rinit_inv rstep_inv)

end

end
