(* ===== verification/ScriptRing.thy ===== *)
theory ScriptRing
  imports ReactorSys
begin

text \<open>
  A scripted ring, for evaluating the model on concrete inputs: every wait hands out the next
  batch of completions of its script and blocks for ever when the script is exhausted; a
  cancellation answers with the error the script gives for it. \<open>script_deps\<close> puts it
  together with the vector slab and the list ring buffer, and satisfies the contract
  \<open>reactor_deps\<close>.
\<close>

record script_ring =
  sr_sq :: "Entry list"
  sr_ready :: "Cqe list"
  sr_batches :: "Cqe list list"
  sr_cancel :: "u64 \<Rightarrow> i32 option"

definition script_uring :: "Cqe list list \<Rightarrow> (u64 \<Rightarrow> i32 option) \<Rightarrow> script_ring uring_api" where
  "script_uring script cancels = \<lparr>
     uring_new = (\<lambda>_. Some \<lparr>sr_sq = [], sr_ready = [], sr_batches = script, sr_cancel = cancels\<rparr>),
     uring_push = (\<lambda>u e. if length (sr_sq u) < 1024 then Some (u\<lparr>sr_sq := sr_sq u @ [e]\<rparr>) else None),
     uring_submit_and_wait = (\<lambda>u n. case sr_batches u of
        [] \<Rightarrow> None
      | b # bs \<Rightarrow> Some (Inr (u\<lparr>sr_sq := [], sr_ready := b, sr_batches := bs\<rparr>))),
     uring_completion = (\<lambda>u. (sr_ready u, u\<lparr>sr_ready := []\<rparr>)),
     uring_register_sync_cancel = (\<lambda>u ud. (sr_cancel u ud, u)),
     cqueue_more = (\<lambda>flags. bit flags 1) \<rparr>"

type_synonym 't script_deps = "(script_ring, 't PendingIo option list, ResultState option list,
  i32 list MultishotResultState option list, i32 list, 't) deps"

definition script_deps :: "Cqe list list \<Rightarrow> (u64 \<Rightarrow> i32 option) \<Rightarrow> 't script_deps" where
  "script_deps script cancels = \<lparr>ur = script_uring script cancels, pend = vec_slab,
     one = vec_slab, multi = vec_slab, rb = list_ringbuf\<rparr>"

lemma script_deps_sel [simp]:
  "ur (script_deps b c) = script_uring b c" "pend (script_deps b c) = vec_slab"
  "one (script_deps b c) = vec_slab" "multi (script_deps b c) = vec_slab"
  "rb (script_deps b c) = list_ringbuf"
  by (simp_all add: script_deps_def)

interpretation scr: reactor_deps "script_deps b c"
  by intro_locales (simp_all add: vec.slab_laws_axioms lrb.ringbuf_laws_axioms)

end
