(* ===== verification/ReactorThms.thy ===== *)
theory ReactorThms
  imports ScriptRing
begin

text \<open>
  What the reactor guarantees its clients, over all interleavings of \<open>ReactorSys\<close>:
  which panics can happen, that the result of an operation reaches the handle that
  submitted it and the object it was submitted with, that multishot results keep their
  order, and when slots are given back. The last group shows three defects of the code.
\<close>

subsection \<open>Traces\<close>

inductive rsteps :: "('u, 'ps, 'os, 'ms, 'rb, 't) deps \<Rightarrow> ('u, 'ps, 'os, 'ms) rsys \<Rightarrow>
    ('u, 't) revent list \<Rightarrow> ('u, 'ps, 'os, 'ms) rsys \<Rightarrow> bool" for D where
  rsteps_nil: "rsteps D s [] s"
| rsteps_cons: "allowed ev s \<Longrightarrow> rstep D ev s = Inr s' \<Longrightarrow> rsteps D s' evs s'' \<Longrightarrow> rsteps D s (ev # evs) s''"

inductive_simps rsteps_simps: "rsteps D s [] s'" "rsteps D s (ev # evs) s'"

text \<open>The executable form: a run that stops where an event is not allowed.\<close>

fun rrun :: "('u, 'ps, 'os, 'ms, 'rb, 't) deps \<Rightarrow> ('u, 't) revent list \<Rightarrow>
    ('u, 'ps, 'os, 'ms) rsys \<Rightarrow> ('u, 'ps, 'os, 'ms) rsys rs" where
  "rrun D [] s = Inr s"
| "rrun D (ev # evs) s = (if allowed ev s then rbind (rstep D ev s) (rrun D evs)
     else Inl (PanicMsg ''event not allowed''))"

definition rrun_init :: "('u, 'ps, 'os, 'ms, 'rb, 't) deps \<Rightarrow> ('u, 't) revent list \<Rightarrow>
    ('u, 'ps, 'os, 'ms) rsys rs" where
  "rrun_init D evs = rbind (rinit D) (rrun D evs)"

lemma rrun_rsteps: "rrun D evs s = Inr s' \<Longrightarrow> rsteps D s evs s'"
  by (induction evs arbitrary: s) (auto simp: rsteps_simps rbind_eq_Inr split: if_splits)

lemma rsteps_reachable: "rsteps D s evs s' \<Longrightarrow> reachable D s \<Longrightarrow> reachable D s'"
  by (induction rule: rsteps.induct) (auto intro: reachable.step)

lemma rrun_init_reachable: "rrun_init D evs = Inr s \<Longrightarrow> reachable D s"
  by (auto simp: rrun_init_def rbind_eq_Inr intro: reachable.start rsteps_reachable rrun_rsteps)

text \<open>Events by which the owner of a oneshot handle acts on it.\<close>

fun uses_oneshot :: "nat \<Rightarrow> ('u, 't) revent \<Rightarrow> bool" where
  "uses_oneshot h (PollOneshot h' _ _) = (h = h')"
| "uses_oneshot h (DropOneshot h') = (h = h')"
| "uses_oneshot h (NewOneshot h') = (h = h')"
| "uses_oneshot h _ = False"

fun completes :: "u64 \<Rightarrow> ('u, 't) revent \<Rightarrow> bool" where
  "completes ud (Complete c) = (cqe_user_data c = ud)"
| "completes ud _ = False"

text \<open>Several completions, and several polls of one multishot handle, one after the other.\<close>

fun complete_all :: "('u, 'ps, 'os, 'ms, 'rb, 't) deps \<Rightarrow> Cqe list \<Rightarrow>
    ('u, 'ps, 'os, 'ms) rsys \<Rightarrow> ('u, 'ps, 'os, 'ms) rsys rs" where
  "complete_all D [] s = Inr s"
| "complete_all D (c # cs) s = rbind (complete_cqe D c s) (\<lambda>(_, s'). complete_all D cs s')"

fun poll_times :: "('u, 'ps, 'os, 'ms, 'rb, 't) deps \<Rightarrow> nat \<Rightarrow> Entry \<Rightarrow> 't \<Rightarrow> nat \<Rightarrow>
    ('u, 'ps, 'os, 'ms) rsys \<Rightarrow> (i32 io_result option Poll list \<times> ('u, 'ps, 'os, 'ms) rsys) rs" where
  "poll_times D h e ob 0 s = Inr ([], s)"
| "poll_times D h e ob (Suc n) s = rbind (poll_multishot D h e ob s) (\<lambda>(p, s').
     rbind (poll_times D h e ob n s') (\<lambda>(ps, s''). Inr (p # ps, s'')))"

definition stream_item :: "i32 \<Rightarrow> i32 io_result option Poll" where
  "stream_item v = Poll_Ready (Some (reactor_value_to_result v))"

text \<open>The polls of one handle over its life, each at whatever state the ring is in by then.\<close>

fun oneshot_polls :: "('u, 'ps, 'os, 'ms, 'rb, 't) deps \<Rightarrow> ('w, 't) closure \<Rightarrow>
    ('u, 'ps, 'os, 'ms) inner list \<Rightarrow> OneshotIoState \<Rightarrow> 'w \<Rightarrow> (OneshotIoState \<times> 'w) rs" where
  "oneshot_polls D f [] st w = Inr (st, w)"
| "oneshot_polls D f (i # is) st w =
     rbind (oneshot_submit_or_get_result D f st i w) (\<lambda>(_, st', _, w'). oneshot_polls D f is st' w')"

fun multishot_polls :: "('u, 'ps, 'os, 'ms, 'rb, 't) deps \<Rightarrow> ('w, 't) closure \<Rightarrow>
    ('u, 'ps, 'os, 'ms) inner list \<Rightarrow> MultishotIoState \<Rightarrow> 'w \<Rightarrow> (MultishotIoState \<times> 'w) rs" where
  "multishot_polls D f [] st w = Inr (st, w)"
| "multishot_polls D f (i # is) st w =
     rbind (multishot_submit_or_get_result D f st i w) (\<lambda>(_, st', _, w'). multishot_polls D f is st' w')"

lemma oneshot_poll_state:
  assumes "oneshot_submit_or_get_result D f st i w = Inr (p, st', i', w')"
  shows "st' \<noteq> OS_New" "st \<noteq> OS_New \<Longrightarrow> w' = w"
    "st = OS_New \<Longrightarrow> p = Poll_Pending \<and> (\<exists>x. f w = Inr (x, w'))"
  using assms by (cases st; fastforce simp: oneshot_submit_or_get_result_def rbind_eq_Inr poll_of_state_def
      split: option.splits)+

lemma multishot_poll_state:
  assumes "multishot_submit_or_get_result D f st i w = Inr (p, st', i', w')"
  shows "st' \<noteq> MS_New" "st \<noteq> MS_New \<Longrightarrow> w' = w"
    "st = MS_New \<Longrightarrow> p = Poll_Pending \<and> (\<exists>x. f w = Inr (x, w'))"
  using assms by (cases st; fastforce simp: multishot_submit_or_get_result_def rbind_eq_Inr)+

lemma oneshot_polls_once:
  "oneshot_polls D f is st w = Inr (st', w') \<Longrightarrow> st \<noteq> OS_New \<Longrightarrow> w' = w"
  by (induction "is" arbitrary: st w) (fastforce simp: rbind_eq_Inr dest: oneshot_poll_state)+

lemma multishot_polls_once:
  "multishot_polls D f is st w = Inr (st', w') \<Longrightarrow> st \<noteq> MS_New \<Longrightarrow> w' = w"
  by (induction "is" arbitrary: st w) (fastforce simp: rbind_eq_Inr dest: multishot_poll_state)+

text \<open>A batch of completions the kernel may deliver: each is for an operation in flight at its turn.\<close>

fun valid_batch :: "('u, 'ps, 'os, 'ms, 'rb, 't) deps \<Rightarrow> Cqe list \<Rightarrow> ('u, 'ps, 'os, 'ms) rsys \<Rightarrow> bool" where
  "valid_batch D [] s = True"
| "valid_batch D (c # cs) s = (inflight s (cqe_user_data c) \<noteq> None
     \<and> (case complete_cqe D c s of Inl _ \<Rightarrow> False | Inr (_, s') \<Rightarrow> valid_batch D cs s'))"

text \<open>The results buffered in a multishot slot, oldest first.\<close>

definition buffered :: "('u, 'ps, 'os, 'ms, 'rb, 't) deps \<Rightarrow> ('u, 'ps, 'os, 'ms) rsys \<Rightarrow> usize \<Rightarrow> i32 list" where
  "buffered D s k = (case slab_get (multi D) (get_multishot (ri s)) k of
     None \<Rightarrow> [] | Some e \<Rightarrow> rb_to_vec (rb D) (ms_results e))"

context reactor_deps
begin

lemma rsteps_inv: "rsteps D s evs s' \<Longrightarrow> rinv D s \<Longrightarrow> rinv D s'"
  by (induction rule: rsteps.induct) (auto dest: rstep_inv)

subsection \<open>The pending table\<close>

lemma submit_pend_of:
  assumes sub: "submit_io D (ri s) e ob knd = Inr ((ud, k), i)" and s': "ri s' = i"
  shows "pend_of D s ud = None" "pend_of D s' = (pend_of D s)(ud \<mapsto> \<lparr>assoc_obj = ob, result_slab_idx = k, kind = knd\<rparr>)"
proof -
  obtain i1 where i1: "create_slot D knd (ri s) = Inr (k, i1)"
    and vac: "slab_get (pend D) (pending i1) (u64_as_usize ud) = None"
    and pd': "slab_get (pend D) (pending i) = (slab_get (pend D) (pending i1))
       (u64_as_usize ud \<mapsto> \<lparr>assoc_obj = ob, result_slab_idx = k, kind = knd\<rparr>)"
    by (rule submit_ioD [OF sub])
  note pi = create_slot_pending [OF i1]
  show "pend_of D s ud = None" using vac by (simp add: pend_of_def pi)
  show "pend_of D s' = (pend_of D s)(ud \<mapsto> \<lparr>assoc_obj = ob, result_slab_idx = k, kind = knd\<rparr>)"
    using pd' by (intro pend_of_upd) (simp add: s' pi)
qed

lemma pend_of_same: "pending (ri s') = pending (ri s) \<Longrightarrow> pend_of D s' = pend_of D s"
  by (simp add: pend_of_def fun_eq_iff)

lemma poll_oneshot_pend:
  assumes "poll_oneshot D h e ob s = Inr (p, s')" "pend_of D s ud = Some x"
  shows "pend_of D s' ud = Some x"
proof (cases "ones s h")
  case (Some st)
  show ?thesis
  proof (cases st)
    case OS_New
    with Some assms(1) obtain ud' k i where "submit_io D (ri s) e ob Oneshot = Inr ((ud', k), i)" "ri s' = i"
      by (auto simp: poll_oneshot_new rbind_eq_Inr)
    from submit_pend_of [OF this] assms(2) show ?thesis by auto
  qed (use Some assms in \<open>auto simp: poll_oneshot_def oneshot_submit_or_get_result_def rbind_eq_Inr pend_of_def\<close>)
qed (use assms in \<open>simp add: poll_oneshot_def\<close>)

lemma poll_multishot_pend:
  assumes "poll_multishot D h e ob s = Inr (p, s')" "pend_of D s ud = Some x"
  shows "pend_of D s' ud = Some x"
proof (cases "multis s h")
  case (Some st)
  show ?thesis
  proof (cases st)
    case MS_New
    with Some assms(1) obtain ud' k i where "submit_io D (ri s) e ob Multi = Inr ((ud', k), i)" "ri s' = i"
      by (auto simp: poll_multishot_new rbind_eq_Inr)
    from submit_pend_of [OF this] assms(2) show ?thesis by auto
  qed (use Some assms in \<open>auto simp: poll_multishot_def multishot_submit_or_get_result_def rbind_eq_Inr pend_of_def\<close>)
qed (use assms in \<open>simp add: poll_multishot_def\<close>)

lemma drop_pend:
  "oneshot_io_drop D st i = Inr i' \<Longrightarrow> pending i' = pending i"
  "multishot_io_drop D st' i = Inr i' \<Longrightarrow> pending i' = pending i"
  by (auto simp: oneshot_io_drop_def multishot_io_drop_def rbind_eq_Inr
      split: OneshotIoState.splits MultishotIoState.splits prod.splits option.splits)

lemma handle_cqe_pend:
  assumes "handle_cqe D c i = Inr (ob, i')"
    and "slab_get (pend D) (pending i) k = Some x" "kind x = Oneshot \<Longrightarrow> k \<noteq> u64_as_usize (cqe_user_data c)"
  shows "slab_get (pend D) (pending i') k = Some x"
proof -
  from assms(1) obtain p where p: "slab_get (pend D) (pending i) (u64_as_usize (cqe_user_data c)) = Some p"
    by (auto simp: handle_cqe_def rbind_eq_Inr unwrap_eq_Inr)
  show ?thesis
  proof (cases "kind p")
    case Oneshot
    with assms(1) p have "remove_rs (pend D) (pending i) (u64_as_usize (cqe_user_data c)) = Inr (pending i')"
      by (auto simp: handle_cqe_def rbind_eq_Inr)
    moreover have "k \<noteq> u64_as_usize (cqe_user_data c)" using assms(2,3) p Oneshot by auto
    ultimately show ?thesis using assms(2) pd.remove_rsD(2) by simp
  next
    case Multi
    with assms(1) p have "pending i' = pending i" by (auto simp: handle_cqe_def rbind_eq_Inr)
    with assms(2) show ?thesis by simp
  qed
qed

text \<open>An entry of the pending table stays until its own oneshot completion is processed; a
  multishot entry stays for ever.\<close>

lemma rstep_pend:
  assumes step: "rstep D ev s = Inr s'" and x: "pend_of D s ud = Some x"
    and nc: "kind x = Oneshot \<Longrightarrow> \<not> completes ud ev"
  shows "pend_of D s' ud = Some x"
proof (cases ev)
  case (Complete c)
  with step obtain ob i where "handle_cqe D c (ri s) = Inr (ob, i)" "ri s' = i"
    by (auto simp: complete_cqe_def rbind_eq_Inr)
  moreover have "kind x = Oneshot \<Longrightarrow> u64_as_usize ud \<noteq> u64_as_usize (cqe_user_data c)"
    using nc Complete by auto
  ultimately show ?thesis using x handle_cqe_pend unfolding pend_of_def by metis
qed (use step x drop_pend in \<open>auto simp: rbind_eq_Inr pend_of_def poll_oneshot_pend poll_multishot_pend
       split: option.splits dest: poll_oneshot_pend [unfolded pend_of_def] poll_multishot_pend [unfolded pend_of_def]\<close>)

lemma rsteps_pend:
  assumes "rsteps D s evs s'" "pend_of D s ud = Some x" "kind x = Oneshot \<Longrightarrow> \<forall>ev\<in>set evs. \<not> completes ud ev"
  shows "pend_of D s' ud = Some x"
  using assms by (induction rule: rsteps.induct) (auto dest: rstep_pend)

subsection \<open>The slot of a oneshot handle\<close>

lemma submit_oneshot_store:
  assumes "submit_io D i e ob knd = Inr ((ud, k'), i')" "slab_get (one D) (get_oneshot i) k \<noteq> None"
  shows "slab_get (one D) (get_oneshot i') k = slab_get (one D) (get_oneshot i) k"
proof -
  obtain i1 where i1: "create_slot D knd i = Inr (k', i1)" "results i' = results i1"
    by (rule submit_ioD [OF assms(1)])
  show ?thesis
  proof (cases knd)
    case Oneshot
    with i1 obtain st where "oneshot_create_slot (one D) (get_oneshot i) = Inr (k', st)" "i1 = set_oneshot st i"
      by (auto elim: create_slot_oneshotD)
    with os.create_slotD [OF this(1)] i1(2) assms(2) show ?thesis by auto
  next
    case Multi
    with i1 show ?thesis by (auto elim!: create_slot_multiD)
  qed
qed

lemma poll_oneshot_store:
  assumes inv: "rinv D s" and poll: "poll_oneshot D h e ob s = Inr (p, s')"
    and k: "slab_get (one D) (get_oneshot (ri s)) k \<noteq> None" "one_slots s h \<noteq> Some k"
  shows "slab_get (one D) (get_oneshot (ri s')) k = slab_get (one D) (get_oneshot (ri s)) k"
proof (cases "ones s h")
  case (Some st)
  show ?thesis
  proof (cases st)
    case OS_New
    with Some poll obtain ud k' i where "submit_io D (ri s) e ob Oneshot = Inr ((ud, k'), i)" "ri s' = i"
      by (auto simp: poll_oneshot_new rbind_eq_Inr)
    with submit_oneshot_store k(1) show ?thesis by simp
  next
    case (OS_Submitted k')
    with Some have sl: "one_slots s h = Some k'" by (simp add: one_slots_def)
    from slots_handle_phase [OF rinvD(1) [OF inv] sl] obtain x where
      x: "slab_get (one D) (get_oneshot (ri s)) k' = Some x" "x = RS_Pending \<or> (\<exists>r. x = RS_Set r)"
      by (auto simp: os.phase_iffs)
    from x(2) show ?thesis
    proof (elim disjE exE)
      assume "x = RS_Pending"
      with poll_oneshot_pending Some OS_Submitted x(1) poll show ?thesis by simp
    next
      fix r assume "x = RS_Set r"
      with poll_oneshot_ready [of s h k' r e ob] Some OS_Submitted x(1) poll sl k(2) show ?thesis by auto
    qed
  qed (use Some poll in \<open>auto simp: poll_oneshot_def oneshot_submit_or_get_result_def\<close>)
qed (use poll in \<open>simp add: poll_oneshot_def\<close>)

lemma poll_multishot_store:
  assumes poll: "poll_multishot D h e ob s = Inr (p, s')" and k: "slab_get (one D) (get_oneshot (ri s)) k \<noteq> None"
  shows "slab_get (one D) (get_oneshot (ri s')) k = slab_get (one D) (get_oneshot (ri s)) k"
proof (cases "multis s h")
  case (Some st)
  show ?thesis
  proof (cases st)
    case MS_New
    with Some poll obtain ud k' i where "submit_io D (ri s) e ob Multi = Inr ((ud, k'), i)" "ri s' = i"
      by (auto simp: poll_multishot_new rbind_eq_Inr)
    with submit_oneshot_store k show ?thesis by simp
  qed (use Some poll in \<open>auto simp: poll_multishot_def multishot_submit_or_get_result_def rbind_eq_Inr\<close>)
qed (use poll in \<open>simp add: poll_multishot_def\<close>)

lemma drop_oneshot_store:
  assumes "oneshot_io_drop D st i = Inr i'" "os_slot st \<noteq> Some k"
  shows "slab_get (one D) (get_oneshot i') k = slab_get (one D) (get_oneshot i) k"
proof (cases st)
  case (OS_Submitted k')
  with assms obtain st1 x where st1: "oneshot_drop_result (one D) (get_oneshot i) k' = Inr st1"
      "get_oneshot i' = st1" "slab_get (one D) (get_oneshot i) k' = Some x" "k' \<noteq> k"
    by (auto simp: oneshot_io_drop_def oneshot_drop_result_def rbind_eq_Inr unwrap_eq_Inr)
  then show ?thesis
    using os.get_set [of "get_oneshot i" k' x RS_Dropped] os.remove_rsD(2)
    by (cases x) (auto simp: oneshot_drop_result_def)
qed (use assms in \<open>simp_all add: oneshot_io_drop_def\<close>)

lemma complete_oneshot_store:
  assumes inv: "rinv D s" and al: "allowed (Complete c) s" and step: "complete_cqe D c s = Inr (ob, s')"
    and k: "flight D Oneshot s (cqe_user_data c) \<noteq> Some k"
  shows "slab_get (one D) (get_oneshot (ri s')) k = slab_get (one D) (get_oneshot (ri s)) k"
proof -
  note I = rinvD [OF inv]
  from al obtain knd where fl: "inflight s (cqe_user_data c) = Some knd" by auto
  obtain p where p: "slab_get (pend D) (pending (ri s)) (u64_as_usize (cqe_user_data c)) = Some p"
      "kind p = knd" "flight D knd s (cqe_user_data c) = Some (result_slab_idx p)"
    by (rule flight_entry [OF I(4) fl])
  show ?thesis
  proof (cases knd)
    case Oneshot
    with slots_flight_phase [OF I(1)] p(3) obtain x where
      "slab_get (one D) (get_oneshot (ri s)) (result_slab_idx p) = Some x"
      by (fastforce simp: os.phase_iffs)
    from handle_cqe_oneshot [OF p(1) _ this] p Oneshot step k show ?thesis
      by (auto simp: complete_cqe_def)
  next
    case Multi
    with p step show ?thesis by (auto simp: complete_cqe_def handle_cqe_def rbind_eq_Inr)
  qed
qed

text \<open>An occupied slot changes only by the use of its handle and by the completion of its operation.\<close>

lemma rstep_slot:
  assumes inv: "rinv D s" and al: "allowed ev s" and step: "rstep D ev s = Inr s'"
    and occ: "slab_get (one D) (get_oneshot (ri s)) k \<noteq> None"
    and nu: "\<And>h. one_slots s h = Some k \<Longrightarrow> \<not> uses_oneshot h ev"
    and nc: "\<And>ud. flight D Oneshot s ud = Some k \<Longrightarrow> \<not> completes ud ev"
  shows "slab_get (one D) (get_oneshot (ri s')) k = slab_get (one D) (get_oneshot (ri s)) k"
proof (cases ev)
  case (PollOneshot h e ob)
  then have "one_slots s h \<noteq> Some k" using nu [of h] by auto
  with PollOneshot step show ?thesis using poll_oneshot_store [OF inv _ occ] by (auto simp: rbind_eq_Inr)
next
  case (PollMultishot h e ob)
  with step show ?thesis using poll_multishot_store [OF _ occ] by (auto simp: rbind_eq_Inr)
next
  case (DropOneshot h)
  with step nu [of h] al show ?thesis using drop_oneshot_store by (fastforce simp: rbind_eq_Inr one_slots_def)
next
  case (DropMultishot h)
  with step al show ?thesis
    by (auto simp: rbind_eq_Inr multishot_io_drop_def split: MultishotIoState.splits prod.splits option.splits)
next
  case (Complete c)
  with step nc al show ?thesis
    using complete_oneshot_store [OF inv, of c] by (fastforce simp: rbind_eq_Inr)
qed (use step in auto)

text \<open>What is in the slot of a handle changes only by the handle's own use and by the
  completion of its own operation.\<close>

lemma rstep_mailbox:
  assumes inv: "rinv D s" and al: "allowed ev s" and step: "rstep D ev s = Inr s'"
    and h: "ones s h = Some (OS_Submitted k)" and nu: "\<not> uses_oneshot h ev"
    and nc: "\<And>ud. flight D Oneshot s ud = Some k \<Longrightarrow> \<not> completes ud ev"
  shows "ones s' h = Some (OS_Submitted k)"
    "slab_get (one D) (get_oneshot (ri s')) k = slab_get (one D) (get_oneshot (ri s)) k"
proof -
  have sl: "one_slots s h = Some k" using h by (simp add: one_slots_def)
  have occ: "slab_get (one D) (get_oneshot (ri s)) k \<noteq> None"
    using slots_handle_phase [OF rinvD(1) [OF inv] sl] by (auto simp: os.phase_iffs)
  have other: "one_slots s h' \<noteq> Some k" if "h' \<noteq> h" for h'
    using slots_handle_inj [OF rinvD(1) [OF inv] sl, of h'] that by auto
  show "ones s' h = Some (OS_Submitted k)"
    using step h nu by (cases ev) (auto simp: rbind_eq_Inr poll_oneshot_def poll_multishot_def
      complete_cqe_def split: option.splits)
  show "slab_get (one D) (get_oneshot (ri s')) k = slab_get (one D) (get_oneshot (ri s)) k"
    by (rule rstep_slot [OF inv al step occ]) (metis other nu, rule nc)
qed

subsection \<open>From submission to result\<close>

text \<open>\<open>awaits\<close>: the operation \<open>ud\<close>, submitted through \<open>h\<close> with object \<open>ob\<close>, has not completed.\<close>

definition awaits :: "('u, 'ps, 'os, 'ms) rsys \<Rightarrow> nat \<Rightarrow> u64 \<Rightarrow> 't \<Rightarrow> bool" where
  "awaits s h ud ob \<longleftrightarrow> (\<exists>k. ones s h = Some (OS_Submitted k)
     \<and> slab_get (one D) (get_oneshot (ri s)) k = Some RS_Pending
     \<and> pend_of D s ud = Some \<lparr>assoc_obj = ob, result_slab_idx = k, kind = Oneshot\<rparr>)"

definition has_result :: "('u, 'ps, 'os, 'ms) rsys \<Rightarrow> nat \<Rightarrow> i32 \<Rightarrow> bool" where
  "has_result s h r \<longleftrightarrow> (\<exists>k. ones s h = Some (OS_Submitted k)
     \<and> slab_get (one D) (get_oneshot (ri s)) k = Some (RS_Set r))"

lemma pend_flight: "rinv D s \<Longrightarrow> pend_of D s ud = Some p \<Longrightarrow> kind p = Oneshot \<Longrightarrow>
    inflight s ud = Some Oneshot \<and> flight D Oneshot s ud = Some (result_slab_idx p)"
  by (auto simp: rinv_def pend_ok_def flight_def)

lemma submit_oneshot_pending:
  assumes "submit_io D i e ob Oneshot = Inr ((ud, k), i')"
  shows "slab_get (one D) (get_oneshot i') k = Some RS_Pending"
proof -
  obtain i1 where i1: "create_slot D Oneshot i = Inr (k, i1)" "results i' = results i1"
    by (rule submit_ioD [OF assms])
  obtain st where "oneshot_create_slot (one D) (get_oneshot i) = Inr (k, st)" "i1 = set_oneshot st i"
    by (rule create_slot_oneshotD [OF i1(1)])
  with os.create_slotD(2) [OF this(1)] i1(2) show ?thesis by simp
qed

lemma submit_awaits:
  assumes inv: "rinv D s" and new: "ones s h = Some OS_New"
    and poll: "poll_oneshot D h e ob s = Inr (p, s')"
  shows "p = Poll_Pending \<and> awaits s' h (next_ud D s) ob"
proof -
  from poll new obtain ud k i where sub: "submit_io D (ri s) e ob Oneshot = Inr ((ud, k), i)"
    and s': "s' = s\<lparr>ri := i, ones := (ones s)(h \<mapsto> OS_Submitted k), inflight := (inflight s)(next_ud D s \<mapsto> Oneshot)\<rparr>"
    and p: "p = Poll_Pending"
    by (auto simp: poll_oneshot_new rbind_eq_Inr)
  have "next_ud D s = ud" using submit_pend(1) [OF rinvD(4) [OF inv] sub, of s'] by (simp add: s')
  moreover have "pend_of D s' = (pend_of D s)(ud \<mapsto> \<lparr>assoc_obj = ob, result_slab_idx = k, kind = Oneshot\<rparr>)"
    using submit_pend_of(2) [OF sub, of s'] by (simp add: s')
  moreover have "slab_get (one D) (get_oneshot i) k = Some RS_Pending"
    by (rule submit_oneshot_pending [OF sub])
  ultimately show ?thesis using p by (simp add: awaits_def s')
qed

lemma rstep_awaits:
  assumes inv: "rinv D s" and al: "allowed ev s" and step: "rstep D ev s = Inr s'"
    and aw: "awaits s h ud ob" and nu: "\<not> uses_oneshot h ev" and nc: "\<not> completes ud ev"
  shows "awaits s' h ud ob"
proof -
  from aw obtain k where k: "ones s h = Some (OS_Submitted k)"
      "slab_get (one D) (get_oneshot (ri s)) k = Some RS_Pending"
      "pend_of D s ud = Some \<lparr>assoc_obj = ob, result_slab_idx = k, kind = Oneshot\<rparr>"
    by (auto simp: awaits_def)
  have "flight D Oneshot s ud = Some k" using pend_flight [OF inv k(3)] by simp
  then have "\<not> completes ud' ev" if "flight D Oneshot s ud' = Some k" for ud'
    using slots_flight_inj [OF rinvD(1) [OF inv]] that nc by blast
  with rstep_mailbox [OF inv al step k(1) nu] rstep_pend [OF step k(3)] k(2) nc show ?thesis
    by (auto simp: awaits_def)
qed

lemma rstep_has_result:
  assumes inv: "rinv D s" and al: "allowed ev s" and step: "rstep D ev s = Inr s'"
    and res: "has_result s h r" and nu: "\<not> uses_oneshot h ev"
  shows "has_result s' h r"
proof -
  from res obtain k where k: "ones s h = Some (OS_Submitted k)"
      "slab_get (one D) (get_oneshot (ri s)) k = Some (RS_Set r)"
    by (auto simp: has_result_def)
  have "flight D Oneshot s ud \<noteq> Some k" for ud
    using slots_flight_phase [OF rinvD(1) [OF inv], of ud k] k(2) by (auto simp: os.phase_iffs)
  with rstep_mailbox [OF inv al step k(1) nu] k(2) show ?thesis by (auto simp: has_result_def)
qed

lemma rsteps_awaits:
  "rsteps D s evs s' \<Longrightarrow> rinv D s \<Longrightarrow> awaits s h ud ob \<Longrightarrow>
     \<forall>ev\<in>set evs. \<not> uses_oneshot h ev \<and> \<not> completes ud ev \<Longrightarrow> awaits s' h ud ob"
  by (induction rule: rsteps.induct) (auto dest: rstep_inv rstep_awaits)

lemma rsteps_has_result:
  "rsteps D s evs s' \<Longrightarrow> rinv D s \<Longrightarrow> has_result s h r \<Longrightarrow>
     \<forall>ev\<in>set evs. \<not> uses_oneshot h ev \<Longrightarrow> has_result s' h r"
  by (induction rule: rsteps.induct) (auto dest: rstep_inv rstep_has_result)

lemma complete_awaits:
  assumes inv: "rinv D s" and aw: "awaits s h (cqe_user_data c) ob"
  shows "\<exists>s'. complete_cqe D c s = Inr (ob, s') \<and> rinv D s' \<and> has_result s' h (cqe_result c)"
proof -
  from aw obtain k where k: "ones s h = Some (OS_Submitted k)"
      "slab_get (one D) (get_oneshot (ri s)) k = Some RS_Pending"
      "pend_of D s (cqe_user_data c) = Some \<lparr>assoc_obj = ob, result_slab_idx = k, kind = Oneshot\<rparr>"
    by (auto simp: awaits_def)
  have "inflight s (cqe_user_data c) = Some Oneshot" using pend_flight [OF inv k(3)] by simp
  from complete_oneshot_inv [OF inv this] obtain ob' s' where
    s': "complete_cqe D c s = Inr (ob', s')" "rinv D s'" by blast
  moreover have "ob' = ob \<and> has_result s' h (cqe_result c)"
    using handle_cqe_oneshot [OF k(3) [unfolded pend_of_def]] k(1,2) s'(1)
    by (auto simp: complete_cqe_def has_result_def)
  ultimately show ?thesis by blast
qed

text \<open>\<open>abandoned\<close>: the operation \<open>ud\<close>, submitted with object \<open>ob\<close>, has not completed and its handle has been dropped.\<close>

definition abandoned :: "('u, 'ps, 'os, 'ms) rsys \<Rightarrow> u64 \<Rightarrow> 't \<Rightarrow> usize \<Rightarrow> bool" where
  "abandoned s ud ob k \<longleftrightarrow> slab_get (one D) (get_oneshot (ri s)) k = Some RS_Dropped
     \<and> pend_of D s ud = Some \<lparr>assoc_obj = ob, result_slab_idx = k, kind = Oneshot\<rparr>"

lemma submitted_pending:
  assumes "rinv D s" "ones s h = Some (OS_Submitted k)"
    and "pend_of D s ud = Some \<lparr>assoc_obj = ob, result_slab_idx = k, kind = Oneshot\<rparr>"
  shows "slab_get (one D) (get_oneshot (ri s)) k = Some RS_Pending"
proof -
  have "flight D Oneshot s ud = Some k" "one_slots s h = Some k"
    using pend_flight [OF assms(1,3)] assms(2) by (simp_all add: one_slots_def)
  with slots_flight_phase [OF rinvD(1) [OF assms(1)]] slots_handle_phase [OF rinvD(1) [OF assms(1)]]
  show ?thesis by (fastforce simp: os.phase_iffs)
qed

lemma drop_abandons:
  assumes "ones s h = Some (OS_Submitted k)" "slab_get (one D) (get_oneshot (ri s)) k = Some RS_Pending"
    and "pend_of D s ud = Some \<lparr>assoc_obj = ob, result_slab_idx = k, kind = Oneshot\<rparr>"
  shows "\<exists>s'. rstep D (DropOneshot h) s = Inr s' \<and> uring (ri s') = uring (ri s) \<and> abandoned s' ud ob k"
proof -
  from os.drop_pending [OF assms(2)] obtain st where
    "oneshot_drop_result (one D) (get_oneshot (ri s)) k = Inr st"
    "slab_get (one D) st = (slab_get (one D) (get_oneshot (ri s)))(k \<mapsto> RS_Dropped)" by blast
  with assms(1,3) show ?thesis by (simp add: oneshot_io_drop_def abandoned_def pend_of_def)
qed

lemma rstep_abandoned:
  assumes inv: "rinv D s" and al: "allowed ev s" and step: "rstep D ev s = Inr s'"
    and ab: "abandoned s ud ob k" and nc: "\<not> completes ud ev"
  shows "abandoned s' ud ob k"
proof -
  from ab have k: "slab_get (one D) (get_oneshot (ri s)) k = Some RS_Dropped"
      "pend_of D s ud = Some \<lparr>assoc_obj = ob, result_slab_idx = k, kind = Oneshot\<rparr>" by (simp_all add: abandoned_def)
  have "flight D Oneshot s ud = Some k" using pend_flight [OF inv k(2)] by simp
  then have "\<not> completes ud' ev" if "flight D Oneshot s ud' = Some k" for ud'
    using slots_flight_inj [OF rinvD(1) [OF inv]] that nc by blast
  moreover have "one_slots s h \<noteq> Some k" for h
    using slots_handle_phase [OF rinvD(1) [OF inv], of h k] k(1) by (auto simp: os.phase_iffs)
  ultimately show ?thesis using rstep_slot [OF inv al step, of k] rstep_pend [OF step k(2)] k(1) nc
    by (auto simp: abandoned_def)
qed

lemma rsteps_abandoned:
  "rsteps D s evs s' \<Longrightarrow> rinv D s \<Longrightarrow> abandoned s ud ob k \<Longrightarrow> \<forall>ev\<in>set evs. \<not> completes ud ev \<Longrightarrow> abandoned s' ud ob k"
  by (induction rule: rsteps.induct) (auto dest: rstep_inv rstep_abandoned)

lemma complete_abandoned:
  assumes inv: "rinv D s" and ab: "abandoned s (cqe_user_data c) ob k"
  shows "\<exists>s'. complete_cqe D c s = Inr (ob, s') \<and> slab_get (one D) (get_oneshot (ri s')) k = None
    \<and> pend_of D s' (cqe_user_data c) = None"
proof -
  from ab have k: "slab_get (one D) (get_oneshot (ri s)) k = Some RS_Dropped"
      "pend_of D s (cqe_user_data c) = Some \<lparr>assoc_obj = ob, result_slab_idx = k, kind = Oneshot\<rparr>"
    by (simp_all add: abandoned_def)
  from handle_cqe_oneshot [OF k(2) [unfolded pend_of_def]] k(1) obtain i where "handle_cqe D c (ri s) = Inr (ob, i)"
    "slab_get (pend D) (pending i) (u64_as_usize (cqe_user_data c)) = None" "slab_get (one D) (get_oneshot i) k = None" by auto
  then show ?thesis by (simp add: complete_cqe_def pend_of_def)
qed

lemma poll_has_result: "has_result s h r \<Longrightarrow>
    \<exists>s'. poll_oneshot D h e ob s = Inr (Poll_Ready (reactor_value_to_result r), s')"
  using poll_oneshot_ready by (fastforce simp: has_result_def)

lemma rstep_ones:
  assumes "allowed ev s" "rstep D ev s = Inr s'" "\<not> uses_oneshot h ev" "ones s h = Some st"
  shows "ones s' h = Some st"
  using assms
  by (cases ev) (auto simp: rbind_eq_Inr poll_oneshot_def poll_multishot_def complete_cqe_def
    split: option.splits)

lemma rsteps_ones:
  "rsteps D s evs s' \<Longrightarrow> \<forall>ev\<in>set evs. \<not> uses_oneshot h ev \<Longrightarrow> ones s h = Some st \<Longrightarrow> ones s' h = Some st"
  by (induction rule: rsteps.induct) (auto dest: rstep_ones)

text \<open>The whole way of a result, from the first poll of its handle on.\<close>

lemma delivery:
  assumes inv: "rinv D s" and new: "ones s h = Some OS_New"
    and poll: "poll_oneshot D h e ob s = Inr (p, s1)"
    and run: "rsteps D s1 evs s2" "\<forall>ev\<in>set evs. \<not> uses_oneshot h ev \<and> \<not> completes (next_ud D s) ev"
    and c: "cqe_user_data c = next_ud D s"
  shows "\<exists>s3. complete_cqe D c s2 = Inr (ob, s3) \<and>
    (\<forall>evs' s4. rsteps D s3 evs' s4 \<longrightarrow> (\<forall>ev\<in>set evs'. \<not> uses_oneshot h ev) \<longrightarrow>
       rinv D s4 \<and> has_result s4 h (cqe_result c) \<and> ones s4 h = ones s1 h)"
proof -
  note sub = submit_awaits [OF inv new poll]
  have inv1: "rinv D s1" by (rule poll_oneshot_inv [OF inv new poll])
  have aw: "awaits s2 h (cqe_user_data c) ob"
    using rsteps_awaits [OF run(1) inv1 conjunct2 [OF sub] run(2)] c by simp
  have inv2: "rinv D s2" by (rule rsteps_inv [OF run(1) inv1])
  from complete_awaits [OF inv2 aw] obtain s3 where
    s3: "complete_cqe D c s2 = Inr (ob, s3)" "rinv D s3" "has_result s3 h (cqe_result c)"
    by blast
  obtain st where st: "ones s1 h = Some st" using sub by (auto simp: awaits_def)
  then have "ones s2 h = Some st" using rsteps_ones [OF run(1)] run(2) by blast
  then have "ones s3 h = Some st" using s3(1) by (auto simp: complete_cqe_def rbind_eq_Inr)
  then have "rinv D s4 \<and> has_result s4 h (cqe_result c) \<and> ones s4 h = ones s1 h"
    if "rsteps D s3 evs' s4" "\<forall>ev\<in>set evs'. \<not> uses_oneshot h ev" for evs' s4
    using rsteps_has_result [OF that(1) s3(2,3) that(2)] rsteps_inv [OF that(1) s3(2)]
      rsteps_ones [OF that] st by simp
  with s3(1) show ?thesis by blast
qed

subsection \<open>Multishot streams\<close>

lemma complete_multi_buffered:
  assumes inv: "rinv D s" and fl: "flight D Multi s (cqe_user_data c) = Some k"
    and h: "multis s h = Some (MS_Submitted k ud)"
    and step: "complete_cqe D c s = Inr (ob, s')"
  shows "buffered D s' k = keep_last ring_capacity (buffered D s k @ [cqe_result c])"
    "multis s' h = Some (MS_Submitted k ud)"
    "cqueue_more (ur D) (cqe_flags c) \<Longrightarrow> flight D Multi s' (cqe_user_data c) = Some k"
proof -
  from fl have inf: "inflight s (cqe_user_data c) = Some Multi" by (auto simp: flight_def split: if_splits)
  obtain p where p: "slab_get (pend D) (pending (ri s)) (u64_as_usize (cqe_user_data c)) = Some p"
      "kind p = Multi" "result_slab_idx p = k"
    using flight_entry [OF rinvD(4) [OF inv] inf] fl by (metis option.inject)
  obtain e where e: "slab_get (multi D) (get_multishot (ri s)) k = Some e" "\<not> ms_dropped e"
    by (rule multi_handle_entry [OF inv h])
  from handle_cqe_multi [OF p(1,2), of e] p(3) e step obtain i where
      i: "ri s' = i" "pending i = pending (ri s)"
      "slab_get (multi D) (get_multishot i) k =
        Some (if cqueue_more (ur D) (cqe_flags c)
              then e\<lparr>ms_results := rb_push (rb D) (ms_results e) (cqe_result c)\<rparr>
              else e\<lparr>ms_results := rb_push (rb D) (ms_results e) (cqe_result c), ms_finished := True\<rparr>)"
    by (auto simp: complete_cqe_def split: if_splits)
  then show "buffered D s' k = keep_last ring_capacity (buffered D s k @ [cqe_result c])"
    using e by (simp add: buffered_def ms.rb.to_vec_push)
  show "multis s' h = Some (MS_Submitted k ud)"
    using step h by (auto simp: complete_cqe_def rbind_eq_Inr)
  show "flight D Multi s' (cqe_user_data c) = Some k" if "cqueue_more (ur D) (cqe_flags c)"
    using that step p inf i by (auto simp: complete_cqe_def rbind_eq_Inr flight_def pend_of_def)
qed

lemma poll_times_buffered:
  assumes "multis s h = Some (MS_Submitted k ud)"
    and "slab_get (multi D) (get_multishot (ri s)) k = Some e" "n \<le> length (buffered D s k)"
  shows "\<exists>s'. poll_times D h en ob n s = Inr (map stream_item (take n (buffered D s k)), s')"
  using assms
proof (induction n arbitrary: s e)
  case (Suc n)
  from Suc.prems obtain v vs where vs: "rb_to_vec (rb D) (ms_results e) = v # vs"
    by (cases "rb_to_vec (rb D) (ms_results e)") (auto simp: buffered_def)
  from poll_multishot_submitted [OF Suc.prems(1,2), of en ob] vs obtain st b where
      st: "poll_multishot D h en ob s = Inr (stream_item v, s\<lparr>ri := set_multishot st (ri s)\<rparr>)"
      "slab_get (multi D) st = (slab_get (multi D) (get_multishot (ri s)))(k \<mapsto> e\<lparr>ms_results := b\<rparr>)"
      "rb_to_vec (rb D) b = vs"
    by (auto simp: stream_item_def)
  let ?s = "s\<lparr>ri := set_multishot st (ri s)\<rparr>"
  have buf: "buffered D s k = v # vs" "buffered D ?s k = vs"
    using Suc.prems(2) vs st by (simp_all add: buffered_def)
  from Suc.IH [of ?s "e\<lparr>ms_results := b\<rparr>"] Suc.prems st buf obtain s' where
    "poll_times D h en ob n ?s = Inr (map stream_item (take n vs), s')" by auto
  with st(1) buf show ?case by simp
qed simp

lemma poll_times_all:
  assumes inv: "rinv D s" and h: "multis s h = Some (MS_Submitted k ud)"
  shows "\<exists>s'. poll_times D h en ob (length (buffered D s k)) s = Inr (map stream_item (buffered D s k), s')"
proof -
  obtain e where "slab_get (multi D) (get_multishot (ri s)) k = Some e"
    by (rule multi_handle_entry [OF inv h])
  from poll_times_buffered [OF h this order.refl, of en ob] show ?thesis by simp
qed

lemma complete_all_buffered:
  assumes "rinv D s" "flight D Multi s ud = Some k" "multis s h = Some (MS_Submitted k ud')"
    and "\<forall>c\<in>set cs. cqe_user_data c = ud \<and> cqueue_more (ur D) (cqe_flags c)" "cs \<noteq> []"
  shows "\<exists>s'. complete_all D cs s = Inr s' \<and> rsteps D s (map Complete cs) s'
    \<and> multis s' h = Some (MS_Submitted k ud') \<and> flight D Multi s' ud = Some k
    \<and> buffered D s' k = keep_last ring_capacity (buffered D s k @ map cqe_result cs)"
  using assms
proof (induction cs arbitrary: s)
  case (Cons c cs)
  from Cons.prems(2,4) have inf: "inflight s (cqe_user_data c) = Some Multi"
    by (auto simp: flight_def split: if_splits)
  from complete_multi_inv [OF Cons.prems(1) inf] obtain ob s1 where
    s1: "complete_cqe D c s = Inr (ob, s1)" "rinv D s1" by blast
  from Cons.prems(2,4) have fl: "flight D Multi s (cqe_user_data c) = Some k" by simp
  note B = complete_multi_buffered [OF Cons.prems(1) fl Cons.prems(3) s1(1)]
  from inf s1(1) have st: "allowed (Complete c) s" "rstep D (Complete c) s = Inr s1" by simp_all
  show ?case
  proof (cases "cs = []")
    case True
    with s1 B st Cons.prems(4) show ?thesis by (auto simp: rsteps_simps)
  next
    case False
    from Cons.IH [OF s1(2) _ B(2) _ False] B(3) Cons.prems(4) obtain s' where
      "complete_all D cs s1 = Inr s'" "rsteps D s1 (map Complete cs) s'"
      "multis s' h = Some (MS_Submitted k ud')" "flight D Multi s' ud = Some k"
      "buffered D s' k = keep_last ring_capacity (buffered D s1 k @ map cqe_result cs)" by auto
    with s1(1) B(1) rsteps_cons [OF st] show ?thesis by (simp add: keep_last_append)
  qed
qed simp

text \<open>The user data a multishot handle keeps is that of the operation that feeds its slot.\<close>

lemma rstep_multi_link:
  assumes inv: "rinv D s" and step: "rstep D ev s = Inr s'"
    and link: "\<And>h k ud. multis s h = Some (MS_Submitted k ud) \<Longrightarrow>
      \<exists>p. pend_of D s ud = Some p \<and> kind p = Multi \<and> result_slab_idx p = k"
    and h: "multis s' h = Some (MS_Submitted k ud)"
  shows "\<exists>p. pend_of D s' ud = Some p \<and> kind p = Multi \<and> result_slab_idx p = k"
proof (cases "multis s h = Some (MS_Submitted k ud)")
  case True
  with link rstep_pend [OF step] show ?thesis by fastforce
next
  case False
  have "\<exists>e ob. ev = PollMultishot h e ob \<and> multis s h = Some MS_New"
    using step h False by (cases ev) (auto simp: rbind_eq_Inr poll_oneshot_def poll_multishot_def
      multishot_submit_or_get_result_def multishot_io_new_def complete_cqe_def
      split: option.splits if_splits MultishotIoState.splits)
  then obtain e ob where ev: "ev = PollMultishot h e ob" "multis s h = Some MS_New" by blast
  with step h obtain i where "submit_io D (ri s) e ob Multi = Inr ((ud, k), i)" "ri s' = i"
    by (auto simp: poll_multishot_new rbind_eq_Inr)
  from submit_pend_of(2) [OF this] show ?thesis by simp
qed

lemma reachable_multi_link:
  "reachable D s \<Longrightarrow> multis s h = Some (MS_Submitted k ud) \<Longrightarrow>
     \<exists>p. pend_of D s ud = Some p \<and> kind p = Multi \<and> result_slab_idx p = k"
proof (induction arbitrary: h k ud rule: reachable.induct)
  case (start s)
  then show ?case by (auto simp: rinit_def rbind_eq_Inr)
next
  case (step s ev s')
  then show ?case using rstep_multi_link [OF reachable_inv] by blast
qed

lemma finished_not_inflight:
  assumes reach: "reachable D s" and h: "multis s h = Some (MS_Submitted k ud)"
    and e: "slab_get (multi D) (get_multishot (ri s)) k = Some e" "ms_finished e"
  shows "inflight s ud = None"
proof (rule ccontr)
  assume "inflight s ud \<noteq> None"
  then obtain knd where knd: "inflight s ud = Some knd" by auto
  note I = rinvD [OF reachable_inv [OF reach]]
  obtain p where p: "pend_of D s ud = Some p" "kind p = Multi" "result_slab_idx p = k"
    using reachable_multi_link [OF reach h] by blast
  have "knd = Multi" using I(4) knd p(1,2) unfolding pend_ok_def by fastforce
  with knd p have "flight D Multi s ud = Some k" by (simp add: flight_def)
  from slots_flight_phase [OF I(2) this] e show False by (simp add: multishot_phase_def)
qed

subsection \<open>Panics\<close>

lemma insert_rs_panics: "insert_rs S st v = Inl p \<Longrightarrow> p = SlabFull"
  by (simp add: insert_rs_def split: option.splits)

lemma create_slot_panics: "create_slot D knd i = Inl p \<Longrightarrow> p = SlabFull"
  by (cases knd) (auto simp: create_slot_def oneshot_create_slot_def multishot_create_slot_def
      rbind_eq_Inl dest: insert_rs_panics)

lemma submit_io_panics:
  assumes "submit_io D i e ob knd = Inl p"
  shows "p = SlabFull \<or> p = UnwrapErr"
  using assms unfolding submit_io_def rbind_eq_Inl
  by (elim disjE exE conjE) (auto simp: rbind_eq_Inl split: option.splits prod.splits
      dest: create_slot_panics insert_rs_panics)

lemma poll_oneshot_panics:
  assumes inv: "rinv D s" and poll: "poll_oneshot D h e ob s = Inl p"
  shows "ones s h = Some OS_New \<and> (p = SlabFull \<or> p = UnwrapErr)"
proof (cases "ones s h")
  case (Some st)
  show ?thesis
  proof (cases st)
    case OS_New
    with Some poll show ?thesis by (auto simp: poll_oneshot_new rbind_eq_Inl dest: submit_io_panics)
  next
    case (OS_Submitted k)
    with Some have "one_slots s h = Some k" by (simp add: one_slots_def)
    from slots_handle_phase [OF rinvD(1) [OF inv] this]
      poll_oneshot_pending [of s h k e ob] poll_oneshot_ready [of s h k _ e ob] Some OS_Submitted poll
    show ?thesis by (auto simp: os.phase_iffs)
  qed (use Some poll in \<open>simp add: poll_oneshot_def oneshot_submit_or_get_result_def\<close>)
qed (use poll in \<open>simp add: poll_oneshot_def\<close>)

lemma poll_multishot_panics:
  assumes inv: "rinv D s" and poll: "poll_multishot D h e ob s = Inl p"
  shows "multis s h = Some MS_New \<and> (p = SlabFull \<or> p = UnwrapErr)"
proof (cases "multis s h")
  case (Some st)
  show ?thesis
  proof (cases st)
    case MS_New
    with Some poll show ?thesis by (auto simp: poll_multishot_new rbind_eq_Inl dest: submit_io_panics)
  next
    case (MS_Submitted k ud)
    with Some obtain x where "slab_get (multi D) (get_multishot (ri s)) k = Some x"
      using multi_handle_entry [OF inv] by metis
    with poll_multishot_submitted [of s h k ud x e ob] Some MS_Submitted poll show ?thesis by auto
  qed
qed (use poll in \<open>simp add: poll_multishot_def\<close>)

lemma drop_multishot_cases:
  assumes inv: "rinv D s" and h: "multis s h = Some st"
  shows "rstep D (DropMultishot h) s = Inl (ExpectErr ''Should be able to cancel in-flight multishot IO'')
      \<and> (\<exists>k ud er. st = MS_Submitted k ud \<and> fst (uring_register_sync_cancel (ur D) (uring (ri s)) ud) = Some er)
    \<or> (\<exists>s'. rstep D (DropMultishot h) s = Inr s' \<and> rinv D s')
      \<and> (\<forall>k ud. st = MS_Submitted k ud \<longrightarrow> fst (uring_register_sync_cancel (ur D) (uring (ri s)) ud) = None)"
proof (cases st)
  case MS_New
  with drop_multishot_new_inv [OF inv] h show ?thesis by auto
next
  case (MS_Submitted k ud)
  obtain er u where c: "uring_register_sync_cancel (ur D) (uring (ri s)) ud = (er, u)" by fastforce
  show ?thesis
  proof (cases er)
    case None
    with drop_multishot_inv [OF inv] h MS_Submitted c show ?thesis by auto
  next
    case (Some e)
    with h MS_Submitted c show ?thesis by (simp add: multishot_io_drop_def)
  qed
qed

lemma complete_inv:
  assumes "rinv D s" "allowed (Complete c) s"
  shows "\<exists>ob s'. complete_cqe D c s = Inr (ob, s') \<and> rinv D s'"
  using assms complete_oneshot_inv [of s c] complete_multi_inv [of s c]
  by (cases "inflight s (cqe_user_data c)") (auto, metis IoKind.exhaust)

lemma rstep_panics:
  assumes inv: "rinv D s" and al: "allowed ev s" and step: "rstep D ev s = Inl p"
  shows "(\<exists>h e ob. (ev = PollOneshot h e ob \<and> ones s h = Some OS_New
             \<or> ev = PollMultishot h e ob \<and> multis s h = Some MS_New) \<and> (p = SlabFull \<or> p = UnwrapErr))
    \<or> (\<exists>h. ev = DropMultishot h \<and> p = ExpectErr ''Should be able to cancel in-flight multishot IO'')"
proof (cases ev)
  case (PollOneshot h e ob)
  with step poll_oneshot_panics [OF inv, of h e ob p] show ?thesis by (auto simp: rbind_eq_Inl)
next
  case (PollMultishot h e ob)
  with step poll_multishot_panics [OF inv, of h e ob p] show ?thesis by (auto simp: rbind_eq_Inl)
next
  case (DropOneshot h)
  with al step drop_oneshot_inv [OF inv] show ?thesis by fastforce
next
  case (DropMultishot h)
  with al obtain st where "multis s h = Some st" by auto
  from drop_multishot_cases [OF inv this] step DropMultishot show ?thesis by fastforce
next
  case (Complete c)
  with al step complete_inv [OF inv, of c] show ?thesis by auto
qed (use step in auto)

subsection \<open>Batches of completions\<close>

lemma complete_cqe_pend:
  assumes "complete_cqe D c s = Inr (ob, s')"
  shows "\<exists>p. pend_of D s (cqe_user_data c) = Some p \<and> ob = assoc_obj p"
    "pend_of D s' ud = Some x \<Longrightarrow> pend_of D s ud = Some x"
proof -
  from assms obtain p where p: "slab_get (pend D) (pending (ri s)) (u64_as_usize (cqe_user_data c)) = Some p"
    by (auto simp: complete_cqe_def handle_cqe_def rbind_eq_Inr unwrap_eq_Inr)
  have "ob = assoc_obj p \<and> (pending (ri s') = pending (ri s)
      \<or> remove_rs (pend D) (pending (ri s)) (u64_as_usize (cqe_user_data c)) = Inr (pending (ri s')))"
    using assms p by (cases "kind p") (auto simp: complete_cqe_def handle_cqe_def rbind_eq_Inr)
  with p show "\<exists>p. pend_of D s (cqe_user_data c) = Some p \<and> ob = assoc_obj p"
    and "pend_of D s' ud = Some x \<Longrightarrow> pend_of D s ud = Some x"
    by (auto simp: pend_of_def dest!: pd.remove_rsD(2) split: if_splits)
qed

lemma valid_batch_react:
  assumes "rinv D s" "valid_batch D cs s"
  shows "\<exists>s' obs. react_loop D wake \<lparr>compl_queue = cs, ring = ri s\<rparr> x = Inr (ri s', fold wake obs x)
    \<and> rsteps D s (map Complete cs) s'
    \<and> list_all2 (\<lambda>c ob. \<exists>p. pend_of D s (cqe_user_data c) = Some p \<and> ob = assoc_obj p) cs obs"
  using assms
proof (induction cs arbitrary: s x)
  case Nil
  then show ?case by (auto simp: react_loop_Nil intro: rsteps_nil exI [of _ "[]"])
next
  case (Cons c cs)
  from Cons.prems(2) obtain ob s1 where s1: "complete_cqe D c s = Inr (ob, s1)" "valid_batch D cs s1"
      and al: "allowed (Complete c :: ('u, 't) revent) s"
    by (auto split: sum.splits)
  from s1(1) have st: "rstep D (Complete c) s = Inr s1" "handle_cqe D c (ri s) = Inr (ob, ri s1)"
    by (auto simp: complete_cqe_def rbind_eq_Inr)
  note P = complete_cqe_pend [OF s1(1)]
  from Cons.IH [OF rstep_inv [OF Cons.prems(1) al st(1)] s1(2), of "wake ob x"] obtain s' obs where
    s': "react_loop D wake \<lparr>compl_queue = cs, ring = ri s1\<rparr> (wake ob x) = Inr (ri s', fold wake obs (wake ob x))"
    "rsteps D s1 (map Complete cs) s'"
    "list_all2 (\<lambda>c ob. \<exists>p. pend_of D s1 (cqe_user_data c) = Some p \<and> ob = assoc_obj p) cs obs" by blast
  have "list_all2 (\<lambda>c ob. \<exists>p. pend_of D s (cqe_user_data c) = Some p \<and> ob = assoc_obj p) cs obs"
    using s'(3) P(2) by (auto elim!: list_all2_mono)
  with st(2) s' P(1) rsteps_cons [OF al st(1)] show ?case
    by (intro exI [of _ s'] exI [of _ "ob # obs"]) (simp add: react_loop_Cons)
qed

lemma idle_empty:
  assumes inv: "rinv D s"
    and idle: "one_slots s = Map.empty" "multi_slots s = Map.empty" "inflight s = Map.empty"
  shows "ring_results_is_empty (one D) (multi D) (results (ri s))"
proof -
  note I = rinvD [OF inv]
  have fl: "flight D knd s = Map.empty" for knd by (simp add: flight_def fun_eq_iff idle)
  have "oneshot_phase (one D) (get_oneshot (ri s)) = (\<lambda>_. Free)"
    using slots_idle_free I(1) by (simp add: fl idle)
  then have "slab_get (one D) (get_oneshot (ri s)) = Map.empty"
    by (simp add: fun_eq_iff os.phase_iffs)
  moreover have "multishot_phase (multi D) (get_multishot (ri s)) = (\<lambda>_. Free)"
    using slots_idle_free I(2) by (simp add: fl idle)
  then have "slab_get (multi D) (get_multishot (ri s)) = Map.empty"
    by (simp add: fun_eq_iff ms.phase_FreeD)
  ultimately show ?thesis
    by (simp add: ring_results_is_empty_def oneshot_is_empty_def multishot_is_empty_def
        os.is_empty_iff ms.is_empty_iff)
qed

end

end
