(* ===== verification/RingEval.thy ===== *)
theory RingEval
  imports ReactorThms
begin

text \<open>
  What the instances of the properties share: the rules that evaluate the model on the
  scripted ring, a ring, an entry and a completion.
\<close>

lemmas reactor_eval = rrun_init_def rinit_def inner_new_def ring_results_new_def oneshot_new_def
  multishot_new_def next_ud_def poll_oneshot_def poll_multishot_def
  oneshot_submit_or_get_result_def multishot_submit_or_get_result_def poll_of_state_def
  reactor_value_to_result_def create_slot_def submit_io_def handle_cqe_def complete_cqe_def
  oneshot_io_drop_def multishot_io_drop_def oneshot_io_new_def multishot_io_new_def
  oneshot_defs multishot_defs script_uring_def vec_slab_simps list_ringbuf_def
  usize_as_u64_def u64_as_usize_def build_def

text \<open>Concrete inputs: an entry and a completion of the operation with user data \<open>0\<close>.\<close>

abbreviation ring0 :: "nat script_deps" where
  "ring0 \<equiv> script_deps [] (\<lambda>_. None)"

abbreviation entry0 :: Entry where
  "entry0 \<equiv> build (Op_Read 3 (InFuture ''buf'') 8 None)"

abbreviation cqe0 :: "i32 \<Rightarrow> u32 \<Rightarrow> Cqe" where
  "cqe0 r f \<equiv> \<lparr>cqe_user_data = 0, cqe_result = r, cqe_flags = f\<rparr>"

lemma ring0_deps: "reactor_deps ring0"
  by (rule scr.reactor_deps_axioms)

text \<open>A fresh reactor with one oneshot handle that has not been polled.\<close>

abbreviation fresh :: "(script_ring, nat PendingIo option list, ResultState option list,
    i32 list MultishotResultState option list) rsys" where
  "fresh \<equiv> \<lparr>ri = \<lparr>uring = \<lparr>sr_sq = [], sr_ready = [], sr_batches = [], sr_cancel = \<lambda>_. None\<rparr>, pending = [],
       results = \<lparr>rr_oneshot = [], rr_multishot = []\<rparr>\<rparr>,
     ones = [0 \<mapsto> OS_New], multis = Map.empty, inflight = Map.empty\<rparr>"

lemma fresh_reachable: "reachable ring0 fresh"
  by (rule rrun_init_reachable [where evs = "[NewOneshot 0]"]) (simp add: reactor_eval)

lemma fresh_new: "ones fresh 0 = Some OS_New" by simp

end
