(* ===== verification/ReactorProps.thy ===== *)
theory ReactorProps
  imports RingEval
begin

text \<open>
  The properties of the reactor as closed statements, each with an instance on the scripted
  ring.
\<close>

subsection \<open>Safety of the reactor\<close>

text \<open>
  C1. In every reachable state of the reactor and its handles, an allowed event can panic only
  in two ways: a first poll, when a slab has no key left or the submission queue is full;
  and the drop of a multishot handle whose cancellation the ring refuses. In particular the
  processing of a completion, a later poll and the drop of a oneshot handle never panic.
\<close>

theorem reactor_panics:
  assumes "reactor_deps D" "reachable D s" "allowed ev s" "rstep D ev s = Inl p"
  shows "(\<exists>h e ob. (ev = PollOneshot h e ob \<and> ones s h = Some OS_New
             \<or> ev = PollMultishot h e ob \<and> multis s h = Some MS_New) \<and> (p = SlabFull \<or> p = UnwrapErr))
    \<or> (\<exists>h. ev = DropMultishot h \<and> p = ExpectErr ''Should be able to cancel in-flight multishot IO'')"
  using reactor_deps.rstep_panics [OF assms(1) reactor_deps.reachable_inv [OF assms(1,2)] assms(3,4)] .

theorem reactor_panics_witness:
  "\<exists>s p. reachable (script_deps [] (\<lambda>_. Some 2) :: nat script_deps) s
     \<and> rstep (script_deps [] (\<lambda>_. Some 2)) (DropMultishot 0) s = Inl p
     \<and> p = ExpectErr ''Should be able to cancel in-flight multishot IO''"
proof -
  let ?D = "script_deps [] (\<lambda>_. Some 2) :: nat script_deps"
  obtain s p where run: "rrun_init ?D [NewMultishot 0, PollMultishot 0 entry0 7] = Inr s"
      and drop: "rstep ?D (DropMultishot 0) s = Inl p" and al: "allowed (DropMultishot 0 :: (script_ring, nat) revent) s"
    by (simp add: reactor_eval)
  note r = rrun_init_reachable [OF run]
  from reactor_panics [OF scr.reactor_deps_axioms r al drop]
  have "p = ExpectErr ''Should be able to cancel in-flight multishot IO''" by simp
  with r drop show ?thesis by blast
qed

text \<open>
  C2. In every reachable state the tables of the reactor agree: each result slot in use is
  shared by at most one live handle and at most one operation in flight, and is kept exactly
  as long as one of them is left; every operation in flight has its pending entry, of its own
  kind; every oneshot pending entry belongs to an operation in flight.
\<close>

theorem reactor_invariant:
  assumes "reactor_deps D" "reachable D s"
  shows "rinv D s"
  using reactor_deps.reachable_inv [OF assms] .

theorem reactor_invariant_witness:
  "\<exists>s. reachable ring0 s \<and> ones s 0 = Some (OS_Submitted 0) \<and> rinv ring0 s"
proof -
  obtain s where s: "rrun_init ring0 [NewOneshot 0, PollOneshot 0 entry0 7] = Inr s"
      "ones s 0 = Some (OS_Submitted 0)"
    by (simp add: reactor_eval)
  with reactor_invariant [OF ring0_deps rrun_init_reachable [OF s(1)]] show ?thesis
    using rrun_init_reachable by blast
qed

subsection \<open>Results reach their handles\<close>

text \<open>
  C3. The life of a oneshot operation. The first poll of a handle submits it and is pending.
  Whatever else happens then, as long as the handle is not used and the operation has not
  completed, its completion is processed without a panic and yields the object it was
  submitted with (the waker of its task); and whatever happens after that, the next poll of
  the handle is ready with the result the completion carried.
\<close>

theorem oneshot_delivery:
  assumes "reactor_deps D" "reachable D s" "ones s h = Some OS_New"
    and "poll_oneshot D h e ob s = Inr (p, s1)"
    and "rsteps D s1 evs s2" "\<forall>ev\<in>set evs. \<not> uses_oneshot h ev \<and> \<not> completes (next_ud D s) ev"
    and "cqe_user_data c = next_ud D s"
  shows "p = Poll_Pending \<and> (\<exists>s3. complete_cqe D c s2 = Inr (ob, s3) \<and>
    (\<forall>evs' s4 e' ob'. rsteps D s3 evs' s4 \<longrightarrow> (\<forall>ev\<in>set evs'. \<not> uses_oneshot h ev) \<longrightarrow>
      (\<exists>s5. poll_oneshot D h e' ob' s4 = Inr (Poll_Ready (reactor_value_to_result (cqe_result c)), s5))))"
proof -
  note inv = reactor_deps.reachable_inv [OF assms(1,2)]
  note sub = reactor_deps.submit_awaits [OF assms(1) inv assms(3,4)]
  from reactor_deps.delivery [OF assms(1) inv assms(3-7)] obtain s3 where
    "complete_cqe D c s2 = Inr (ob, s3)" and
    "\<And>evs' s4. rsteps D s3 evs' s4 \<Longrightarrow> \<forall>ev\<in>set evs'. \<not> uses_oneshot h ev \<Longrightarrow>
       reactor_deps.has_result D s4 h (cqe_result c)"
    by blast
  with sub show ?thesis using reactor_deps.poll_has_result [OF assms(1)] by blast
qed

theorem oneshot_delivery_witness:
  "\<exists>s1 s3. poll_oneshot ring0 0 entry0 7
       \<lparr>ri = \<lparr>uring = \<lparr>sr_sq = [], sr_ready = [], sr_batches = [], sr_cancel = \<lambda>_. None\<rparr>, pending = [],
              results = \<lparr>rr_oneshot = [], rr_multishot = []\<rparr>\<rparr>,
        ones = [0 \<mapsto> OS_New], multis = Map.empty, inflight = Map.empty\<rparr> = Inr (Poll_Pending, s1)
     \<and> complete_cqe ring0 (cqe0 (- 9) 0) s1 = Inr (7, s3)
     \<and> (\<exists>s5. poll_oneshot ring0 0 entry0 1 s3 = Inr (Poll_Ready (Inl (OsError 9)), s5))"
proof -
  let ?s = "\<lparr>ri = \<lparr>uring = \<lparr>sr_sq = [], sr_ready = [], sr_batches = [], sr_cancel = \<lambda>_. None\<rparr>, pending = [],
              results = \<lparr>rr_oneshot = [], rr_multishot = []\<rparr>\<rparr>,
        ones = [0 \<mapsto> OS_New], multis = Map.empty, inflight = Map.empty\<rparr>"
  have run: "rrun_init ring0 [NewOneshot 0] = Inr ?s" by (simp add: reactor_eval)
  obtain p s1 where poll: "poll_oneshot ring0 0 entry0 7 ?s = Inr (p, s1)" by (simp add: reactor_eval)
  have ud: "cqe_user_data (cqe0 (- 9) 0) = next_ud ring0 ?s" by (simp add: reactor_eval)
  have new: "ones ?s 0 = Some OS_New" by simp
  from oneshot_delivery [OF ring0_deps rrun_init_reachable [OF run] new poll rsteps_nil _ ud]
  have "p = Poll_Pending" and "\<exists>s3. complete_cqe ring0 (cqe0 (- 9) 0) s1 = Inr (7, s3)
      \<and> (\<exists>s5. poll_oneshot ring0 0 entry0 1 s3 = Inr (Poll_Ready (reactor_value_to_result (- 9)), s5))"
    using rsteps_nil by fastforce+
  moreover have "reactor_value_to_result (- 9) = Inl (OsError 9)"
    by (simp add: reactor_value_to_result_def i32_abs_def)
  ultimately show ?thesis using poll by auto
qed

text \<open>
  C4. The stream of a multishot operation. When completions arrive for an operation whose
  handle is alive, polls of the handle return, in the order of arrival, the newest 1024 of
  the results not yet taken.
\<close>

theorem multishot_stream:
  assumes "reactor_deps D" "reachable D s" "multis s h = Some (MS_Submitted k ud)"
    and "inflight s ud = Some Multi" "cs \<noteq> []"
    and "\<forall>c\<in>set cs. cqe_user_data c = ud \<and> cqueue_more (ur D) (cqe_flags c)"
  shows "\<exists>s1 s2. complete_all D cs s = Inr s1
    \<and> poll_times D h e ob (min ring_capacity (length (buffered D s k) + length cs)) s1
        = Inr (map stream_item (keep_last ring_capacity (buffered D s k @ map cqe_result cs)), s2)"
proof -
  note inv = reactor_deps.reachable_inv [OF assms(1,2)]
  have "flight D Multi s ud = Some k"
    using reactor_deps.reachable_multi_link [OF assms(1,2,3)] assms(4) by (auto simp: flight_def)
  from reactor_deps.complete_all_buffered [OF assms(1) inv this assms(3,6,5)] obtain s1 where
    s1: "complete_all D cs s = Inr s1" "rsteps D s (map Complete cs) s1"
      "multis s1 h = Some (MS_Submitted k ud)"
      "buffered D s1 k = keep_last ring_capacity (buffered D s k @ map cqe_result cs)" by blast
  note inv1 = reactor_deps.rsteps_inv [OF assms(1) s1(2) inv]
  from reactor_deps.poll_times_all [OF assms(1) inv1 s1(3), of e ob] s1(1,4) show ?thesis by simp
qed

theorem multishot_stream_witness:
  "\<exists>s s1 s2. reachable ring0 s \<and> complete_all ring0 [cqe0 5 2, cqe0 6 2] s = Inr s1
    \<and> poll_times ring0 0 entry0 7 2 s1 = Inr ([stream_item 5, stream_item 6], s2)"
proof -
  obtain s where s: "rrun_init ring0 [NewMultishot 0, PollMultishot 0 entry0 7] = Inr s"
      "multis s 0 = Some (MS_Submitted 0 0)" "inflight s 0 = Some Multi" "buffered ring0 s 0 = []"
    by (simp add: reactor_eval buffered_def)
  have more: "\<forall>c\<in>set [cqe0 5 2, cqe0 6 2]. cqe_user_data c = 0 \<and> cqueue_more (ur ring0) (cqe_flags c)"
    by (simp add: script_uring_def)
  from multishot_stream [OF ring0_deps rrun_init_reachable [OF s(1)] s(2,3) _ more, of entry0 7] s(4)
  show ?thesis using rrun_init_reachable [OF s(1)] by (auto simp: numeral_2_eq_2)
qed

text \<open>
  C24. A result is lost when more than 1024 arrive between two polls: once the buffer of a live
  multishot handle is full, the next completion overwrites the oldest result, which no poll
  will ever return (for a listener this is an accepted connection).
\<close>

theorem multishot_overflow:
  assumes "reactor_deps D" "reachable D s" "multis s h = Some (MS_Submitted k ud)"
    and "inflight s ud = Some Multi" "length (buffered D s k) = ring_capacity"
    and "cqe_user_data c = ud" "complete_cqe D c s = Inr (ob, s')"
  shows "buffered D s' k = tl (buffered D s k) @ [cqe_result c]"
proof -
  note inv = reactor_deps.reachable_inv [OF assms(1,2)]
  have "flight D Multi s (cqe_user_data c) = Some k"
    using reactor_deps.reachable_multi_link [OF assms(1,2,3)] assms(4,6) by (auto simp: flight_def)
  from reactor_deps.complete_multi_buffered(1) [OF assms(1) inv this assms(3,7)] assms(5)
  show ?thesis by (cases "buffered D s k") (simp_all add: keep_last_def)
qed

lemma ring0_stream:
  obtains s where "reachable ring0 s" "multis s 0 = Some (MS_Submitted 0 0)"
    "inflight s 0 = Some Multi" "flight ring0 Multi s 0 = Some 0" "buffered ring0 s 0 = []"
proof -
  obtain s where s: "rrun_init ring0 [NewMultishot 0, PollMultishot 0 entry0 7] = Inr s"
      "multis s 0 = Some (MS_Submitted 0 0)" "inflight s 0 = Some Multi"
      "flight ring0 Multi s 0 = Some 0" "buffered ring0 s 0 = []"
    by (simp add: reactor_eval buffered_def flight_def pend_of_def)
  with that rrun_init_reachable show thesis by blast
qed

theorem multishot_overflow_witness:
  "\<exists>s s' ob. reachable ring0 s \<and> complete_cqe ring0 (cqe0 6 2) s = Inr (ob, s')
     \<and> buffered ring0 s 0 = replicate 1024 5 \<and> buffered ring0 s' 0 = replicate 1023 5 @ [6]"
proof -
  obtain s0 where s0: "reachable ring0 s0" "multis s0 0 = Some (MS_Submitted 0 0)"
      "inflight s0 0 = Some Multi" "flight ring0 Multi s0 0 = Some 0" "buffered ring0 s0 0 = []"
    by (rule ring0_stream)
  let ?cs = "replicate 1024 (cqe0 5 2)"
  have "\<forall>c\<in>set ?cs. cqe_user_data c = 0 \<and> cqueue_more (ur ring0) (cqe_flags c)" "?cs \<noteq> []"
    by (simp_all add: script_uring_def)
  from scr.complete_all_buffered [OF scr.reachable_inv [OF s0(1)] s0(4,2) this] s0(5) obtain s where
    s: "rsteps ring0 s0 (map Complete ?cs) s" "multis s 0 = Some (MS_Submitted 0 0)"
      "flight ring0 Multi s 0 = Some 0" "buffered ring0 s 0 = replicate 1024 5"
    by auto
  have r: "reachable ring0 s" by (rule rsteps_reachable [OF s(1) s0(1)])
  have inf: "inflight s 0 = Some Multi" using s(3) by (auto simp: flight_def split: if_splits)
  obtain ob s' where c: "complete_cqe ring0 (cqe0 6 2) s = Inr (ob, s')"
    using scr.complete_inv [OF scr.reachable_inv [OF r], of "cqe0 6 2"] inf by auto
  have "length (buffered ring0 s 0) = ring_capacity" by (simp add: s(4))
  from multishot_overflow [OF ring0_deps r s(2) inf this _ c] s(4) r c show ?thesis
    by auto
qed

subsection \<open>The closure runs once\<close>

text \<open>
  Over the whole life of a oneshot handle, whatever the ring does between its polls, the
  closure given to \<open>submit_or_get_result\<close> runs exactly once, at the first poll; and so it
  does for a multishot handle.
\<close>

lemma closure_runs_once:
  assumes "f w = Inr (x, w1)"
  shows "(oneshot_polls D f (i # is) OS_New w = Inr (st, w') \<longrightarrow> w' = w1)
    \<and> (multishot_polls D f (i # is) MS_New w = Inr (mst, w'') \<longrightarrow> w'' = w1)"
proof (intro conjI impI)
  assume "oneshot_polls D f (i # is) OS_New w = Inr (st, w')"
  then obtain p st1 i1 w2 where "oneshot_submit_or_get_result D f OS_New i w = Inr (p, st1, i1, w2)"
      "oneshot_polls D f is st1 w2 = Inr (st, w')"
    by (auto simp: rbind_eq_Inr)
  with oneshot_poll_state [OF this(1)] oneshot_polls_once [OF this(2)] assms show "w' = w1" by auto
next
  assume "multishot_polls D f (i # is) MS_New w = Inr (mst, w'')"
  then obtain p st1 i1 w2 where "multishot_submit_or_get_result D f MS_New i w = Inr (p, st1, i1, w2)"
      "multishot_polls D f is st1 w2 = Inr (mst, w'')"
    by (auto simp: rbind_eq_Inr)
  with multishot_poll_state [OF this(1)] multishot_polls_once [OF this(2)] assms show "w'' = w1" by auto
qed

abbreviation inner0 :: "(script_ring, nat PendingIo option list, ResultState option list,
    i32 list MultishotResultState option list) inner" where
  "inner0 \<equiv> \<lparr>uring = \<lparr>sr_sq = [], sr_ready = [], sr_batches = [], sr_cancel = \<lambda>_. None\<rparr>,
     pending = [], results = \<lparr>rr_oneshot = [Some RS_Pending], rr_multishot = []\<rparr>\<rparr>"

lemma closure_runs_once_instance:
  "\<exists>st w'. oneshot_polls ring0 (\<lambda>n. Inr ((entry0, 7), Suc n))
      [inner0, inner0\<lparr>results := \<lparr>rr_oneshot = [Some RS_Pending, Some RS_Pending], rr_multishot = []\<rparr>\<rparr>]
      OS_New 0 = Inr (st, w') \<and> w' = Suc 0"
proof -
  let ?f = "\<lambda>n. Inr ((entry0, 7), Suc n) :: ((Entry \<times> nat) \<times> nat) rs"
  let ?i2 = "inner0\<lparr>results := \<lparr>rr_oneshot = [Some RS_Pending, Some RS_Pending], rr_multishot = []\<rparr>\<rparr>"
  obtain st w' where run: "oneshot_polls ring0 ?f [inner0, ?i2] OS_New 0 = Inr (st, w')"
    by (simp add: reactor_eval)
  have "?f 0 = Inr ((entry0, 7), Suc 0)" by simp
  from closure_runs_once [where f = ?f, OF this] run have "w' = Suc 0" by blast
  with run show ?thesis by blast
qed

subsection \<open>Slots are given back\<close>

text \<open>
  When no handle holds a slot and no operation is in flight, both result stores are empty:
  nothing leaks, however the polls, drops and completions were interleaved.
\<close>

lemma idle_results_empty:
  assumes "reactor_deps D" "reachable D s"
    and "one_slots s = Map.empty" "multi_slots s = Map.empty" "inflight s = Map.empty"
  shows "ring_results_is_empty (one D) (multi D) (results (ri s))"
  using reactor_deps.idle_empty [OF assms(1) reactor_deps.reachable_inv [OF assms(1,2)] assms(3-5)] .

lemma idle_results_empty_instance:
  "\<exists>s. reachable ring0 s \<and> ring_results_is_empty vec_slab vec_slab (results (ri s))
     \<and> pend_of ring0 s 0 \<noteq> None"
proof -
  obtain s where s: "rrun_init ring0 [NewOneshot 0, NewMultishot 0, PollMultishot 0 entry0 7,
        PollOneshot 0 entry0 8, DropMultishot 0, DropOneshot 0,
        Complete (cqe0 5 0), Complete \<lparr>cqe_user_data = 1, cqe_result = 6, cqe_flags = 0\<rparr>] = Inr s"
      "one_slots s = Map.empty" "multi_slots s = Map.empty" "inflight s = Map.empty"
      "pend_of ring0 s 0 \<noteq> None"
    by (simp add: reactor_eval one_slots_def [abs_def] multi_slots_def [abs_def] pend_of_def)
  note r = rrun_init_reachable [OF s(1)]
  from idle_results_empty [OF ring0_deps r s(2-4)] r s(5) show ?thesis by auto
qed

text \<open>
  A slot of the oneshot store is freed exactly when both of its users are done with it, in
  whichever order: completion then drop, or drop then completion, both end with the slot
  free and every other slot unchanged.
\<close>

lemma oneshot_slot_reclaimed:
  assumes "slab_laws O1" "slab_get O1 st k = Some RS_Pending"
  shows "\<exists>st1 st2. rbind (oneshot_set_result O1 st r k) (\<lambda>s. oneshot_drop_result O1 s k) = Inr st1
    \<and> rbind (oneshot_drop_result O1 st k) (\<lambda>s. oneshot_set_result O1 s r k) = Inr st2
    \<and> oneshot_phase O1 st1 = (oneshot_phase O1 st)(k := Free)
    \<and> oneshot_phase O1 st2 = (oneshot_phase O1 st)(k := Free)"
proof -
  have O1: "oneshot_slab O1" using assms(1) by (simp add: oneshot_slab_def)
  have live: "oneshot_phase O1 st k = Live" using assms(2) by (simp add: oneshot_phase_def)
  from oneshot_slab.reclaim [OF O1 live, of r] show ?thesis by blast
qed

lemma oneshot_slot_reclaimed_instance:
  "\<exists>st1. rbind (oneshot_set_result vec_slab [Some RS_Dropped, Some RS_Pending] 5 1)
      (\<lambda>s. oneshot_drop_result vec_slab s 1) = Inr st1
    \<and> oneshot_phase vec_slab st1 = (oneshot_phase vec_slab [Some RS_Dropped, Some RS_Pending])(1 := Free)"
proof -
  have "slab_get vec_slab [Some RS_Dropped, Some RS_Pending] 1 = Some RS_Pending"
    by (simp add: vec_slab_simps)
  from oneshot_slot_reclaimed [OF vec.slab_laws_axioms this, of 5] show ?thesis by blast
qed

text \<open>
  A slot of the multishot store is likewise freed whichever comes first, the last
  completion of the operation or the drop of the handle.
\<close>

lemma multishot_slot_reclaimed:
  assumes "multishot_slab M R" "multishot_ok M st" "slab_get M st k = Some e" "\<not> ms_finished e" "\<not> ms_dropped e"
  shows "\<exists>st1 st2. rbind (multishot_set_finished M st k) (\<lambda>s. multishot_drop_result M s k) = Inr st1
    \<and> rbind (multishot_drop_result M st k) (\<lambda>s. multishot_set_finished M s k) = Inr st2
    \<and> multishot_phase M st1 = (multishot_phase M st)(k := Free)
    \<and> multishot_phase M st2 = (multishot_phase M st)(k := Free)"
proof -
  have live: "multishot_phase M st k = Live" using assms(3-5) by (simp add: multishot_phase_def)
  from multishot_slab.reclaim [OF assms(1,2) live] show ?thesis by blast
qed

lemma multishot_slot_reclaimed_instance:
  "\<exists>st1. rbind (multishot_set_finished vec_slab
        [Some \<lparr>ms_results = [] :: i32 list, ms_dropped = False, ms_finished = False\<rparr>] 0)
      (\<lambda>s. multishot_drop_result vec_slab s 0) = Inr st1
    \<and> multishot_phase vec_slab st1 = (multishot_phase vec_slab
        [Some \<lparr>ms_results = [] :: i32 list, ms_dropped = False, ms_finished = False\<rparr>])(0 := Free)"
proof -
  let ?e = "\<lparr>ms_results = [] :: i32 list, ms_dropped = False, ms_finished = False\<rparr>"
  have "multishot_ok vec_slab [Some ?e]" "slab_get vec_slab [Some ?e] 0 = Some ?e"
    by (auto simp: multishot_ok_def vec_slab_simps split: if_splits)
  from multishot_slot_reclaimed [OF vecm.multishot_slab_axioms this] show ?thesis by auto
qed

subsection \<open>The wake-up loop\<close>

text \<open>
  \<open>Reactor::react\<close> processes a batch of completions to its end without a panic, wakes
  for each completion, in the order of the completion queue, the object its operation was
  submitted with, and leaves a reachable state.
\<close>

lemma react_wakes_all:
  assumes "reactor_deps D" "reachable D s" "valid_batch D cs s"
  shows "\<exists>s' obs. react_loop D wake \<lparr>compl_queue = cs, ring = ri s\<rparr> x = Inr (ri s', fold wake obs x)
    \<and> reachable D s'
    \<and> list_all2 (\<lambda>c ob. \<exists>p. pend_of D s (cqe_user_data c) = Some p \<and> ob = assoc_obj p) cs obs"
proof -
  note inv = reactor_deps.reachable_inv [OF assms(1,2)]
  from reactor_deps.valid_batch_react [OF assms(1) inv assms(3), of wake x] show ?thesis
    using rsteps_reachable assms(2) by blast
qed

lemma react_wakes_all_instance:
  "\<exists>s s'. reachable ring0 s \<and> reachable ring0 s'
    \<and> react_loop ring0 (#) \<lparr>compl_queue = [cqe0 5 2, cqe0 6 0], ring = ri s\<rparr> [] = Inr (ri s', [7, 7])"
proof -
  obtain s where s: "rrun_init ring0 [NewMultishot 0, PollMultishot 0 entry0 7] = Inr s"
      "valid_batch ring0 [cqe0 5 2, cqe0 6 0] s"
      "pend_of ring0 s 0 = Some \<lparr>assoc_obj = 7, result_slab_idx = 0, kind = Multi\<rparr>"
    by (simp add: reactor_eval pend_of_def)
  note r = rrun_init_reachable [OF s(1)]
  from react_wakes_all [OF ring0_deps r s(2), of "(#)" "[]"] obtain s' obs where
      loop: "react_loop ring0 (#) \<lparr>compl_queue = [cqe0 5 2, cqe0 6 0], ring = ri s\<rparr> [] = Inr (ri s', fold (#) obs [])"
    and r': "reachable ring0 s'" and "list_all2 (\<lambda>c ob. \<exists>p. pend_of ring0 s (cqe_user_data c) = Some p \<and> ob = assoc_obj p)
        [cqe0 5 2, cqe0 6 0] obs"
    by blast
  with s(3) have "fold (#) obs [] = [7, 7]" by (auto simp: list_all2_Cons1)
  with r r' loop show ?thesis by metis
qed

subsection \<open>Results of the kernel\<close>

text \<open>
  A value of the kernel is a result if it is not negative and an error otherwise, and the
  error carries the error number, the negation of the value, for every value but the least
  32-bit integer, whose negation does not fit and comes out as itself.
\<close>

lemma kernel_value_result:
  "reactor_value_to_result v = (if 0 \<le> sint v then Inr v else Inl (OsError (i32_abs v)))
   \<and> (- (2 ^ 31) < sint v \<longrightarrow> sint (i32_abs v) = \<bar>sint v\<bar>)
   \<and> i32_abs (- (2 ^ 31)) = - (2 ^ 31)"
proof (intro conjI impI)
  assume "- (2 ^ 31) < sint v"
  then show "sint (i32_abs v) = \<bar>sint v\<bar>"
    using sint_uminus_neg [of v] by (auto simp: i32_abs_def)
qed (simp_all add: reactor_value_to_result_def i32_abs_def)

lemma kernel_value_result_instance:
  "reactor_value_to_result (- 11) = Inl (OsError (i32_abs (- 11))) \<and> sint (i32_abs (- 11)) = 11"
proof -
  have v: "sint (- 11 :: i32) = - 11" by simp
  from kernel_value_result [of "- 11"] show ?thesis by (simp add: v)
qed

subsection \<open>Defects\<close>

text \<open>
  C25. The entry a multishot operation makes in the pending table is never removed: no event
  ever frees it, also not the last completion, after which nothing refers to it.
\<close>

theorem multishot_pending_kept:
  assumes "reactor_deps D" "pend_of D s ud = Some p" "kind p = Multi" "rsteps D s evs s'"
  shows "pend_of D s' ud = Some p"
  using reactor_deps.rsteps_pend [OF assms(1,4,2)] assms(3) by simp

theorem multishot_pending_kept_witness:
  "\<exists>s s'. reachable ring0 s \<and> rsteps ring0 s [Complete (cqe0 5 0), DropMultishot 0] s'
     \<and> pend_of ring0 s' 0 = Some \<lparr>assoc_obj = 7, result_slab_idx = 0, kind = Multi\<rparr>
     \<and> inflight s' = Map.empty \<and> multis s' = Map.empty"
proof -
  obtain s s' where s: "rrun_init ring0 [NewMultishot 0, PollMultishot 0 entry0 7] = Inr s"
      "rrun ring0 [Complete (cqe0 5 0), DropMultishot 0] s = Inr s'"
      "pend_of ring0 s 0 = Some \<lparr>assoc_obj = 7, result_slab_idx = 0, kind = Multi\<rparr>"
      "inflight s' = Map.empty \<and> multis s' = Map.empty"
    by (simp add: reactor_eval pend_of_def)
  from multishot_pending_kept [OF ring0_deps s(3) _ rrun_rsteps [OF s(2)]] s
  show ?thesis using rrun_init_reachable [OF s(1)] rrun_rsteps [OF s(2)] by auto
qed

text \<open>
  C26. Dropping a oneshot handle does not withdraw its operation, whose entry points into the
  memory of the future that is being dropped. The drop asks nothing of the ring. The result slot
  stays occupied, whatever happens, until the operation completes; that completion still wakes
  the object the dropped future was polled with, and only then are the slot and the pending
  entry free.
\<close>

theorem oneshot_drop_not_cancelled:
  assumes "reactor_deps D" "reachable D s" "ones s h = Some (OS_Submitted k)"
    and "pend_of D s ud = Some \<lparr>assoc_obj = ob, result_slab_idx = k, kind = Oneshot\<rparr>"
    and "\<forall>ev\<in>set evs. \<not> completes ud ev" "cqe_user_data c = ud"
  shows "\<exists>s1. rstep D (DropOneshot h) s = Inr s1 \<and> uring (ri s1) = uring (ri s)
    \<and> (\<forall>s2. rsteps D s1 evs s2 \<longrightarrow> slab_get (one D) (get_oneshot (ri s2)) k = Some RS_Dropped
        \<and> (\<exists>s3. complete_cqe D c s2 = Inr (ob, s3) \<and> slab_get (one D) (get_oneshot (ri s3)) k = None \<and> pend_of D s3 ud = None))"
proof -
  note inv = reactor_deps.reachable_inv [OF assms(1,2)]
  have slot: "slab_get (one D) (get_oneshot (ri s)) k = Some RS_Pending"
    by (rule reactor_deps.submitted_pending [OF assms(1) inv assms(3,4)])
  from reactor_deps.drop_abandons [OF assms(1,3) slot assms(4)] obtain s1 where
    s1: "rstep D (DropOneshot h) s = Inr s1" "uring (ri s1) = uring (ri s)" "reactor_deps.abandoned D s1 ud ob k" by blast
  have inv1: "rinv D s1" by (rule reactor_deps.rstep_inv [OF assms(1) inv _ s1(1)]) (simp add: assms(3))
  have "slab_get (one D) (get_oneshot (ri s2)) k = Some RS_Dropped
      \<and> (\<exists>s3. complete_cqe D c s2 = Inr (ob, s3) \<and> slab_get (one D) (get_oneshot (ri s3)) k = None \<and> pend_of D s3 ud = None)"
    if "rsteps D s1 evs s2" for s2
  proof -
    have "reactor_deps.abandoned D s2 (cqe_user_data c) ob k"
      using reactor_deps.rsteps_abandoned [OF assms(1) that inv1 s1(3) assms(5)] assms(6) by simp
    from reactor_deps.complete_abandoned [OF assms(1) reactor_deps.rsteps_inv [OF assms(1) that inv1] this] this assms(6)
    show ?thesis by (simp add: reactor_deps.abandoned_def [OF assms(1)])
  qed
  with s1 show ?thesis by blast
qed

theorem oneshot_drop_not_cancelled_witness:
  "\<exists>s s1 s3. reachable ring0 s \<and> rstep ring0 (DropOneshot 0) s = Inr s1 \<and> ones s1 = Map.empty
     \<and> map entry_op (sr_sq (uring (ri s1))) = [Op_Read 3 (InFuture ''buf'') 8 None]
     \<and> slab_get (one ring0) (get_oneshot (ri s1)) 0 = Some RS_Dropped
     \<and> complete_cqe ring0 (cqe0 8 0) s1 = Inr (7, s3) \<and> slab_get (one ring0) (get_oneshot (ri s3)) 0 = None"
proof -
  obtain s s1 where s: "rrun_init ring0 [NewOneshot 0, PollOneshot 0 entry0 7] = Inr s" "ones s 0 = Some (OS_Submitted 0)"
      "pend_of ring0 s 0 = Some \<lparr>assoc_obj = 7, result_slab_idx = 0, kind = Oneshot\<rparr>"
      "map entry_op (sr_sq (uring (ri s))) = [Op_Read 3 (InFuture ''buf'') 8 None]"
      "rstep ring0 (DropOneshot 0) s = Inr s1" "ones s1 = Map.empty"
    by (simp add: reactor_eval pend_of_def)
  note r = rrun_init_reachable [OF s(1)]
  from oneshot_drop_not_cancelled [OF ring0_deps r s(2,3), of "[]" "cqe0 8 0"] s(4-6) r show ?thesis
    by (auto simp: rsteps_simps)
qed

text \<open>
  C27. If the ring answers a cancellation of an operation that is not in flight with an error,
  as the kernel does, then dropping a multishot handle after its operation has ended panics.
\<close>

theorem multishot_drop_after_end_panics:
  assumes "reactor_deps D" "reachable D s" "multis s h = Some (MS_Submitted k ud)"
    and "slab_get (multi D) (get_multishot (ri s)) k = Some e" "ms_finished e"
    and not_found: "\<And>ud. inflight s ud = None \<Longrightarrow>
      fst (uring_register_sync_cancel (ur D) (uring (ri s)) ud) \<noteq> None"
  shows "rstep D (DropMultishot h) s
    = Inl (ExpectErr ''Should be able to cancel in-flight multishot IO'')"
proof -
  note inv = reactor_deps.reachable_inv [OF assms(1,2)]
  have "inflight s ud = None" by (rule reactor_deps.finished_not_inflight [OF assms(1-5)])
  from not_found [OF this] reactor_deps.drop_multishot_cases [OF assms(1) inv assms(3)] show ?thesis
    by auto
qed

theorem multishot_drop_after_end_panics_witness:
  "\<exists>s. reachable (script_deps [] (\<lambda>_. Some 2) :: nat script_deps) s
     \<and> rstep (script_deps [] (\<lambda>_. Some 2)) (DropMultishot 0) s
       = Inl (ExpectErr ''Should be able to cancel in-flight multishot IO'')"
proof -
  let ?D = "script_deps [] (\<lambda>_. Some 2) :: nat script_deps"
  obtain s e where s: "rrun_init ?D [NewMultishot 0, PollMultishot 0 entry0 7, Complete (cqe0 5 0)] = Inr s"
      "multis s 0 = Some (MS_Submitted 0 0)"
      "slab_get (multi ?D) (get_multishot (ri s)) 0 = Some e" "ms_finished e"
      "\<And>ud. fst (uring_register_sync_cancel (ur ?D) (uring (ri s)) ud) \<noteq> None"
    by (simp add: reactor_eval)
  note r = rrun_init_reachable [OF s(1)]
  from multishot_drop_after_end_panics [OF scr.reactor_deps_axioms r s(2-5)] r show ?thesis by blast
qed

end
