(* ===== verification/OneshotFuture.thy ===== *)
theory OneshotFuture
  imports RingEval
begin

text \<open>
  The contract of the futures that wait for one operation of the ring. Each of them keeps a
  \<open>OneshotUringIo\<close>, builds the entry of its operation at its first poll and maps the
  result of a later one. \<open>future_delivers\<close> is the abstract specification; the locale
  \<open>oneshot_future\<close> is the shape of the implementations, from which the specification is
  derived once. The futures themselves are in the theories that follow, each with its
  interpretation.
\<close>

type_synonym ('u, 'ps, 'os, 'ms, 't, 'f, 'r) fpoll =
  "'t \<Rightarrow> 'f \<Rightarrow> ('u, 'ps, 'os, 'ms) inner \<Rightarrow> ('r Poll \<times> 'f \<times> ('u, 'ps, 'os, 'ms) inner) rs"

text \<open>
  \<open>io\<close> is the handle inside the future, \<open>prep\<close> what the closure does at the first poll
  (the entry, and the future with its headers filled in), \<open>out\<close> the output made of the
  result and of what the kernel has left in the memory of the future.

  The first poll submits the entry with the waker \<open>w\<close> it was given and is pending. Whatever
  the rest of the program does then, the completion of the operation yields \<open>w\<close>, and the
  next poll is ready with the output for the result that completion carried.
\<close>

definition future_delivers :: "('u, 'ps, 'os, 'ms, 'rb, 't) deps \<Rightarrow>
    ('u, 'ps, 'os, 'ms, 't, 'f, 'r) fpoll \<Rightarrow> ('f \<Rightarrow> OneshotIoState) \<Rightarrow> ('f \<Rightarrow> (Entry \<times> 'f) rs) \<Rightarrow>
    ('f \<Rightarrow> i32 io_result \<Rightarrow> 'r) \<Rightarrow> bool" where
  "future_delivers D poll io prep out \<longleftrightarrow>
     (\<forall>s h f w p f1 i1. reachable D s \<longrightarrow> ones s h = Some OS_New \<longrightarrow> io f = OS_New \<longrightarrow>
        poll w f (ri s) = Inr (p, f1, i1) \<longrightarrow>
        p = Poll_Pending \<and>
        (\<exists>e f0 s1. prep f = Inr (e, f0) \<and> rstep D (PollOneshot h e w) s = Inr s1 \<and> ri s1 = i1
          \<and> ones s1 h = Some (io f1) \<and>
          (\<forall>evs s2 c. rsteps D s1 evs s2 \<longrightarrow>
             (\<forall>ev\<in>set evs. \<not> uses_oneshot h ev \<and> \<not> completes (next_ud D s) ev) \<longrightarrow>
             cqe_user_data c = next_ud D s \<longrightarrow>
             (\<exists>s3. complete_cqe D c s2 = Inr (w, s3) \<and>
               (\<forall>evs' s4 f2 w'. rsteps D s3 evs' s4 \<longrightarrow> (\<forall>ev\<in>set evs'. \<not> uses_oneshot h ev) \<longrightarrow>
                  io f2 = io f1 \<longrightarrow>
                  (\<exists>f3 i5. poll w' f2 (ri s4)
                     = Inr (Poll_Ready (out f2 (reactor_value_to_result (cqe_result c))), f3, i5)))))))"

locale oneshot_future = reactor_deps D
  for D :: "('u, 'ps, 'os, 'ms, 'rb, 't) deps" +
  fixes poll :: "('u, 'ps, 'os, 'ms, 't, 'f, 'r) fpoll"
    and io :: "'f \<Rightarrow> OneshotIoState"
    and prep :: "'f \<Rightarrow> (Entry \<times> 'f) rs"
    and out :: "'f \<Rightarrow> i32 io_result \<Rightarrow> 'r"
  assumes poll_new: "io f = OS_New \<Longrightarrow> poll w f i = Inr (p, f1, i1) \<Longrightarrow>
      \<exists>e f0 ud k. prep f = Inr (e, f0) \<and> submit_io D i e w Oneshot = Inr ((ud, k), i1)
        \<and> p = Poll_Pending \<and> io f1 = OS_Submitted k"
    and poll_later: "io f \<noteq> OS_New \<Longrightarrow>
      oneshot_submit_or_get_result D (\<lambda>w. Inr ((e, ob), w)) (io f) i () = Inr (q, st, i1, u) \<Longrightarrow>
      \<exists>f1. poll w f i = Inr (map_poll (out f) q, f1, i1) \<and> io f1 = st"
begin

lemma first_poll:
  assumes "ones s h = Some OS_New" "io f = OS_New" "poll w f (ri s) = Inr (p, f1, i1)"
  obtains e f0 s1 where "prep f = Inr (e, f0)" "poll_oneshot D h e w s = Inr (Poll_Pending, s1)"
    "ri s1 = i1" "ones s1 h = Some (io f1)" "p = Poll_Pending"
proof -
  from poll_new [OF assms(2,3)] obtain e f0 ud k where
    e: "prep f = Inr (e, f0)" "submit_io D (ri s) e w Oneshot = Inr ((ud, k), i1)"
      "p = Poll_Pending" "io f1 = OS_Submitted k" by blast
  with assms(1) that show thesis
    by (simp add: poll_oneshot_def oneshot_submit_or_get_result_def poll_of_state_def)
qed

lemma result_poll:
  assumes "has_result s h r" "ones s h = Some (io f)"
  shows "\<exists>f3 i3. poll w f (ri s) = Inr (Poll_Ready (out f (reactor_value_to_result r)), f3, i3)"
proof -
  obtain k where k: "io f = OS_Submitted k" using assms by (auto simp: has_result_def)
  from poll_has_result [OF assms(1), of undefined undefined] assms(2) obtain st i u where
    "oneshot_submit_or_get_result D (\<lambda>w. Inr ((undefined, undefined), w)) (io f) (ri s) ()
      = Inr (Poll_Ready (reactor_value_to_result r), st, i, u)"
    by (auto simp: poll_oneshot_def rbind_eq_Inr)
  from poll_later [OF _ this, of w] k show ?thesis by auto
qed

lemma delivers: "future_delivers D poll io prep out"
proof (unfold future_delivers_def, intro allI impI, goal_cases)
  case (1 s h f w p f1 i1)
  note inv = reachable_inv [OF 1(1)]
  from first_poll [OF 1(2-4)] obtain e f0 s1 where e: "prep f = Inr (e, f0)"
    "poll_oneshot D h e w s = Inr (Poll_Pending, s1)" "ri s1 = i1" "ones s1 h = Some (io f1)"
    "p = Poll_Pending" .
  have step: "rstep D (PollOneshot h e w) s = Inr s1" using e(2) by simp
  have "\<exists>s3. complete_cqe D c s2 = Inr (w, s3) \<and>
      (\<forall>evs' s4 f2 w'. rsteps D s3 evs' s4 \<longrightarrow> (\<forall>ev\<in>set evs'. \<not> uses_oneshot h ev) \<longrightarrow> io f2 = io f1 \<longrightarrow>
        (\<exists>f3 i5. poll w' f2 (ri s4)
           = Inr (Poll_Ready (out f2 (reactor_value_to_result (cqe_result c))), f3, i5)))"
    if run: "rsteps D s1 evs s2" "\<forall>ev\<in>set evs. \<not> uses_oneshot h ev \<and> \<not> completes (next_ud D s) ev"
      "cqe_user_data c = next_ud D s" for evs s2 c
  proof -
    from delivery [OF inv 1(2) e(2) run] obtain s3 where c: "complete_cqe D c s2 = Inr (w, s3)"
      and res: "\<And>evs' s4. rsteps D s3 evs' s4 \<Longrightarrow> \<forall>ev\<in>set evs'. \<not> uses_oneshot h ev \<Longrightarrow>
        has_result s4 h (cqe_result c) \<and> ones s4 h = ones s1 h" by blast
    have "\<exists>f3 i5. poll w' f2 (ri s4)
        = Inr (Poll_Ready (out f2 (reactor_value_to_result (cqe_result c))), f3, i5)"
      if "rsteps D s3 evs' s4" "\<forall>ev\<in>set evs'. \<not> uses_oneshot h ev" "io f2 = io f1" for evs' s4 f2 w'
      using res [OF that(1,2)] that(3) e(4) by (intro result_poll [where h = h]) simp_all
    with c show ?thesis by blast
  qed
  with e step show ?case by blast
qed

end

text \<open>
  How the futures meet the contract: the closure works on the future itself, and after the
  call the future gets its new handle (\<open>upd\<close>, which may depend on the answer).
\<close>

context reactor_deps
begin

lemma oneshot_futureI:
  assumes poll: "\<And>w f i. poll w f i =
      rbind (oneshot_submit_or_get_result D (\<lambda>f. rbind (prep f) (\<lambda>(e, f0). Inr ((e, w), f0))) (io f) i f)
        (\<lambda>(x, io', i', f'). Inr (map_poll (out f') x, upd x io' f', i'))"
    and io: "\<And>x st f. io (upd x st f) = st"
  shows "oneshot_future D poll io prep out"
proof unfold_locales
  fix f w i p f1 i1 assume "io f = OS_New" "poll w f i = Inr (p, f1, i1)"
  then show "\<exists>e f0 ud k. prep f = Inr (e, f0) \<and> submit_io D i e w Oneshot = Inr ((ud, k), i1)
      \<and> p = Poll_Pending \<and> io f1 = OS_Submitted k"
    by (auto simp: poll rbind_eq_Inr oneshot_first io)
next
  fix f e ob i q st i1 u w
  assume later: "io f \<noteq> OS_New"
    "oneshot_submit_or_get_result D (\<lambda>w. Inr ((e, ob), w)) (io f) i () = Inr (q, st, i1, u)"
  show "\<exists>f1. poll w f i = Inr (map_poll (out f) q, f1, i1) \<and> io f1 = st"
    by (simp add: poll io oneshot_later [OF later])
qed

end

text \<open>The shortest run of a future that delivers: first poll, completion, second poll.\<close>

lemma delivers_run:
  assumes del: "future_delivers D poll io prep out"
    and s: "reachable D s" "ones s h = Some OS_New" "io f = OS_New"
    and poll: "poll w f (ri s) = Inr (p, f1, i1)"
  shows "p = Poll_Pending \<and> (\<exists>e f0 s1 s3 f3 i5. prep f = Inr (e, f0)
    \<and> rstep D (PollOneshot h e w) s = Inr s1 \<and> ri s1 = i1
    \<and> complete_cqe D \<lparr>cqe_user_data = next_ud D s, cqe_result = r, cqe_flags = fl\<rparr> s1 = Inr (w, s3)
    \<and> poll w f1 (ri s3) = Inr (Poll_Ready (out f1 (reactor_value_to_result r)), f3, i5))"
proof -
  let ?c = "\<lparr>cqe_user_data = next_ud D s, cqe_result = r, cqe_flags = fl\<rparr>"
  from del [unfolded future_delivers_def, rule_format, OF s poll] obtain e f0 s1 where
    1: "p = Poll_Pending" "prep f = Inr (e, f0)" "rstep D (PollOneshot h e w) s = Inr s1" "ri s1 = i1"
    and rest: "\<And>evs s2 c. rsteps D s1 evs s2 \<Longrightarrow>
       \<forall>ev\<in>set evs. \<not> uses_oneshot h ev \<and> \<not> completes (next_ud D s) ev \<Longrightarrow>
       cqe_user_data c = next_ud D s \<Longrightarrow> \<exists>s3. complete_cqe D c s2 = Inr (w, s3) \<and>
       (\<forall>evs' s4 f2 w'. rsteps D s3 evs' s4 \<longrightarrow> (\<forall>ev\<in>set evs'. \<not> uses_oneshot h ev) \<longrightarrow> io f2 = io f1 \<longrightarrow>
         (\<exists>f3 i5. poll w' f2 (ri s4)
            = Inr (Poll_Ready (out f2 (reactor_value_to_result (cqe_result c))), f3, i5)))"
    by blast
  from rest [OF rsteps_nil, of ?c] obtain s3 where s3: "complete_cqe D ?c s1 = Inr (w, s3)"
    and next_poll: "\<And>evs' s4 f2 w'. rsteps D s3 evs' s4 \<Longrightarrow> \<forall>ev\<in>set evs'. \<not> uses_oneshot h ev \<Longrightarrow>
       io f2 = io f1 \<Longrightarrow>
       \<exists>f3 i5. poll w' f2 (ri s4) = Inr (Poll_Ready (out f2 (reactor_value_to_result r)), f3, i5)"
    by auto
  have "\<exists>f3 i5. poll w f1 (ri s3) = Inr (Poll_Ready (out f1 (reactor_value_to_result r)), f3, i5)"
    using next_poll [OF rsteps_nil] by simp
  with 1 s3 show ?thesis by blast
qed

lemma fresh_run:
  assumes "future_delivers ring0 poll io prep out" "io f = OS_New" "poll w f (ri fresh) = Inr (p, f1, i1)"
  shows "\<exists>s3 f3 i5. poll w f (ri fresh) = Inr (Poll_Pending, f1, i1)
    \<and> poll w f1 (ri s3) = Inr (Poll_Ready (out f1 (reactor_value_to_result r)), f3, i5)
    \<and> reachable ring0 s3"
proof -
  let ?c = "\<lparr>cqe_user_data = next_ud ring0 fresh, cqe_result = r, cqe_flags = 0\<rparr>"
  from delivers_run [OF assms(1) fresh_reachable fresh_new assms(2,3), of r 0] obtain e f0 s1 s3 f3 i5 where
    1: "p = Poll_Pending" "rstep ring0 (PollOneshot 0 e w) fresh = Inr s1"
      "complete_cqe ring0 ?c s1 = Inr (w, s3)"
      "poll w f1 (ri s3) = Inr (Poll_Ready (out f1 (reactor_value_to_result r)), f3, i5)" by blast
  have r1: "reachable ring0 s1" by (rule reachable.step [OF fresh_reachable _ 1(2)]) simp
  have "inflight s1 (cqe_user_data ?c) \<noteq> None"
    using 1(2) by (auto simp: poll_oneshot_def rbind_eq_Inr)
  then have "reachable ring0 s3"
    using 1(3) by (intro reachable.step [OF r1, of "Complete ?c"]) simp_all
  with 1 assms(3) show ?thesis by blast
qed

end
