(* ===== verification/SockAddr.thy ===== *)
theory SockAddr
  imports Prelude
begin

text \<open>
  Socket addresses, \<open>src/src/futures/sock_addr.rs\<close>: the conversion of a
  \<open>std::net::SocketAddr\<close> to the C structure the kernel reads, and back.

  The union \<open>CSockAddrs\<close> is its bytes in memory, with the layout \<open>sockaddr_in\<close> and
  \<open>sockaddr_in6\<close> have on Linux, so that reading one variant after the other was written is
  what the hardware does. A multi-byte field is stored in the byte order of the host, the
  argument \<open>le\<close> (true for little-endian): \<open>htons\<close> and its kin depend on it too.
\<close>

type_synonym u8 = "8 word"
type_synonym u128 = "128 word"

subsection \<open>Bytes of a word\<close>

definition be_bytes :: "nat \<Rightarrow> 'a::len word \<Rightarrow> u8 list" where
  "be_bytes n w = map (\<lambda>i. ucast (drop_bit (8 * i) w)) (rev [0..<n])"

definition ne_bytes :: "bool \<Rightarrow> nat \<Rightarrow> 'a::len word \<Rightarrow> u8 list" where
  "ne_bytes le n w = (if le then rev (be_bytes n w) else be_bytes n w)"

definition of_be_bytes :: "u8 list \<Rightarrow> 'a::len word" where
  "of_be_bytes bs = word_rcat bs"

definition of_ne_bytes :: "bool \<Rightarrow> u8 list \<Rightarrow> 'a::len word" where
  "of_ne_bytes le bs = of_be_bytes (if le then rev bs else bs)"

text \<open>Host to network order and back; on either kind of host the two are the same function.\<close>

definition swap_bytes :: "nat \<Rightarrow> 'a::len word \<Rightarrow> 'a word" where
  "swap_bytes n w = of_be_bytes (rev (be_bytes n w))"

definition htons :: "bool \<Rightarrow> u16 \<Rightarrow> u16" where
  "htons le w = (if le then swap_bytes 2 w else w)"

definition htonl :: "bool \<Rightarrow> u32 \<Rightarrow> u32" where
  "htonl le w = (if le then swap_bytes 4 w else w)"

abbreviation ntohs :: "bool \<Rightarrow> u16 \<Rightarrow> u16" where "ntohs \<equiv> htons"
abbreviation ntohl :: "bool \<Rightarrow> u32 \<Rightarrow> u32" where "ntohl \<equiv> htonl"

lemma length_be_bytes [simp]: "length (be_bytes n w) = n"
  by (simp add: be_bytes_def)

lemma length_ne_bytes [simp]: "length (ne_bytes le n w) = n"
  by (simp add: ne_bytes_def)

lemma bit_of_be_bytes:
  "bit (of_be_bytes bs :: 'a::len word) n \<longleftrightarrow>
     n < LENGTH('a) \<and> n div 8 < length bs \<and> bit (rev bs ! (n div 8)) (n mod 8)"
  using bit_horner_sum_uint_exp_iff [of "rev bs" n]
  by (simp add: of_be_bytes_def word_rcat_def bit_word_of_int_iff)

lemma of_be_bytes_be_bytes [simp]:
  "LENGTH('a) = 8 * n \<Longrightarrow> of_be_bytes (be_bytes n w) = (w :: 'a::len word)"
  by (rule bit_word_eqI)
     (auto simp: bit_of_be_bytes be_bytes_def rev_map bit_ucast_iff bit_drop_bit_eq less_mult_imp_div_less)

lemma be_bytes_of_be_bytes [simp]:
  assumes "LENGTH('a::len) = 8 * length bs"
  shows "be_bytes (length bs) (of_be_bytes bs :: 'a word) = bs"
proof (rule nth_equalityI)
  fix i assume i: "i < length (be_bytes (length bs) (of_be_bytes bs :: 'a word))"
  then have i': "i < length bs" by simp
  have bound: "8 * (length bs - Suc i) + k < 8 * length bs" if "k < 8" for k
    using i' that by arith
  have "bit (be_bytes (length bs) (of_be_bytes bs :: 'a word) ! i) k \<longleftrightarrow> bit (bs ! i) k" if "k < 8" for k
    using i' that assms bound [OF that]
    by (simp add: be_bytes_def rev_map rev_nth bit_ucast_iff bit_drop_bit_eq bit_of_be_bytes)
  then show "be_bytes (length bs) (of_be_bytes bs :: 'a word) ! i = bs ! i"
    by (intro bit_word_eqI) simp
qed simp

lemma be_bytes_of_be_bytes' [simp]:
  "length bs = n \<Longrightarrow> LENGTH('a::len) = 8 * n \<Longrightarrow> be_bytes n (of_be_bytes bs :: 'a word) = bs"
  using be_bytes_of_be_bytes by blast

lemma of_ne_bytes_ne_bytes [simp]:
  "LENGTH('a) = 8 * n \<Longrightarrow> of_ne_bytes le (ne_bytes le n w) = (w :: 'a::len word)"
  by (simp add: of_ne_bytes_def ne_bytes_def)

text \<open>Stored in memory, a converted value has the bytes of network order on every host.\<close>

lemma ne_bytes_htons [simp]: "ne_bytes le 2 (htons le w) = be_bytes 2 w"
  by (simp add: ne_bytes_def htons_def swap_bytes_def)

lemma ne_bytes_htonl [simp]: "ne_bytes le 4 (htonl le w) = be_bytes 4 w"
  by (simp add: ne_bytes_def htonl_def swap_bytes_def)

lemma ntohs_of_ne_bytes: "length bs = 2 \<Longrightarrow> ntohs le (of_ne_bytes le bs) = of_be_bytes bs"
  by (simp add: of_ne_bytes_def htons_def swap_bytes_def)

lemma ntohl_of_ne_bytes: "length bs = 4 \<Longrightarrow> ntohl le (of_ne_bytes le bs) = of_be_bytes bs"
  by (simp add: of_ne_bytes_def htonl_def swap_bytes_def)

lemmas network_order = ntohs_of_ne_bytes ntohl_of_ne_bytes

subsection \<open>Fields in memory\<close>

definition put_bytes :: "nat \<Rightarrow> u8 list \<Rightarrow> u8 list \<Rightarrow> u8 list" where
  "put_bytes off bs mem = take off mem @ bs @ drop (off + length bs) mem"

definition get_bytes :: "nat \<Rightarrow> nat \<Rightarrow> u8 list \<Rightarrow> u8 list" where
  "get_bytes off n mem = take n (drop off mem)"

lemma length_put_bytes [simp]: "off + length bs \<le> length mem \<Longrightarrow> length (put_bytes off bs mem) = length mem"
  by (simp add: put_bytes_def)

lemma length_get_bytes [simp]: "off + n \<le> length mem \<Longrightarrow> length (get_bytes off n mem) = n"
  by (simp add: get_bytes_def)

lemma get_put_same [simp]:
  "n = length bs \<Longrightarrow> off + n \<le> length mem \<Longrightarrow> get_bytes off n (put_bytes off bs mem) = bs"
  by (simp add: get_bytes_def put_bytes_def)

lemma get_put_before:
  "o1 + n \<le> o2 \<Longrightarrow> o2 + length bs \<le> length mem \<Longrightarrow>
     get_bytes o1 n (put_bytes o2 bs mem) = get_bytes o1 n mem"
  by (simp add: get_bytes_def put_bytes_def drop_take min_def) linarith

lemma get_put_after:
  "o2 + length bs \<le> o1 \<Longrightarrow> o2 + length bs \<le> length mem \<Longrightarrow>
     get_bytes o1 n (put_bytes o2 bs mem) = get_bytes o1 n mem"
  by (simp add: get_bytes_def put_bytes_def min_def)

lemma get_put_other [simp]:
  "o1 + n \<le> o2 \<or> o2 + length bs \<le> o1 \<Longrightarrow> o2 + length bs \<le> length mem \<Longrightarrow>
     get_bytes o1 n (put_bytes o2 bs mem) = get_bytes o1 n mem"
  using get_put_before get_put_after by blast

lemma get_bytes_zeros [simp]: "off + n \<le> m \<Longrightarrow> get_bytes off n (replicate m 0) = replicate n 0"
  by (simp add: get_bytes_def)

lemma of_ne_bytes_zeros [simp]: "of_ne_bytes le (replicate n 0) = 0"
  by (rule bit_word_eqI) (auto simp: of_ne_bytes_def bit_of_be_bytes)

subsection \<open>Addresses\<close>

text \<open>
  \<open>std::net::SocketAddr\<close>: the address as the number \<open>to_bits\<close> gives, the port, and for
  version 6 the flow information and the scope.
\<close>

datatype SocketAddr = V4 u32 u16 | V6 u128 u16 u32 u32

fun is_ipv4 :: "SocketAddr \<Rightarrow> bool" where
  "is_ipv4 (V4 _ _) = True"
| "is_ipv4 (V6 _ _ _ _) = False"

abbreviation (input) AF_INET :: i32 where "AF_INET \<equiv> 2"
abbreviation (input) AF_INET6 :: i32 where "AF_INET6 \<equiv> 10"

text \<open>
  Sizes and offsets: family at 0 and port at 2 in both; the address at 4 in \<open>sockaddr_in\<close>;
  flow information at 4, address at 8 and scope at 24 in \<open>sockaddr_in6\<close>.
\<close>

abbreviation (input) V4_LEN :: usize where "V4_LEN \<equiv> 16"
abbreviation (input) V6_LEN :: usize where "V6_LEN \<equiv> 28"

record CSockAddr =
  addr :: "u8 list"
  len :: usize

definition zeroed_addr :: "u8 list" where
  "zeroed_addr = replicate V6_LEN 0"

fun csock_from :: "bool \<Rightarrow> SocketAddr \<Rightarrow> CSockAddr" where
  "csock_from le (V4 ip port) =
     (let m0 = zeroed_addr;
          m1 = put_bytes 0 (ne_bytes le 2 (ucast AF_INET :: u16)) m0;
          m2 = put_bytes 4 (ne_bytes le 4 (htonl le ip)) m1;
          m3 = put_bytes 2 (ne_bytes le 2 (htons le port)) m2
      in \<lparr>addr = m3, len = V4_LEN\<rparr>)"
| "csock_from le (V6 ip port flowinfo scope_id) =
     (let m0 = zeroed_addr;
          m1 = put_bytes 0 (ne_bytes le 2 (ucast AF_INET6 :: u16)) m0;
          m2 = put_bytes 8 (be_bytes 16 ip) m1;
          m3 = put_bytes 2 (ne_bytes le 2 (htons le port)) m2
      in \<lparr>addr = m3, len = V6_LEN\<rparr>)"

definition csock_try_into :: "bool \<Rightarrow> CSockAddr \<Rightarrow> SocketAddr io_result" where
  "csock_try_into le value =
     (if len value = V4_LEN then
        Inr (V4 (ntohl le (of_ne_bytes le (get_bytes 4 4 (addr value))))
                (ntohs le (of_ne_bytes le (get_bytes 2 2 (addr value)))))
      else if len value = V6_LEN then
        Inr (V6 (of_be_bytes (get_bytes 8 16 (addr value)))
                (ntohs le (of_ne_bytes le (get_bytes 2 2 (addr value))))
                (of_ne_bytes le (get_bytes 4 4 (addr value)))
                (of_ne_bytes le (get_bytes 24 4 (addr value))))
      else Inl (SimpleError InvalidData))"

lemma length_zeroed_addr [simp]: "length zeroed_addr = V6_LEN"
  by (simp add: zeroed_addr_def)

lemma length_csock_from [simp]: "length (addr (csock_from le a)) = V6_LEN"
  by (cases a) (simp_all add: Let_def)

text \<open>What an address keeps on its way through the C structure.\<close>

fun without_flow_scope :: "SocketAddr \<Rightarrow> SocketAddr" where
  "without_flow_scope (V4 ip port) = V4 ip port"
| "without_flow_scope (V6 ip port _ _) = V6 ip port 0 0"

lemma csock_from_fields:
  "get_bytes 2 2 (addr (csock_from le (V4 ip port))) = be_bytes 2 port"
  "get_bytes 4 4 (addr (csock_from le (V4 ip port))) = be_bytes 4 ip"
  "get_bytes 2 2 (addr (csock_from le (V6 ip6 port fl sc))) = be_bytes 2 port"
  "get_bytes 8 16 (addr (csock_from le (V6 ip6 port fl sc))) = be_bytes 16 ip6"
  "get_bytes 4 4 (addr (csock_from le (V6 ip6 port fl sc))) = replicate 4 0"
  "get_bytes 24 4 (addr (csock_from le (V6 ip6 port fl sc))) = replicate 4 0"
  by (simp_all add: Let_def) (simp_all add: zeroed_addr_def)

lemma csock_from_len: "len (csock_from le (V4 ip port)) = V4_LEN"
  "len (csock_from le (V6 ip6 port fl sc)) = V6_LEN"
  by (simp_all add: Let_def)

lemma csock_roundtrip: "csock_try_into le (csock_from le a) = Inr (without_flow_scope a)"
  by (cases a) (simp_all add: csock_try_into_def csock_from_fields csock_from_len network_order
    del: csock_from.simps)

subsection \<open>Properties\<close>

text \<open>
  C28. An address survives the way to the C structure and back, on hosts of either byte order,
  except for the flow information and the scope of a version 6 address, which come back as 0.
\<close>

theorem sock_addr_roundtrip:
  "csock_try_into le (csock_from le a) = Inr (without_flow_scope a)"
  by (rule csock_roundtrip)

text \<open>
  What the kernel reads. On hosts of either byte order the structure holds the port in
  network order at offset 2, and the address in network order at offset 4 for version 4 and at
  offset 8 for version 6, and its length names the variant.
\<close>

lemma sock_addr_network_order:
  "(case a of
      V4 ip port \<Rightarrow> len (csock_from le a) = V4_LEN
        \<and> get_bytes 2 2 (addr (csock_from le a)) = be_bytes 2 port
        \<and> get_bytes 4 4 (addr (csock_from le a)) = be_bytes 4 ip
    | V6 ip port _ _ \<Rightarrow> len (csock_from le a) = V6_LEN
        \<and> get_bytes 2 2 (addr (csock_from le a)) = be_bytes 2 port
        \<and> get_bytes 8 16 (addr (csock_from le a)) = be_bytes 16 ip)"
  by (cases a) (simp_all only: SocketAddr.case csock_from_fields csock_from_len)

end
