(* ===== verification/ReadWrite.thy ===== *)
theory ReadWrite
  imports OneshotFuture SockAddr
begin

text \<open>
  Reads and writes, \<open>src/src/futures/read.rs\<close> and \<open>write.rs\<close>: the futures behind
  \<open>AsyncRead::read\<close> and \<open>AsyncWrite::write\<close>. The buffer is borrowed from the caller. A
  seekable descriptor is read at its own position, which the ring takes the offset
  \<open>u64::MAX\<close> for.
\<close>

record AsyncReader =
  ar_fd :: i32
  ar_io :: OneshotIoState
  ar_buf :: "u8 list"
  ar_seekable :: bool

record AsyncWriter =
  aw_fd :: i32
  aw_io :: OneshotIoState
  aw_buf :: "u8 list"
  aw_seekable :: bool

definition reader_entry :: "AsyncReader \<Rightarrow> Entry" where
  "reader_entry this = build (Op_Read (ar_fd this) (Borrowed ''buf'') (usize_as_u32 (length (ar_buf this)))
     (Some (if ar_seekable this then - 1 else 0)))"

definition async_reader_poll ::
    "('u, 'ps, 'os, 'ms, 'rb, 't) deps \<Rightarrow> ('u, 'ps, 'os, 'ms, 't, AsyncReader, usize io_result) fpoll" where
  "async_reader_poll D waker this i =
     rbind (oneshot_submit_or_get_result D (\<lambda>this. Inr ((reader_entry this, waker), this)) (ar_io this) i this)
       (\<lambda>(x, io', i', this'). Inr (map_poll (map_io i32_as_usize) x, this'\<lparr>ar_io := io'\<rparr>, i'))"

definition writer_entry :: "AsyncWriter \<Rightarrow> Entry" where
  "writer_entry this = build (Op_Write (aw_fd this) (Borrowed ''buf'') (usize_as_u32 (length (aw_buf this)))
     (Some (if aw_seekable this then - 1 else 0)))"

definition async_writer_poll ::
    "('u, 'ps, 'os, 'ms, 'rb, 't) deps \<Rightarrow> ('u, 'ps, 'os, 'ms, 't, AsyncWriter, usize io_result) fpoll" where
  "async_writer_poll D waker this i =
     rbind (oneshot_submit_or_get_result D (\<lambda>this. Inr ((writer_entry this, waker), this)) (aw_io this) i this)
       (\<lambda>(x, io', i', this'). Inr (map_poll (map_io i32_as_usize) x, this'\<lparr>aw_io := io'\<rparr>, i'))"

sublocale reactor_deps \<subseteq> reader: oneshot_future D "async_reader_poll D" ar_io
    "\<lambda>f. Inr (reader_entry f, f)" "\<lambda>_. map_io i32_as_usize"
  by (rule oneshot_futureI [where upd = "\<lambda>_ st f. f\<lparr>ar_io := st\<rparr>"]) (simp_all add: async_reader_poll_def)

sublocale reactor_deps \<subseteq> writer: oneshot_future D "async_writer_poll D" aw_io
    "\<lambda>f. Inr (writer_entry f, f)" "\<lambda>_. map_io i32_as_usize"
  by (rule oneshot_futureI [where upd = "\<lambda>_ st f. f\<lparr>aw_io := st\<rparr>"]) (simp_all add: async_writer_poll_def)

context reactor_deps
begin

lemmas reader_delivers = reader.delivers
lemmas writer_delivers = writer.delivers

end

lemmas futures_eval = reactor_eval i32_as_usize_def usize_as_u32_def

text \<open>
  The length an operation asks for: that of the buffer, as long as it is below 4 GiB; a buffer of
  exactly 4 GiB asks for nothing.
\<close>

fun op_len :: "Opcode \<Rightarrow> u32" where
  "op_len (Op_Read _ _ n _) = n"
| "op_len (Op_Write _ _ n _) = n"
| "op_len _ = 0"

lemma read_write_len:
  "unat (op_len (entry_op (reader_entry r))) = length (ar_buf r) mod 2 ^ 32"
  "unat (op_len (entry_op (writer_entry w))) = length (aw_buf w) mod 2 ^ 32"
  by (simp_all add: reader_entry_def writer_entry_def build_def unat_usize_as_u32)

end
