(* ===== verification/Os.thy ===== *)
theory Os
  imports SockAddr
begin

text \<open>
  The system calls the library makes itself, beside those that go through the ring, and the
  parts of the standard library that stand for one (\<open>OwnedFd\<close>, \<open>SystemTime\<close>,
  \<open>std::net::UdpSocket\<close>, name lookup). They act on a state \<open>'w\<close> of the system and are
  arguments of the model: nothing is assumed of them but what a theorem names.

  A call that fails returns -1 and leaves its error number in \<open>errno\<close>. An \<open>OwnedFd\<close> is its
  number; where the source drops one, the model calls \<open>sys_close\<close>. Times are nanoseconds.
\<close>

type_synonym i64 = "64 word"

record 'w os_api =
  errno :: "'w \<Rightarrow> i32"
  sys_close :: "i32 \<Rightarrow> 'w \<Rightarrow> 'w"
  sys_dup :: "i32 \<Rightarrow> 'w \<Rightarrow> i32 io_result \<times> 'w"
  sys_eventfd :: "u32 \<Rightarrow> i32 \<Rightarrow> 'w \<Rightarrow> i32 \<times> 'w"
  sys_write :: "i32 \<Rightarrow> u8 list \<Rightarrow> 'w \<Rightarrow> i64 \<times> 'w"
  sys_lseek :: "i32 \<Rightarrow> i64 \<Rightarrow> i32 \<Rightarrow> 'w \<Rightarrow> i64 \<times> 'w"
  sys_timerfd_create :: "i32 \<Rightarrow> i32 \<Rightarrow> 'w \<Rightarrow> i32 \<times> 'w"
  sys_timerfd_settime :: "i32 \<Rightarrow> i32 \<Rightarrow> i64 \<Rightarrow> i64 \<Rightarrow> 'w \<Rightarrow> i32 \<times> 'w"
  sys_now :: "'w \<Rightarrow> int \<times> 'w"
  sys_socket :: "i32 \<Rightarrow> i32 \<Rightarrow> i32 \<Rightarrow> 'w \<Rightarrow> i32 \<times> 'w"
  sys_bind :: "i32 \<Rightarrow> u8 list \<Rightarrow> u32 \<Rightarrow> 'w \<Rightarrow> i32 \<times> 'w"
  sys_listen :: "i32 \<Rightarrow> i32 \<Rightarrow> 'w \<Rightarrow> i32 \<times> 'w"
  sys_udp_bind :: "SocketAddr list io_result \<Rightarrow> 'w \<Rightarrow> i32 io_result \<times> 'w"
  little_endian :: bool

definition last_os_error :: "'w os_api \<Rightarrow> 'w \<Rightarrow> io_error" where
  "last_os_error X w = OsError (errno X w)"

text \<open>Values of the Linux interface.\<close>

abbreviation (input) EFD_NONBLOCK :: i32 where "EFD_NONBLOCK \<equiv> 2048"
abbreviation (input) EFD_SEMAPHORE :: i32 where "EFD_SEMAPHORE \<equiv> 1"
abbreviation (input) CLOCK_MONOTONIC :: i32 where "CLOCK_MONOTONIC \<equiv> 1"
abbreviation (input) TFD_NONBLOCK :: i32 where "TFD_NONBLOCK \<equiv> 2048"
abbreviation (input) SOCK_STREAM :: i32 where "SOCK_STREAM \<equiv> 1"
abbreviation (input) O_RDWR :: i32 where "O_RDWR \<equiv> 2"
abbreviation (input) O_CREAT :: i32 where "O_CREAT \<equiv> 64"
abbreviation (input) AT_FDCWD :: i32 where "AT_FDCWD \<equiv> - 100"
abbreviation (input) SEEK_SET :: i32 where "SEEK_SET \<equiv> 0"
abbreviation (input) SEEK_CUR :: i32 where "SEEK_CUR \<equiv> 1"
abbreviation (input) SEEK_END :: i32 where "SEEK_END \<equiv> 2"

end
