(* ===== verification/SimOs.thy ===== *)
theory SimOs
  imports Os
begin

text \<open>
  A small simulated system, for evaluating the model on concrete inputs: descriptors name
  objects, an eventfd object is a counter, the clock gives scripted readings (the last one for
  ever), addresses whose bytes are listed cannot be bound, seeking past 1000 fails. It
  satisfies the contract of \<open>eventfd\<close> below.
\<close>

record sim =
  s_errno :: i32
  s_next :: i32
  s_tab :: "(i32 \<times> nat) list"
  s_count :: "nat \<Rightarrow> nat"
  s_clock :: "nat list"
  s_armed :: "(i32 \<times> i64 \<times> i64) list"
  s_refuse :: "u8 list list"
  s_noinet6 :: bool
  s_closed :: "i32 list"

definition sim0 :: sim where
  "sim0 = \<lparr>s_errno = 0, s_next = 3, s_tab = [], s_count = (\<lambda>_. 0), s_clock = [0],
     s_armed = [], s_refuse = [], s_noinet6 = False, s_closed = []\<rparr>"

definition fails :: "i32 \<Rightarrow> sim \<Rightarrow> i32 \<times> sim" where
  "fails e w = (- 1, w\<lparr>s_errno := e\<rparr>)"

abbreviation s_obj :: "sim \<Rightarrow> i32 \<rightharpoonup> nat" where
  "s_obj w \<equiv> map_of (s_tab w)"

definition free_fd :: "sim \<Rightarrow> bool" where
  "free_fd w \<longleftrightarrow> s_next w \<noteq> - 1 \<and> s_obj w (s_next w) = None"

definition new_obj :: "sim \<Rightarrow> nat" where
  "new_obj w = Suc (foldr max (map snd (s_tab w)) 0)"

definition fresh_fd :: "sim \<Rightarrow> i32 \<times> sim" where
  "fresh_fd w = (if free_fd w
     then (s_next w, w\<lparr>s_next := s_next w + 1, s_tab := (s_next w, new_obj w) # s_tab w\<rparr>)
     else fails 24 w)"

definition sim_write :: "i32 \<Rightarrow> u8 list \<Rightarrow> sim \<Rightarrow> i64 \<times> sim" where
  "sim_write fd bs w = (case s_obj w fd of
     None \<Rightarrow> (- 1, w\<lparr>s_errno := 9\<rparr>)
   | Some k \<Rightarrow> (if length bs = 8 \<and> s_count w k + unat (of_ne_bytes True bs :: u64) < 2 ^ 64 - 1
               then (8, w\<lparr>s_count := (s_count w)(k := s_count w k + unat (of_ne_bytes True bs :: u64))\<rparr>)
               else (- 1, w\<lparr>s_errno := 11\<rparr>)))"

definition sim_os :: "sim os_api" where
  "sim_os = \<lparr>
     errno = s_errno,
     sys_close = (\<lambda>fd w. w\<lparr>s_tab := filter (\<lambda>(d, _). d \<noteq> fd) (s_tab w), s_closed := fd # s_closed w\<rparr>),
     sys_dup = (\<lambda>fd w. case s_obj w fd of
          None \<Rightarrow> (Inl (OsError 9), w)
        | Some k \<Rightarrow> if free_fd w
            then (Inr (s_next w), w\<lparr>s_next := s_next w + 1, s_tab := (s_next w, k) # s_tab w\<rparr>)
            else (Inl (OsError 24), w)),
     sys_eventfd = (\<lambda>n flags w. if free_fd w
        then (let (fd, w1) = fresh_fd w in (fd, w1\<lparr>s_count := (s_count w)(new_obj w := unat n)\<rparr>))
        else fails 24 w),
     sys_write = sim_write,
     sys_lseek = (\<lambda>fd off whence w. if 1000 < uint off then (- 1, w\<lparr>s_errno := 22\<rparr>) else (off, w)),
     sys_timerfd_create = (\<lambda>clock flags w. fresh_fd w),
     sys_timerfd_settime = (\<lambda>fd flags sec nsec w. (0, w\<lparr>s_armed := (fd, sec, nsec) # s_armed w\<rparr>)),
     sys_now = (\<lambda>w. case s_clock w of
          [] \<Rightarrow> (0, w)
        | [t] \<Rightarrow> (int t, w)
        | t # ts \<Rightarrow> (int t, w\<lparr>s_clock := ts\<rparr>)),
     sys_socket = (\<lambda>family type proto w. if family = AF_INET6 \<and> s_noinet6 w then fails 97 w else fresh_fd w),
     sys_bind = (\<lambda>fd addr len w. if addr \<in> set (s_refuse w) then fails 98 w else (0, w)),
     sys_listen = (\<lambda>fd backlog w. (0, w)),
     sys_udp_bind = (\<lambda>addrs w. case addrs of Inl e \<Rightarrow> (Inl e, w) | Inr _ \<Rightarrow> (Inr (s_next w), snd (fresh_fd w))),
     little_endian = True \<rparr>"

lemmas sim_eval = sim_os_def sim0_def free_fd_def new_obj_def fresh_fd_def sim_write_def fails_def last_os_error_def

lemma new_obj_fresh: "new_obj w \<notin> ran (s_obj w)"
proof -
  have "k \<in> snd ` set xs \<Longrightarrow> k \<le> foldr max (map snd xs) 0" for k and xs :: "(i32 \<times> nat) list"
    by (induction xs) (auto simp: le_max_iff_disj image_iff)
  then have "k < new_obj w" if "k \<in> snd ` set (s_tab w)" for k
    using that by (simp add: new_obj_def less_Suc_eq_le)
  moreover have "ran (s_obj w) \<subseteq> snd ` set (s_tab w)" by (force simp: ran_def dest: map_of_SomeD)
  ultimately show ?thesis by blast
qed

lemma map_of_close: "map_of (filter (\<lambda>(d, _). d \<noteq> fd) xs) = (map_of xs)(fd := None)"
  by (induction xs) (auto simp: fun_eq_iff)

end
