(* ===== verification/Event.thy ===== *)
theory Event
  imports ReadWrite SimOs
begin

text \<open>
  Events, \<open>src/src/futures/event.rs\<close>: an eventfd with semaphore semantics, notified by a
  write of 1 and awaited by a read through the ring.
\<close>

unbundle bit_operations_syntax

record Event =
  evt_inner :: i32

record EventWaiter =
  ew_inner :: i32
  ew_io :: OneshotIoState
  ew_wait_buf :: "u8 list"

definition event_new :: "'w os_api \<Rightarrow> 'w \<Rightarrow> Event io_result \<times> 'w" where
  "event_new X w =
     (let (fd, w1) = sys_eventfd X 0 (EFD_NONBLOCK OR EFD_SEMAPHORE) w
      in if fd = - 1 then (Inl (last_os_error X w1), w1) else (Inr \<lparr>evt_inner = fd\<rparr>, w1))"

definition notify_one :: "'w os_api \<Rightarrow> Event \<Rightarrow> 'w \<Rightarrow> unit io_result \<times> 'w" where
  "notify_one X self w =
     (let buffer = ne_bytes (little_endian X) 8 (1 :: u64);
          (ret, w1) = sys_write X (evt_inner self) buffer w
      in if ret = - 1 then (Inl (last_os_error X w1), w1)
         else if unat ret \<noteq> length buffer
         then (Inl (CustomError UnexpectedEof ''Failed to write entire event fd buffer''), w1)
         else (Inr (), w1))"

definition event_wait :: "Event \<Rightarrow> EventWaiter" where
  "event_wait self = \<lparr>ew_inner = evt_inner self, ew_io = oneshot_io_new, ew_wait_buf = replicate 8 0\<rparr>"

definition event_clone :: "'w os_api \<Rightarrow> Event \<Rightarrow> 'w \<Rightarrow> (Event \<times> 'w) rs" where
  "event_clone X self w = (case sys_dup X (evt_inner self) w of
     (Inl e, w1) \<Rightarrow> Inl UnwrapErr
   | (Inr fd, w1) \<Rightarrow> Inr (\<lparr>evt_inner = fd\<rparr>, w1))"

definition event_drop :: "'w os_api \<Rightarrow> Event \<Rightarrow> 'w \<Rightarrow> 'w" where
  "event_drop X self w = sys_close X (evt_inner self) w"

definition event_waiter_entry :: "EventWaiter \<Rightarrow> Entry" where
  "event_waiter_entry this =
     build (Op_Read (ew_inner this) (InFuture ''wait_buf'') (usize_as_u32 (length (ew_wait_buf this))) None)"

definition event_waiter_poll ::
    "('u, 'ps, 'os, 'ms, 'rb, 't) deps \<Rightarrow> ('u, 'ps, 'os, 'ms, 't, EventWaiter, unit io_result) fpoll" where
  "event_waiter_poll D waker this i =
     rbind (oneshot_submit_or_get_result D (\<lambda>this. Inr ((event_waiter_entry this, waker), this))
              (ew_io this) i this) (\<lambda>(x, io', i', this').
     Inr (map_poll (map_io (\<lambda>_. ())) x, this'\<lparr>ew_io := io'\<rparr>, i'))"

definition event_waiter_drop :: "('u, 'ps, 'os, 'ms, 'rb, 't) deps \<Rightarrow> EventWaiter \<Rightarrow>
    ('u, 'ps, 'os, 'ms) inner \<Rightarrow> ('u, 'ps, 'os, 'ms) inner rs" where
  "event_waiter_drop D this i = oneshot_io_drop D (ew_io this) i"

sublocale reactor_deps \<subseteq> waiter: oneshot_future D "event_waiter_poll D" ew_io
    "\<lambda>f. Inr (event_waiter_entry f, f)" "\<lambda>_. map_io (\<lambda>_. ())"
  by (rule oneshot_futureI [where upd = "\<lambda>_ st f. f\<lparr>ew_io := st\<rparr>"]) (simp_all add: event_waiter_poll_def)

context reactor_deps
begin

lemmas waiter_delivers = waiter.delivers

end

subsection \<open>The contract of eventfd\<close>

text \<open>
  What the code relies on, over two observations of the system: \<open>obj\<close>, the object an open
  descriptor refers to, and \<open>count\<close>, the counter of an eventfd object. A new eventfd is a new
  object, a duplicate refers to the same object, and a write of eight bytes adds their value
  to the counter or fails without changing it.
\<close>

locale eventfd_os =
  fixes X :: "'w os_api" and obj :: "'w \<Rightarrow> i32 \<rightharpoonup> nat" and count :: "'w \<Rightarrow> nat \<Rightarrow> nat"
  assumes eventfd_new: "sys_eventfd X n flags w = (fd, w') \<Longrightarrow> fd \<noteq> - 1 \<Longrightarrow>
      \<exists>k. k \<notin> ran (obj w) \<and> obj w' = (obj w)(fd \<mapsto> k) \<and> count w' = (count w)(k := unat n)"
    and eventfd_write: "obj w fd = Some k \<Longrightarrow> sys_write X fd (ne_bytes (little_endian X) 8 (v :: u64)) w = (r, w') \<Longrightarrow>
      r = 8 \<and> obj w' = obj w \<and> count w' = (count w)(k := count w k + unat v)
      \<or> r = - 1 \<and> obj w' = obj w \<and> count w' = count w"
    and eventfd_dup: "sys_dup X fd w = (Inr fd', w') \<Longrightarrow>
      obj w fd' = None \<and> obj w' = (obj w)(fd' := obj w fd) \<and> count w' = count w"
    and eventfd_close: "obj (sys_close X fd w) = (obj w)(fd := None)" "count (sys_close X fd w) = count w"
begin

lemma event_new_ok:
  assumes "event_new X w = (Inr e, w')"
  obtains k where "k \<notin> ran (obj w)" "obj w' = (obj w)(evt_inner e \<mapsto> k)" "count w' = (count w)(k := 0)"
proof -
  from assms obtain fd where "sys_eventfd X 0 (EFD_NONBLOCK OR EFD_SEMAPHORE) w = (fd, w')" "fd \<noteq> - 1"
      "e = \<lparr>evt_inner = fd\<rparr>"
    by (auto simp: event_new_def split: prod.splits if_splits)
  with eventfd_new that show thesis by fastforce
qed

lemma notify_one_result:
  assumes "obj w (evt_inner e) = Some k" "notify_one X e w = (r, w')"
  shows "obj w' = obj w" "r = Inr () \<and> count w' = (count w)(k := Suc (count w k))
    \<or> (\<exists>err. r = Inl (OsError err)) \<and> count w' = count w"
proof -
  obtain ret where ret: "sys_write X (evt_inner e) (ne_bytes (little_endian X) 8 (1 :: u64)) w = (ret, w')"
      "r = (if ret = - 1 then Inl (last_os_error X w')
        else if unat ret \<noteq> 8 then Inl (CustomError UnexpectedEof ''Failed to write entire event fd buffer'')
        else Inr ())"
    using assms(2) by (auto simp: notify_one_def Let_def split: prod.splits if_splits)
  from eventfd_write [OF assms(1) ret(1)] ret(2) show "obj w' = obj w"
    "r = Inr () \<and> count w' = (count w)(k := Suc (count w k))
      \<or> (\<exists>err. r = Inl (OsError err)) \<and> count w' = count w"
    by (auto simp: last_os_error_def)
qed

lemma event_clone_same:
  assumes "event_clone X e w = Inr (e', w')"
  shows "obj w' = (obj w)(evt_inner e' := obj w (evt_inner e))" "obj w (evt_inner e') = None" "count w' = count w"
  using assms eventfd_dup by (auto simp: event_clone_def split: prod.splits sum.splits)

end

interpretation simev: eventfd_os sim_os s_obj s_count
proof unfold_locales
  fix n flags w fd w' assume "sys_eventfd sim_os n flags w = (fd, w')" "fd \<noteq> - 1"
  then show "\<exists>k. k \<notin> ran (s_obj w) \<and> s_obj w' = (s_obj w)(fd \<mapsto> k) \<and> s_count w' = (s_count w)(k := unat n)"
    using new_obj_fresh [of w]
    by (intro exI [of _ "new_obj w"]) (auto simp: sim_os_def fresh_fd_def fails_def split: if_splits)
next
  fix w fd k and v :: u64 and r w'
  assume "s_obj w fd = Some k" "sys_write sim_os fd (ne_bytes (little_endian sim_os) 8 v) w = (r, w')"
  then show "r = 8 \<and> s_obj w' = s_obj w \<and> s_count w' = (s_count w)(k := s_count w k + unat v)
      \<or> r = - 1 \<and> s_obj w' = s_obj w \<and> s_count w' = s_count w"
    by (auto simp: sim_os_def sim_write_def split: if_splits)
next
  fix fd w fd' w' assume "sys_dup sim_os fd w = (Inr fd', w')"
  then show "s_obj w fd' = None \<and> s_obj w' = (s_obj w)(fd' := s_obj w fd) \<and> s_count w' = s_count w"
    by (auto simp: sim_os_def free_fd_def split: option.splits if_splits)
qed (simp_all add: sim_os_def map_of_close)

subsection \<open>Properties\<close>

text \<open>
  An event is a semaphore. A new event counts 0; every notification of it, or of any of its
  clones, that returns successfully adds 1 to that count and one that fails leaves it; and no
  other event is affected.
\<close>

lemma event_semaphore:
  assumes "eventfd_os X obj count"
  shows "(event_new X w = (Inr e, w') \<longrightarrow>
            (\<exists>k. obj w' (evt_inner e) = Some k \<and> k \<notin> ran (obj w) \<and> count w' = (count w)(k := 0)))
    \<and> (obj w (evt_inner e) = Some k \<and> event_clone X e w = Inr (e', w') \<longrightarrow>
            obj w' (evt_inner e') = Some k \<and> count w' = count w)
    \<and> (obj w (evt_inner e) = Some k \<and> notify_one X e w = (Inr (), w') \<longrightarrow>
            obj w' = obj w \<and> count w' = (count w)(k := Suc (count w k)))
    \<and> (obj w (evt_inner e) = Some k \<and> notify_one X e w = (Inl err, w') \<longrightarrow>
            obj w' = obj w \<and> count w' = count w)"
proof -
  have new: "\<exists>k. obj w' (evt_inner e) = Some k \<and> k \<notin> ran (obj w) \<and> count w' = (count w)(k := 0)"
    if ev: "event_new X w = (Inr e, w')"
    by (rule eventfd_os.event_new_ok [OF assms ev]) auto
  have clone: "obj w' (evt_inner e') = Some k \<and> count w' = count w"
    if "obj w (evt_inner e) = Some k" "event_clone X e w = Inr (e', w')"
    using eventfd_os.event_clone_same [OF assms that(2)] that(1) by simp
  have notify: "obj w' = obj w \<and> (r = Inr () \<and> count w' = (count w)(k := Suc (count w k))
      \<or> (\<exists>err. r = Inl (OsError err)) \<and> count w' = count w)"
    if "obj w (evt_inner e) = Some k" "notify_one X e w = (r, w')" for r
    using eventfd_os.notify_one_result [OF assms that] by blast
  from new clone notify [of "Inr ()"] notify [of "Inl err"] show ?thesis by blast
qed

lemma event_semaphore_instance:
  "\<exists>e w1 w2 k. event_new sim_os sim0 = (Inr e, w1) \<and> notify_one sim_os e w1 = (Inr (), w2)
     \<and> s_obj w1 (evt_inner e) = Some k \<and> s_count w1 k = 0 \<and> s_count w2 k = 1"
proof -
  obtain e w1 where new: "event_new sim_os sim0 = (Inr e, w1)" "s_obj w1 (evt_inner e) = Some 1"
      "s_count w1 = (\<lambda>_. 0)" "fst (notify_one sim_os e w1) = Inr ()"
    by (auto simp: event_new_def notify_one_def sim_eval fun_eq_iff)
  then obtain w2 where "notify_one sim_os e w1 = (Inr (), w2)" by (cases "notify_one sim_os e w1") simp
  with event_semaphore [OF simev.eventfd_os_axioms, of w1 e w2 1] new show ?thesis by auto
qed

text \<open>
  An event that is notified before it is waited for: the first poll of the waiter does not look at
  the count, it submits the read and is pending.
\<close>

lemma latched_wait_suspends:
  assumes "notify_one X e w = (Inr (), w')" "event_waiter_poll D waker (event_wait e) i = Inr (p, f, i')"
  shows "p = Poll_Pending \<and> (\<exists>ud n. submit_io D i (event_waiter_entry (event_wait e)) waker Oneshot = Inr ((ud, n), i')
    \<and> ew_io f = OS_Submitted n)"
  using assms(2) by (auto simp: event_waiter_poll_def event_wait_def oneshot_io_new_def oneshot_submit_or_get_result_def
      rbind_eq_Inr poll_of_state_def)

end
