(* ===== verification/Task.thy ===== *)
theory Task
  imports Event
begin

text \<open>
  The executor, \<open>src/src/task.rs\<close>: task identifiers and their wakers, \<open>spawn\<close> with the
  future it wraps around the user's, joiners, and the loop.

  An \<open>Arc<TaskId>\<close> is an address; the atomics they share are the store \<open>ids\<close>, so that a
  waker and the task it was made for see the same cell. A thread is the record \<open>thread\<close>: its
  executor, its reactor, the channels of its joiners and the system. The future given to
  \<open>spawn\<close> is code of the user: polling it is the argument \<open>upoll\<close>.

  A call returns \<open>None\<close> where the thread blocks for ever.
\<close>

subsection \<open>Blocking calls\<close>

definition obind :: "'a rs option \<Rightarrow> ('a \<Rightarrow> 'b rs option) \<Rightarrow> 'b rs option" where
  "obind m f = (case m of None \<Rightarrow> None | Some (Inl p) \<Rightarrow> Some (Inl p) | Some (Inr x) \<Rightarrow> f x)"

lemma obind_simps [simp]:
  "obind None f = None" "obind (Some (Inl p)) f = Some (Inl p)" "obind (Some (Inr x)) f = f x"
  by (simp_all add: obind_def)

lemma obind_eq_ok [rs_simps]:
  "obind m f = Some (Inr y) \<longleftrightarrow> (\<exists>x. m = Some (Inr x) \<and> f x = Some (Inr y))"
  by (auto simp: obind_def split: option.splits sum.splits)

subsection \<open>Channels\<close>

text \<open>
  \<open>std::sync::mpsc::sync_channel(1)\<close>: a send to a full channel waits for room, a send after
  the receiver is gone fails; a receive from an empty channel waits while there is a sender
  and fails when there is none.
\<close>

record 'v chan =
  ch_buf :: "'v option"
  ch_tx :: bool
  ch_rx :: bool

definition sync_channel :: "'v chan" where
  "sync_channel = \<lparr>ch_buf = None, ch_tx = True, ch_rx = True\<rparr>"

definition chan_send :: "'v \<Rightarrow> 'v chan \<Rightarrow> 'v chan option" where
  "chan_send v c = (if \<not> ch_rx c then Some c
     else case ch_buf c of None \<Rightarrow> Some (c\<lparr>ch_buf := Some v\<rparr>) | Some _ \<Rightarrow> None)"

definition chan_recv :: "'v chan \<Rightarrow> ('v \<times> 'v chan) rs option" where
  "chan_recv c = (case ch_buf c of
     Some v \<Rightarrow> Some (Inr (v, c\<lparr>ch_buf := None\<rparr>))
   | None \<Rightarrow> if ch_tx c then None else Some (Inl UnwrapErr))"

subsection \<open>Tasks and the executor\<close>

text \<open>The future that \<open>spawn\<close> makes of the user's: it also owns an event and a sender.\<close>

record 'g SpawnFut =
  sf_fut :: 'g
  sf_evt :: Event
  sf_tx :: nat

record 'g Task =
  task_id :: nat
  task_future :: "'g SpawnFut"

record ('ws, 'g) Executor =
  waiting :: 'ws
  run_q :: "'g Task list"

record TaskJoiner =
  tj_rx :: nat
  tj_evt :: Event
  tj_finished :: EventWaiter

record ('ws, 'g, 'i, 'w, 'v) thread = "('ws, 'g) Executor" +
  ids :: "nat \<Rightarrow> usize"
  next_id :: nat
  inner :: 'i
  world :: 'w
  chans :: "'v chan list"

type_synonym ('ws, 'g) task_slab = "('ws, 'g Task) slab_api"
type_synonym ('g, 't, 'v) upoll = "'g \<Rightarrow> nat \<Rightarrow> 't \<Rightarrow> ('v Poll \<times> 'g \<times> 't) rs option"

definition executor_new :: "('ws, 'g) task_slab \<Rightarrow> ('ws, 'g) Executor" where
  "executor_new S = \<lparr>waiting = slab_new S, run_q = []\<rparr>"

text \<open>\<open>TaskId::wake\<close>, for the waker with the cell at address \<open>a\<close>.\<close>

definition wake :: "('ws, 'g) task_slab \<Rightarrow> nat \<Rightarrow> ('ws, 'g, 'i, 'w, 'v) thread \<Rightarrow> ('ws, 'g, 'i, 'w, 'v) thread" where
  "wake S a t = (case slab_try_remove S (waiting t) (ids t a) of
     (Some task, ws) \<Rightarrow> t\<lparr>waiting := ws, run_q := run_q t @ [task]\<rparr>
   | (None, ws) \<Rightarrow> t\<lparr>waiting := ws\<rparr>)"

definition spawn :: "'w os_api \<Rightarrow> 'g \<Rightarrow> ('ws, 'g, 'i, 'w, 'v) thread \<Rightarrow>
    (TaskJoiner \<times> ('ws, 'g, 'i, 'w, 'v) thread) rs" where
  "spawn X f t =
     (let ch = length (chans t);
          t1 = t\<lparr>chans := chans t @ [sync_channel]\<rparr>
      in case event_new X (world t1) of
           (Inl e, w) \<Rightarrow> Inl UnwrapErr
         | (Inr evt, w) \<Rightarrow>
             rbind (event_clone X evt w) (\<lambda>(evt2, w').
               let a = next_id t1;
                   task = \<lparr>task_id = a, task_future = \<lparr>sf_fut = f, sf_evt = evt2, sf_tx = ch\<rparr>\<rparr>;
                   t2 = t1\<lparr>world := w', ids := (ids t1)(a := 0), next_id := Suc a\<rparr>;
                   t3 = t2\<lparr>run_q := run_q t2 @ [task]\<rparr>
               in Inr (\<lparr>tj_rx = ch, tj_evt = evt, tj_finished = event_wait evt\<rparr>, t3)))"

text \<open>
  The wrapped future: after the user's future is done it notifies the event and sends the
  value, ignoring failures of either; then its event and its sender are dropped.
\<close>

definition spawn_fut_poll :: "'w os_api \<Rightarrow> ('g, ('ws, 'g, 'i, 'w, 'v) thread, 'v) upoll \<Rightarrow>
    'g SpawnFut \<Rightarrow> nat \<Rightarrow> ('ws, 'g, 'i, 'w, 'v) thread \<Rightarrow>
    (unit Poll \<times> 'g SpawnFut \<times> ('ws, 'g, 'i, 'w, 'v) thread) rs option" where
  "spawn_fut_poll X upoll sf a t = obind (upoll (sf_fut sf) a t) (\<lambda>(p, g, t1).
     case p of
       Poll_Pending \<Rightarrow> Some (Inr (Poll_Pending, sf\<lparr>sf_fut := g\<rparr>, t1))
     | Poll_Ready value \<Rightarrow>
         (let (_, w1) = notify_one X (sf_evt sf) (world t1)
          in case chan_send value (chans t1 ! sf_tx sf) of
               None \<Rightarrow> None
             | Some c \<Rightarrow>
                 Some (Inr (Poll_Ready (), sf\<lparr>sf_fut := g\<rparr>,
                   t1\<lparr>world := event_drop X (sf_evt sf) w1,
                      chans := (chans t1)[sf_tx sf := c\<lparr>ch_tx := False\<rparr>]\<rparr>))))"

text \<open>Dropping a joiner drops its receiver, its event and its waiter, in this order.\<close>

definition joiner_drop :: "('u, 'ps, 'os, 'ms, 'rb, nat) deps \<Rightarrow> 'w os_api \<Rightarrow> TaskJoiner \<Rightarrow>
    ('ws, 'g, ('u, 'ps, 'os, 'ms) inner, 'w, 'v) thread \<Rightarrow>
    ('ws, 'g, ('u, 'ps, 'os, 'ms) inner, 'w, 'v) thread rs" where
  "joiner_drop D X j t =
     (let t1 = t\<lparr>chans := (chans t)[tj_rx j := (chans t ! tj_rx j)\<lparr>ch_buf := None, ch_rx := False\<rparr>]\<rparr>;
          t2 = t1\<lparr>world := event_drop X (tj_evt j) (world t1)\<rparr>
      in rbind (event_waiter_drop D (tj_finished j) (inner t2)) (\<lambda>i. Inr (t2\<lparr>inner := i\<rparr>)))"

definition join :: "('u, 'ps, 'os, 'ms, 'rb, nat) deps \<Rightarrow> 'w os_api \<Rightarrow> TaskJoiner \<Rightarrow>
    ('ws, 'g, ('u, 'ps, 'os, 'ms) inner, 'w, 'v) thread \<Rightarrow>
    ('v \<times> ('ws, 'g, ('u, 'ps, 'os, 'ms) inner, 'w, 'v) thread) rs option" where
  "join D X self t = obind (chan_recv (chans t ! tj_rx self)) (\<lambda>(v, c).
     obind (Some (joiner_drop D X self (t\<lparr>chans := (chans t)[tj_rx self := c]\<rparr>))) (\<lambda>t1.
     Some (Inr (v, t1))))"

definition joiner_poll :: "('u, 'ps, 'os, 'ms, 'rb, nat) deps \<Rightarrow> nat \<Rightarrow> TaskJoiner \<Rightarrow>
    ('ws, 'g, ('u, 'ps, 'os, 'ms) inner, 'w, 'v) thread \<Rightarrow>
    ('v Poll \<times> TaskJoiner \<times> ('ws, 'g, ('u, 'ps, 'os, 'ms) inner, 'w, 'v) thread) rs option" where
  "joiner_poll D a self t =
     obind (Some (event_waiter_poll D a (tj_finished self) (inner t))) (\<lambda>(p, fin, i).
       let self1 = self\<lparr>tj_finished := fin\<rparr>; t1 = t\<lparr>inner := i\<rparr>
       in case p of
            Poll_Pending \<Rightarrow> Some (Inr (Poll_Pending, self1, t1))
          | Poll_Ready (Inl e) \<Rightarrow> Some (Inl UnwrapErr)
          | Poll_Ready (Inr _) \<Rightarrow>
              obind (chan_recv (chans t1 ! tj_rx self1)) (\<lambda>(v, c).
                Some (Inr (Poll_Ready v, self1, t1\<lparr>chans := (chans t1)[tj_rx self1 := c]\<rparr>))))"

subsection \<open>The loop\<close>

definition react_if_idle :: "('ws, 'g) task_slab \<Rightarrow> ('u, 'ps, 'os, 'ms, 'rb, nat) deps \<Rightarrow>
    ('ws, 'g, ('u, 'ps, 'os, 'ms) inner, 'w, 'v) thread \<Rightarrow>
    ('ws, 'g, ('u, 'ps, 'os, 'ms) inner, 'w, 'v) thread rs option" where
  "react_if_idle S D t = (if run_q t = []
     then obind (reactor_react D (wake S) (inner t) t) (\<lambda>(i, t'). Some (Inr (t'\<lparr>inner := i\<rparr>)))
     else Some (Inr t))"

definition executor_iter :: "('ws, 'g) task_slab \<Rightarrow> ('u, 'ps, 'os, 'ms, 'rb, nat) deps \<Rightarrow> 'w os_api \<Rightarrow>
    ('g, ('ws, 'g, ('u, 'ps, 'os, 'ms) inner, 'w, 'v) thread, 'v) upoll \<Rightarrow>
    ('ws, 'g, ('u, 'ps, 'os, 'ms) inner, 'w, 'v) thread \<Rightarrow>
    (bool \<times> ('ws, 'g, ('u, 'ps, 'os, 'ms) inner, 'w, 'v) thread) rs option" where
  "executor_iter S D X upoll t =
     obind (react_if_idle S D t) (\<lambda>t0.
     obind (Some (unwrap (if run_q t0 = [] then None else Some (last (run_q t0))))) (\<lambda>task.
     let t1 = t0\<lparr>run_q := butlast (run_q t0)\<rparr>
     in obind (spawn_fut_poll X upoll (task_future task) (task_id task) t1) (\<lambda>(p, fut, t2).
     obind (case p of
              Poll_Ready _ \<Rightarrow> Some (Inr t2)
            | Poll_Pending \<Rightarrow>
                (let t3 = t2\<lparr>ids := (ids t2)(task_id task := slab_vacant_key S (waiting t2))\<rparr>
                 in obind (Some (insert_rs S (waiting t3) (task\<lparr>task_future := fut\<rparr>)))
                      (\<lambda>(_, ws). Some (Inr (t3\<lparr>waiting := ws\<rparr>)))))
       (\<lambda>t4. Some (Inr (run_q t4 = [] \<and> slab_is_empty S (waiting t4), t4))))))"

partial_function (option) executor_loop :: "('ws, 'g) task_slab \<Rightarrow> ('u, 'ps, 'os, 'ms, 'rb, nat) deps \<Rightarrow>
    'w os_api \<Rightarrow> ('g, ('ws, 'g, ('u, 'ps, 'os, 'ms) inner, 'w, 'v) thread, 'v) upoll \<Rightarrow>
    ('ws, 'g, ('u, 'ps, 'os, 'ms) inner, 'w, 'v) thread \<Rightarrow>
    ('ws, 'g, ('u, 'ps, 'os, 'ms) inner, 'w, 'v) thread rs option" where
  "executor_loop S D X upoll t = (case executor_iter S D X upoll t of
     None \<Rightarrow> None
   | Some (Inl p) \<Rightarrow> Some (Inl p)
   | Some (Inr (finished, t')) \<Rightarrow> if finished then Some (Inr t') else executor_loop S D X upoll t')"

definition run :: "('ws, 'g) task_slab \<Rightarrow> ('u, 'ps, 'os, 'ms, 'rb, nat) deps \<Rightarrow>
    'w os_api \<Rightarrow> ('g, ('ws, 'g, ('u, 'ps, 'os, 'ms) inner, 'w, 'v) thread, 'v) upoll \<Rightarrow>
    ('ws, 'g, ('u, 'ps, 'os, 'ms) inner, 'w, 'v) thread \<Rightarrow>
    ('ws, 'g, ('u, 'ps, 'os, 'ms) inner, 'w, 'v) thread rs option" where
  "run S D X upoll t = executor_loop S D X upoll t"

definition block_on :: "('ws, 'g) task_slab \<Rightarrow> ('u, 'ps, 'os, 'ms, 'rb, nat) deps \<Rightarrow>
    'w os_api \<Rightarrow> ('g, ('ws, 'g, ('u, 'ps, 'os, 'ms) inner, 'w, 'v) thread, 'v) upoll \<Rightarrow> 'g \<Rightarrow>
    ('ws, 'g, ('u, 'ps, 'os, 'ms) inner, 'w, 'v) thread \<Rightarrow>
    ('v \<times> ('ws, 'g, ('u, 'ps, 'os, 'ms) inner, 'w, 'v) thread) rs option" where
  "block_on S D X upoll f t =
     obind (Some (spawn X f t)) (\<lambda>(joiner, t1).
     obind (executor_loop S D X upoll t1) (\<lambda>t2. join D X joiner t2))"

end
