(* ===== verification/TaskThms.thy ===== *)
theory TaskThms
  imports Task
begin

text \<open>
  The invariant of the executor and what an iteration of its loop does to the tasks. User
  code acts on the executor only by spawning and by waking (\<open>user_effects\<close>); the locale
  \<open>executor_env\<close> states that and the laws of the slab.
\<close>

subsection \<open>What user code may do to a thread\<close>

text \<open>
  \<open>effects S X priv t t'\<close>: between \<open>t\<close> and \<open>t'\<close> user code spawned futures, woke wakers, and
  changed its reactor, the system and the channels in any way, except for the channels in
  \<open>priv\<close>, to which it holds no handle.
\<close>

inductive effects :: "('ws, 'g) task_slab \<Rightarrow> 'w os_api \<Rightarrow> nat set \<Rightarrow> ('ws, 'g, 'i, 'w, 'v) thread \<Rightarrow>
    ('ws, 'g, 'i, 'w, 'v) thread \<Rightarrow> bool" for S X priv where
  eff_refl: "effects S X priv t t"
| eff_spawn: "effects S X priv t t1 \<Longrightarrow> spawn X f t1 = Inr (j, t2) \<Longrightarrow> effects S X priv t t2"
| eff_wake: "effects S X priv t t1 \<Longrightarrow> effects S X priv t (wake S a t1)"
| eff_env: "effects S X priv t t1 \<Longrightarrow> length (chans t1) \<le> length cs \<Longrightarrow>
    \<forall>c\<in>priv. c < length (chans t1) \<longrightarrow> cs ! c = chans t1 ! c \<Longrightarrow>
    effects S X priv t (t1\<lparr>inner := i, world := w, chans := cs\<rparr>)"

subsection \<open>The invariant\<close>

definition waiting_at :: "('ws, 'g) task_slab \<Rightarrow> ('ws, 'g, 'i, 'w, 'v) thread \<Rightarrow> usize \<rightharpoonup> 'g Task" where
  "waiting_at S t = slab_get S (waiting t)"

text \<open>The tasks the executor holds, and their identifiers.\<close>

definition tasks :: "('ws, 'g) task_slab \<Rightarrow> ('ws, 'g, 'i, 'w, 'v) thread \<Rightarrow> 'g Task set" where
  "tasks S t = set (run_q t) \<union> ran (waiting_at S t)"

definition live :: "('ws, 'g) task_slab \<Rightarrow> ('ws, 'g, 'i, 'w, 'v) thread \<Rightarrow> nat set" where
  "live S t = task_id ` tasks S t"

text \<open>
  \<open>exec_inv\<close>: no task is held twice, identifiers are fresh, and the cell of a waiting task
  holds the key of its slot. \<open>cur\<close> is the identifier of the task that is being polled, if any.
\<close>

definition exec_inv :: "('ws, 'g) task_slab \<Rightarrow> nat option \<Rightarrow> ('ws, 'g, 'i, 'w, 'v) thread \<Rightarrow> bool" where
  "exec_inv S cur t \<longleftrightarrow>
     distinct (map task_id (run_q t))
   \<and> (\<forall>k task. waiting_at S t k = Some task \<longrightarrow> ids t (task_id task) = k
        \<and> task_id task \<notin> task_id ` set (run_q t))
   \<and> (\<forall>a\<in>live S t. a < next_id t \<and> cur \<noteq> Some a) \<and> (\<forall>a. cur = Some a \<longrightarrow> a < next_id t)"

lemma exec_invD:
  assumes "exec_inv S cur t"
  shows "distinct (map task_id (run_q t))"
    "waiting_at S t k = Some task \<Longrightarrow> ids t (task_id task) = k"
    "waiting_at S t k = Some task \<Longrightarrow> task_id task \<notin> task_id ` set (run_q t)"
    "a \<in> live S t \<Longrightarrow> a < next_id t" "a \<in> live S t \<Longrightarrow> cur \<noteq> Some a" "cur = Some b \<Longrightarrow> b < next_id t"
  using assms by (auto simp: exec_inv_def)

lemma exec_invI:
  assumes "distinct (map task_id (run_q t))"
    "\<And>k task. waiting_at S t k = Some task \<Longrightarrow> ids t (task_id task) = k"
    "\<And>k task. waiting_at S t k = Some task \<Longrightarrow> task_id task \<notin> task_id ` set (run_q t)"
    "\<And>a. a \<in> live S t \<Longrightarrow> a < next_id t" "\<And>a. a \<in> live S t \<Longrightarrow> cur \<noteq> Some a"
    "\<And>b. cur = Some b \<Longrightarrow> b < next_id t"
  shows "exec_inv S cur t"
  using assms by (auto simp: exec_inv_def)

lemma live_waiting: "waiting_at S t k = Some task \<Longrightarrow> task_id task \<in> live S t"
  by (auto simp: live_def tasks_def ran_def)

lemma live_run_q: "task \<in> set (run_q t) \<Longrightarrow> task_id task \<in> live S t"
  by (auto simp: live_def tasks_def)

locale executor_env = sl: slab_laws S
  for S :: "('ws, 'g Task) slab_api" +
  fixes D :: "('u, 'ps, 'os, 'ms, 'rb, nat) deps" and X :: "'w os_api" and priv :: "nat set"
    and upoll :: "('g, ('ws, 'g, ('u, 'ps, 'os, 'ms) inner, 'w, 'v) thread, 'v) upoll"
  assumes user_effects: "upoll g a t = Some (Inr (p, g', t')) \<Longrightarrow> effects S X priv t t'"
begin

subsection \<open>Waking\<close>

lemma wake_cases:
  obtains (stale) "waiting_at S t (ids t a) = None" "wake S a t = t"
  | (woken) task ws where "waiting_at S t (ids t a) = Some task"
      "wake S a t = t\<lparr>waiting := ws, run_q := run_q t @ [task]\<rparr>"
      "slab_get S ws = (waiting_at S t)(ids t a := None)"
proof (cases "waiting_at S t (ids t a)")
  case None
  then have "slab_try_remove S (waiting t) (ids t a) = (None, waiting t)"
    by (simp add: waiting_at_def sl.try_remove_vacant)
  with None stale show thesis by (simp add: wake_def)
next
  case (Some task)
  then obtain ws where "slab_try_remove S (waiting t) (ids t a) = (Some task, ws)"
      "slab_get S ws = (waiting_at S t)(ids t a := None)"
    using sl.try_remove_occupied unfolding waiting_at_def by metis
  with Some woken show thesis by (simp add: wake_def)
qed

lemma wake_inv:
  assumes "exec_inv S cur t"
  shows "exec_inv S cur (wake S a t)" "tasks S (wake S a t) = tasks S t" "next_id (wake S a t) = next_id t"
proof (atomize (full), cases rule: wake_cases [of t a])
  case (woken task ws)
  let ?t = "wake S a t"
  have w: "waiting_at S ?t = (waiting_at S t)(ids t a := None)" using woken by (simp add: waiting_at_def)
  have new: "task_id task \<notin> task_id ` set (run_q t)" "ids t (task_id task) = ids t a"
    using assms woken(1) by (auto simp: exec_inv_def)
  have ran: "insert task (ran ((waiting_at S t)(ids t a := None))) = ran (waiting_at S t)"
    using woken(1) by (rule ran_extract)
  then have tasks: "tasks S ?t = tasks S t" unfolding tasks_def w using woken(2) by auto
  then have live: "live S ?t = live S t" by (simp add: live_def)
  have other: "task_id task' \<noteq> task_id task" if "waiting_at S ?t k = Some task'" for k task'
    using that exec_invD(2) [OF assms, of k task'] new(2) unfolding w by (auto split: if_splits)
  have still: "waiting_at S t k = Some task'" if "waiting_at S ?t k = Some task'" for k task'
    using that unfolding w by (simp split: if_splits)
  note inv = exec_invD [OF assms]
  have "exec_inv S cur ?t"
  proof (rule exec_invI, goal_cases)
    case 1 show ?case using inv(1) new(1) woken(2) by simp
  next
    case (2 k task') then show ?case using inv(2) [OF still] woken(2) by simp
  next
    case (3 k task') then show ?case using inv(3) [OF still] other woken(2) by simp
  qed (use inv(4-6) live woken(2) in simp_all)
  with tasks woken(2) show "exec_inv S cur ?t \<and> tasks S ?t = tasks S t \<and> next_id ?t = next_id t" by simp
qed (use assms in simp)

lemma wake_frame:
  "inner (wake S a t) = inner t" "world (wake S a t) = world t" "chans (wake S a t) = chans t"
  "ids (wake S a t) = ids t"
  by (cases rule: wake_cases [of t a]; simp)+

text \<open>In a consistent state a waker moves exactly the waiting task it was made for.\<close>

lemma wake_exact:
  assumes "exec_inv S cur t" "waiting_at S t k = Some task" "task_id task = a"
  shows "run_q (wake S a t) = run_q t @ [task]" "waiting_at S (wake S a t) = (waiting_at S t)(k := None)"
proof -
  have k: "ids t a = k" using assms by (auto simp: exec_inv_def)
  show "run_q (wake S a t) = run_q t @ [task]" "waiting_at S (wake S a t) = (waiting_at S t)(k := None)"
    by (cases rule: wake_cases [of t a]; use k assms(2) in \<open>simp add: waiting_at_def\<close>)+
qed

lemma fold_wake_inv:
  "exec_inv S cur t \<Longrightarrow> exec_inv S cur (fold (wake S) as t) \<and> tasks S (fold (wake S) as t) = tasks S t
     \<and> next_id (fold (wake S) as t) = next_id t \<and> chans (fold (wake S) as t) = chans t \<and> world (fold (wake S) as t) = world t"
  by (induction as arbitrary: t) (simp_all add: wake_inv wake_frame)

subsection \<open>Spawning and user code\<close>

text \<open>A batch of wake-ups queues every waiting task it names.\<close>

lemma fold_wake_run_q: "set (run_q t) \<subseteq> set (run_q (fold (wake S) as t))"
proof (induction as arbitrary: t)
  case (Cons a as)
  have "set (run_q t) \<subseteq> set (run_q (wake S a t))" by (cases rule: wake_cases [of t a]) auto
  also have "\<dots> \<subseteq> set (run_q (fold (wake S) (a # as) t))" using Cons.IH [of "wake S a t"] by simp
  finally show ?case .
qed simp

lemma fold_wake_requeues:
  "exec_inv S cur t \<Longrightarrow> waiting_at S t k = Some task \<Longrightarrow> task_id task \<in> set as \<Longrightarrow> task \<in> set (run_q (fold (wake S) as t))"
proof (induction as arbitrary: t)
  case (Cons a as)
  show ?case
  proof (cases "waiting_at S (wake S a t) k = Some task")
    case True
    have "a \<noteq> task_id task" using True wake_exact(2) [OF Cons.prems(1,2)] by (metis fun_upd_same option.distinct(1))
    with Cons.IH [OF wake_inv(1) [OF Cons.prems(1)] True] Cons.prems(3) show ?thesis by simp
  next
    case False
    with Cons.prems(2) have "task \<in> set (run_q (wake S a t))"
      by (cases rule: wake_cases [of t a]) (auto simp: waiting_at_def split: if_splits)
    with fold_wake_run_q [of "wake S a t" as] show ?thesis by auto
  qed
qed simp

lemma spawn_task:
  assumes "spawn X f t = Inr (j, t')"
  obtains evt where "run_q t' = run_q t @
      [\<lparr>task_id = next_id t, task_future = \<lparr>sf_fut = f, sf_evt = evt, sf_tx = length (chans t)\<rparr>\<rparr>]"
    "waiting t' = waiting t" "next_id t' = Suc (next_id t)" "ids t' = (ids t)(next_id t := 0)"
    "chans t' = chans t @ [sync_channel]" "tj_rx j = length (chans t)" "inner t' = inner t"
    "tj_finished j = event_wait (tj_evt j)"
  using assms by (auto simp: spawn_def Let_def rbind_eq_Inr split: prod.splits sum.splits)

lemma spawn_inv:
  assumes "exec_inv S cur t" "spawn X f t = Inr (j, t')"
  shows "exec_inv S cur t'" "next_id t' = Suc (next_id t)" "chans t' = chans t @ [sync_channel]"
    "\<exists>task. tasks S t' = insert task (tasks S t) \<and> task_id task = next_id t
       \<and> sf_tx (task_future task) = length (chans t) \<and> sf_fut (task_future task) = f"
proof -
  obtain evt where t': "run_q t' = run_q t @
      [\<lparr>task_id = next_id t, task_future = \<lparr>sf_fut = f, sf_evt = evt, sf_tx = length (chans t)\<rparr>\<rparr>]"
    "waiting t' = waiting t" "next_id t' = Suc (next_id t)" "ids t' = (ids t)(next_id t := 0)"
    and chans: "chans t' = chans t @ [sync_channel]"
    by (rule spawn_task [OF assms(2)])
  then have w: "waiting_at S t' = waiting_at S t" by (simp add: waiting_at_def)
  have tasks: "tasks S t' = insert (last (run_q t')) (tasks S t)" using t' w by (simp add: tasks_def)
  then have live: "live S t' = insert (next_id t) (live S t)" using t'(1) by (simp add: live_def)
  have fresh: "next_id t \<notin> live S t" using exec_invD(4) [OF assms(1), of "next_id t"] by auto
  then have fresh_q: "next_id t \<notin> task_id ` set (run_q t)" by (auto simp: live_def tasks_def)
  have fresh_w: "task_id task \<noteq> next_id t" if "waiting_at S t k = Some task" for k task
    using fresh live_waiting [OF that] by metis
  note inv = exec_invD [OF assms(1)]
  show "exec_inv S cur t'"
  proof (rule exec_invI, goal_cases)
    case 1 show ?case using inv(1) fresh_q t'(1) by simp
  next
    case (2 k task) then show ?case using inv(2) fresh_w by (simp add: w t'(4))
  next
    case (3 k task) then show ?case using inv(3) fresh_w by (simp add: w t'(1))
  next
    case (4 a) then show ?case using inv(4) by (auto simp: live t'(3) less_Suc_eq)
  next
    case (5 a) then show ?case using inv(5,6) by (auto simp: live)
  next
    case (6 b) then show ?case using inv(6) by (simp add: t'(3) less_Suc_eq)
  qed
  show "next_id t' = Suc (next_id t)" "chans t' = chans t @ [sync_channel]" by (rule t'(3) chans)+
  show "\<exists>task. tasks S t' = insert task (tasks S t) \<and> task_id task = next_id t
      \<and> sf_tx (task_future task) = length (chans t) \<and> sf_fut (task_future task) = f"
    using tasks t'(1) by (intro exI [of _ "last (run_q t')"]) simp
qed

lemma env_inv:
  assumes "exec_inv S cur t"
  shows "exec_inv S cur (t\<lparr>inner := i, world := w, chans := cs\<rparr>)"
    "tasks S (t\<lparr>inner := i, world := w, chans := cs\<rparr>) = tasks S t"
proof -
  have "waiting_at S (t\<lparr>inner := i, world := w, chans := cs\<rparr>) = waiting_at S t" by (simp add: waiting_at_def)
  then show "exec_inv S cur (t\<lparr>inner := i, world := w, chans := cs\<rparr>)"
    "tasks S (t\<lparr>inner := i, world := w, chans := cs\<rparr>) = tasks S t"
    using assms by (simp_all add: exec_inv_def live_def tasks_def)
qed

text \<open>
  What user code leaves behind: it keeps the invariant and every task, and the tasks it adds
  are those with the identifiers it has used up, each with a channel of its own.
\<close>

definition grows :: "('ws, 'g, 'i, 'w, 'v) thread \<Rightarrow> ('ws, 'g, 'i, 'w, 'v) thread \<Rightarrow> bool" where
  "grows t t' \<longleftrightarrow> tasks S t \<subseteq> tasks S t' \<and> live S t' = live S t \<union> {next_id t..<next_id t'}
     \<and> next_id t \<le> next_id t' \<and> length (chans t) \<le> length (chans t')
     \<and> (\<forall>task\<in>tasks S t' - tasks S t. length (chans t) \<le> sf_tx (task_future task))
     \<and> (\<forall>c\<in>priv. c < length (chans t) \<longrightarrow> chans t' ! c = chans t ! c)"

lemma grows_refl: "grows t t"
  by (simp add: grows_def)

lemma grows_trans_same:
  "grows t t1 \<Longrightarrow> tasks S t2 = tasks S t1 \<Longrightarrow> next_id t2 = next_id t1 \<Longrightarrow> length (chans t1) \<le> length (chans t2) \<Longrightarrow>
     \<forall>c\<in>priv. c < length (chans t1) \<longrightarrow> chans t2 ! c = chans t1 ! c \<Longrightarrow> grows t t2"
  by (simp add: grows_def live_def)

lemma effects_inv:
  assumes "effects S X priv t t'" "exec_inv S cur t"
  shows "exec_inv S cur t' \<and> grows t t'"
  using assms
proof (induction rule: effects.induct)
  case (eff_spawn t t1 f j t2)
  then have 1: "exec_inv S cur t1" "grows t t1" by auto
  note 2 = spawn_inv [OF 1(1) eff_spawn.hyps(2)]
  from 2(4) obtain task where task: "tasks S t2 = insert task (tasks S t1)" "task_id task = next_id t1"
      "sf_tx (task_future task) = length (chans t1)" by blast
  have "{next_id t..<Suc (next_id t1)} = insert (next_id t1) {next_id t..<next_id t1}"
    using 1(2) by (auto simp: grows_def)
  moreover have "live S t2 = insert (next_id t1) (live S t1)" using task by (simp add: live_def)
  ultimately have "grows t t2"
    using 1(2) 2(2,3) task unfolding grows_def by (auto simp: nth_append)
  with 2(1) show ?case ..
next
  case (eff_wake t t1 a)
  then have 1: "exec_inv S cur t1" "grows t t1" by auto
  from wake_inv [OF 1(1), of a] grows_trans_same [OF 1(2), of "wake S a t1"] show ?case
    by (simp add: wake_frame)
next
  case (eff_env t t1 cs w i)
  then have 1: "exec_inv S cur t1" "grows t t1" by auto
  note 2 = env_inv [OF 1(1), of cs w i]
  from 2(1) grows_trans_same [OF 1(2) 2(2)] eff_env.hyps(2,3) show ?case by simp
qed (simp add: grows_refl)

subsection \<open>One turn of the loop\<close>

lemma react_loop_fold:
  "react_loop D f it x = Inr (i, x') \<Longrightarrow> \<exists>as. x' = fold f as x"
proof (induction D f it x rule: react_loop.induct)
  case (1 D f it x)
  note step = "1.prems" [unfolded react_loop.simps [of D f it x]]
  show ?case
  proof (cases "iter_next D it")
    case (Inr r)
    obtain o1 it' where r: "r = (o1, it')" by fastforce
    show ?thesis
    proof (cases o1)
      case None
      with step Inr r show ?thesis by (intro exI [of _ "[]"]) simp
    next
      case (Some w)
      with step Inr r "1.IH" [of "(Some w, it')" "Some w" it' w] obtain as where "x' = fold f as (f w x)" by auto
      then show ?thesis by (intro exI [of _ "w # as"]) simp
    qed
  qed (use step in simp)
qed

lemma react_if_idle_inv:
  assumes "react_if_idle S D t = Some (Inr t0)" "exec_inv S cur t"
  shows "exec_inv S cur t0" "tasks S t0 = tasks S t" "next_id t0 = next_id t" "chans t0 = chans t" "world t0 = world t"
proof -
  have "exec_inv S cur t0 \<and> tasks S t0 = tasks S t \<and> next_id t0 = next_id t \<and> chans t0 = chans t \<and> world t0 = world t"
  proof (cases "run_q t = []")
    case True
    with assms(1) obtain i t' where r: "reactor_react D (wake S) (inner t) t = Some (Inr (i, t'))"
        "t0 = t'\<lparr>inner := i\<rparr>"
      by (auto simp: react_if_idle_def obind_eq_ok)
    then obtain as where t': "t' = fold (wake S) as t"
      by (auto simp: reactor_react_def split: option.splits sum.splits dest!: react_loop_fold)
    have t0: "t0 = t'\<lparr>inner := i, world := world t', chans := chans t'\<rparr>" by (simp add: r(2))
    note fw = fold_wake_inv [OF assms(2), of as, folded t']
    from env_inv [of cur t' "chans t'" "world t'" i] fw show ?thesis unfolding t0 by simp
  qed (use assms in \<open>simp add: react_if_idle_def\<close>)
  then show "exec_inv S cur t0" "tasks S t0 = tasks S t" "next_id t0 = next_id t" "chans t0 = chans t" "world t0 = world t" by blast+
qed

lemma executor_iter_ok:
  assumes "executor_iter S D X upoll t = Some (Inr (d, t4))"
  obtains t0 q task p fut t2 where "react_if_idle S D t = Some (Inr t0)" "run_q t0 = q @ [task]"
    "spawn_fut_poll X upoll (task_future task) (task_id task) (t0\<lparr>run_q := q\<rparr>) = Some (Inr (p, fut, t2))"
    "p = Poll_Ready () \<and> t4 = t2 \<or> p = Poll_Pending \<and> (\<exists>k ws. insert_rs S (waiting t2) (task\<lparr>task_future := fut\<rparr>) = Inr (k, ws)
       \<and> t4 = t2\<lparr>ids := (ids t2)(task_id task := slab_vacant_key S (waiting t2)), waiting := ws\<rparr>)"
    "d \<longleftrightarrow> run_q t4 = [] \<and> slab_is_empty S (waiting t4)"
proof -
  from assms obtain t0 where t0: "react_if_idle S D t = Some (Inr t0)" "run_q t0 \<noteq> []"
    by (auto simp: executor_iter_def obind_eq_ok rs_simps split: if_splits)
  let ?task = "last (run_q t0)" and ?q = "butlast (run_q t0)"
  from assms t0 obtain p fut t2 where
    p: "spawn_fut_poll X upoll (task_future ?task) (task_id ?task) (t0\<lparr>run_q := ?q\<rparr>) = Some (Inr (p, fut, t2))"
    by (auto simp: executor_iter_def obind_eq_ok Let_def)
  have q: "run_q t0 = ?q @ [?task]" using t0(2) by simp
  have "p = Poll_Ready () \<and> t4 = t2 \<or> p = Poll_Pending \<and> (\<exists>k ws. insert_rs S (waiting t2) (?task\<lparr>task_future := fut\<rparr>) = Inr (k, ws)
       \<and> t4 = t2\<lparr>ids := (ids t2)(task_id ?task := slab_vacant_key S (waiting t2)), waiting := ws\<rparr>)"
    "d \<longleftrightarrow> run_q t4 = [] \<and> slab_is_empty S (waiting t4)"
    using assms t0 p by (auto simp: executor_iter_def obind_eq_ok Let_def rs_simps split: Poll.splits)
  with that t0(1) q p show thesis by blast
qed

definition finish :: "'g SpawnFut \<Rightarrow> 'w \<Rightarrow> 'w" where
  "finish sf w = event_drop X (sf_evt sf) (snd (notify_one X (sf_evt sf) w))"

lemma spawn_fut_poll_effects:
  assumes "spawn_fut_poll X upoll sf a t = Some (Inr (p, sf', t'))"
  obtains q g t1 where "upoll (sf_fut sf) a t = Some (Inr (q, g, t1))" "effects S X priv t t1"
    "sf' = sf\<lparr>sf_fut := g\<rparr>"
    "q = Poll_Pending \<and> p = Poll_Pending \<and> t' = t1 \<or>
     (\<exists>v c. q = Poll_Ready v \<and> p = Poll_Ready () \<and> chan_send v (chans t1 ! sf_tx sf) = Some c
        \<and> t' = t1\<lparr>world := finish sf (world t1), chans := (chans t1)[sf_tx sf := c\<lparr>ch_tx := False\<rparr>]\<rparr>)"
proof -
  from assms obtain q g t1 where u: "upoll (sf_fut sf) a t = Some (Inr (q, g, t1))"
    by (auto simp: spawn_fut_poll_def obind_eq_ok)
  with assms have "sf' = sf\<lparr>sf_fut := g\<rparr>" "q = Poll_Pending \<and> p = Poll_Pending \<and> t' = t1 \<or>
     (\<exists>v c. q = Poll_Ready v \<and> p = Poll_Ready () \<and> chan_send v (chans t1 ! sf_tx sf) = Some c
        \<and> t' = t1\<lparr>world := finish sf (world t1), chans := (chans t1)[sf_tx sf := c\<lparr>ch_tx := False\<rparr>]\<rparr>)"
    by (auto simp: spawn_fut_poll_def finish_def split: Poll.splits option.splits prod.splits)
  with that u user_effects [OF u] show thesis by blast
qed

text \<open>Taking a task off the queue, and putting it among the waiting ones.\<close>

lemma pop_inv:
  assumes "exec_inv S None t" "run_q t = q @ [task]"
  shows "exec_inv S (Some (task_id task)) (t\<lparr>run_q := q\<rparr>)"
    "tasks S t = insert task (tasks S (t\<lparr>run_q := q\<rparr>))" "task_id task \<notin> live S (t\<lparr>run_q := q\<rparr>)"
proof -
  let ?t = "t\<lparr>run_q := q\<rparr>"
  note inv = exec_invD [OF assms(1)]
  have w: "waiting_at S ?t = waiting_at S t" by (simp add: waiting_at_def)
  show tasks: "tasks S t = insert task (tasks S ?t)" by (auto simp: tasks_def w assms(2))
  have waits: "task_id task' \<noteq> task_id task" if "waiting_at S t k = Some task'" for k task'
    using inv(3) [OF that] by (auto simp: assms(2))
  have "task_id task \<notin> task_id ` ran (waiting_at S t)"
    by (auto simp: ran_def dest: waits)
  with inv(1) show not_live: "task_id task \<notin> live S ?t" by (auto simp: live_def tasks_def w assms(2))
  have less: "a < next_id t" if "a \<in> insert (task_id task) (live S ?t)" for a
    using inv(4) [of a] that by (auto simp: live_def tasks)
  show "exec_inv S (Some (task_id task)) ?t"
  proof (rule exec_invI, goal_cases)
    case 1 show ?case using inv(1) by (simp add: assms(2))
  next
    case (2 k task') then show ?case using inv(2) by (simp add: w)
  next
    case (3 k task') then show ?case using inv(3) by (simp add: w assms(2))
  next
    case (5 a) then show ?case using not_live by auto
  qed (use less in auto)
qed

lemma park_inv:
  assumes "exec_inv S (Some (task_id task)) t" "insert_rs S (waiting t) task = Inr (k, ws)"
    and "t' = t\<lparr>ids := (ids t)(task_id task := slab_vacant_key S (waiting t)), waiting := ws\<rparr>"
  shows "exec_inv S None t'" "tasks S t' = insert task (tasks S t)" "waiting_at S t' k = Some task"
proof -
  note ins = sl.insert_rsD [OF assms(2)] and inv = exec_invD [OF assms(1)]
  have w: "waiting_at S t' = (waiting_at S t)(k \<mapsto> task)" "waiting_at S t k = None"
    using ins by (simp_all add: waiting_at_def assms(3))
  have t': "ids t' = (ids t)(task_id task := k)" "run_q t' = run_q t" "next_id t' = next_id t"
    using ins(4) by (simp_all add: assms(3))
  show tasks: "tasks S t' = insert task (tasks S t)"
    using ran_map_upd [of "waiting_at S t" k task] w t'(2) by (simp add: tasks_def)
  show "waiting_at S t' k = Some task" by (simp add: w)
  have new: "task_id task \<notin> live S t" using inv(5) by auto
  then have new_q: "task_id task \<notin> task_id ` set (run_q t)" by (auto simp: live_def tasks_def)
  have old: "task_id task' \<noteq> task_id task" if "waiting_at S t k' = Some task'" for k' task'
    using live_waiting [OF that] new by metis
  show "exec_inv S None t'"
  proof (rule exec_invI, goal_cases)
    case 1 show ?case using inv(1) by (simp add: t')
  next
    case (2 k' task') then show ?case
      using inv(2) [of k' task'] old by (cases "k' = k") (auto simp: w t')
  next
    case (3 k' task') then show ?case
      using inv(3) [of k' task'] new_q by (cases "k' = k") (auto simp: w t')
  next
    case (4 a) then show ?case using inv(4) [of a] inv(6) by (auto simp: live_def tasks t')
  qed simp_all
qed

text \<open>
  One turn, for the tasks: \<open>task\<close> is taken off and its future polled in \<open>t1\<close>, which leads to
  \<open>t2\<close>; then the task is put back with what is left of its future, or its value is sent.
\<close>

definition turn :: "('ws, 'g, ('u, 'ps, 'os, 'ms) inner, 'w, 'v) thread \<Rightarrow> 'g Task \<Rightarrow>
    ('ws, 'g, ('u, 'ps, 'os, 'ms) inner, 'w, 'v) thread \<Rightarrow> 'v Poll \<Rightarrow> 'g \<Rightarrow>
    ('ws, 'g, ('u, 'ps, 'os, 'ms) inner, 'w, 'v) thread \<Rightarrow>
    ('ws, 'g, ('u, 'ps, 'os, 'ms) inner, 'w, 'v) thread \<Rightarrow> bool" where
  "turn t task t1 r g t2 t4 \<longleftrightarrow>
     tasks S t = insert task (tasks S t1) \<and> task_id task \<notin> live S t1 \<and> chans t1 = chans t \<and> next_id t1 = next_id t \<and> world t1 = world t
   \<and> upoll (sf_fut (task_future task)) (task_id task) t1 = Some (Inr (r, g, t2)) \<and> grows t1 t2
   \<and> task_id task \<notin> live S t2 \<and> next_id t4 = next_id t2
   \<and> (case r of
        Poll_Pending \<Rightarrow> chans t4 = chans t2 \<and> world t4 = world t2
          \<and> tasks S t4 = insert (task\<lparr>task_future := (task_future task)\<lparr>sf_fut := g\<rparr>\<rparr>) (tasks S t2)
      | Poll_Ready v \<Rightarrow> tasks S t4 = tasks S t2 \<and> world t4 = finish (task_future task) (world t2) \<and> (\<exists>c. chan_send v (chans t2 ! sf_tx (task_future task)) = Some c
          \<and> chans t4 = (chans t2)[sf_tx (task_future task) := c\<lparr>ch_tx := False\<rparr>]))"

lemma executor_iter_polls:
  assumes iter: "executor_iter S D X upoll t = Some (Inr (d, t4))" and inv: "exec_inv S None t"
  obtains t0 q task r g t2 where "react_if_idle S D t = Some (Inr t0)" "run_q t0 = q @ [task]" "exec_inv S None t0"
    "exec_inv S None t4" "turn t task (t0\<lparr>run_q := q\<rparr>) r g t2 t4"
proof -
  obtain t0 q task p fut t2 where 1: "react_if_idle S D t = Some (Inr t0)" "run_q t0 = q @ [task]"
    "spawn_fut_poll X upoll (task_future task) (task_id task) (t0\<lparr>run_q := q\<rparr>) = Some (Inr (p, fut, t2))"
    and 2: "p = Poll_Ready () \<and> t4 = t2 \<or> p = Poll_Pending \<and> (\<exists>k ws. insert_rs S (waiting t2) (task\<lparr>task_future := fut\<rparr>) = Inr (k, ws)
       \<and> t4 = t2\<lparr>ids := (ids t2)(task_id task := slab_vacant_key S (waiting t2)), waiting := ws\<rparr>)"
    by (rule executor_iter_ok [OF iter])
  let ?t1 = "t0\<lparr>run_q := q\<rparr>" and ?a = "task_id task" and ?tx = "sf_tx (task_future task)"
  note r = react_if_idle_inv [OF 1(1) inv]
  note pop = pop_inv [OF r(1) 1(2)]
  obtain qq g tm where 3: "upoll (sf_fut (task_future task)) ?a ?t1 = Some (Inr (qq, g, tm))" "effects S X priv ?t1 tm"
    "fut = (task_future task)\<lparr>sf_fut := g\<rparr>"
    and 4: "qq = Poll_Pending \<and> p = Poll_Pending \<and> t2 = tm \<or>
     (\<exists>v c. qq = Poll_Ready v \<and> p = Poll_Ready () \<and> chan_send v (chans tm ! ?tx) = Some c
        \<and> t2 = tm\<lparr>world := finish (task_future task) (world tm), chans := (chans tm)[?tx := c\<lparr>ch_tx := False\<rparr>]\<rparr>)"
    by (rule spawn_fut_poll_effects [OF 1(3)])
  from effects_inv [OF 3(2) pop(1)] have e: "exec_inv S (Some ?a) tm" "grows ?t1 tm" by simp_all
  have a: "?a \<notin> live S tm" using exec_invD(5) [OF e(1), of ?a] by auto
  show thesis using 4
  proof (elim disjE exE conjE)
    assume pend: "qq = Poll_Pending" "p = Poll_Pending" "t2 = tm"
    with 2 obtain k ws where ins: "insert_rs S (waiting tm) (task\<lparr>task_future := fut\<rparr>) = Inr (k, ws)"
      and t4: "t4 = tm\<lparr>ids := (ids tm)(?a := slab_vacant_key S (waiting tm)), waiting := ws\<rparr>" by auto
    note park = park_inv [of "task\<lparr>task_future := fut\<rparr>" tm k ws t4]
    have p4: "exec_inv S None t4" "tasks S t4 = insert (task\<lparr>task_future := fut\<rparr>) (tasks S tm)"
      using park e(1) ins t4 by simp_all
    moreover have "turn t task ?t1 qq g tm t4"
      unfolding turn_def using pop(2,3) r 3 e a pend p4(2) t4 by simp
    ultimately show thesis using that 1(1,2) r(1) by blast
  next
    fix v c assume ready: "qq = Poll_Ready v" "p = Poll_Ready ()" "chan_send v (chans tm ! ?tx) = Some c"
      and t2: "t2 = tm\<lparr>world := finish (task_future task) (world tm), chans := (chans tm)[?tx := c\<lparr>ch_tx := False\<rparr>]\<rparr>"
    have t4: "t4 = t2" using 2 ready(2) by simp
    note env = env_inv [OF e(1), of "chans t2" "world t2" "inner tm"]
    have inv2: "exec_inv S (Some ?a) t2" and tasks2: "tasks S t2 = tasks S tm" using env by (simp_all add: t2)
    then have "exec_inv S None t4" by (auto simp: t4 exec_inv_def)
    moreover have "turn t task ?t1 qq g tm t4"
      unfolding turn_def using pop(2,3) r 3 e a ready tasks2 by (simp add: t4) (simp add: t2)
    ultimately show thesis using that 1(1,2) r(1) by blast
  qed
qed

lemma executor_iter_turn:
  assumes "executor_iter S D X upoll t = Some (Inr (d, t4))" "exec_inv S None t"
  obtains task t1 r g t2 where "exec_inv S None t4" "turn t task t1 r g t2 t4"
  using executor_iter_polls [OF assms] by metis

lemma turn_live:
  assumes "turn t task t1 r g t2 t4"
  shows "task \<in> tasks S t" "next_id t \<le> next_id t4"
    "live S t4 = live S t \<union> {next_id t..<next_id t4} - (if r = Poll_Pending then {} else {task_id task})"
proof -
  show "task \<in> tasks S t" "next_id t \<le> next_id t4" using assms by (auto simp: turn_def grows_def)
  have "live S t = insert (task_id task) (live S t1)" using assms by (simp add: turn_def live_def)
  moreover have "live S t2 = live S t1 \<union> {next_id t..<next_id t4}"
    using assms by (simp add: turn_def grows_def)
  moreover have "task_id task \<notin> live S t2" using assms unfolding turn_def by blast
  moreover have "live S t4 = (if r = Poll_Pending then insert (task_id task) (live S t2) else live S t2)"
    using assms by (auto simp: turn_def live_def split: Poll.splits)
  ultimately show "live S t4 = live S t \<union> {next_id t..<next_id t4} - (if r = Poll_Pending then {} else {task_id task})"
    by auto
qed

end

end
