(* ===== verification/TaskLoop.thy ===== *)
theory TaskLoop
  imports TaskThms
begin

text \<open>
  Rules for the executor's loop: an invariant of its turns holds when it returns, and it
  returns if a measure decreases; the way of a task's value into its channel.
\<close>

lemma executor_iter_finished:
  "executor_iter S D X upoll t = Some (Inr (d, t')) \<Longrightarrow> d \<longleftrightarrow> run_q t' = [] \<and> slab_is_empty S (waiting t')"
  by (auto simp: executor_iter_def obind_eq_ok Let_def)

lemma executor_loop_post:
  assumes "executor_loop S D X upoll t = Some (Inr t')" "P t"
    and "\<And>t d t'. P t \<Longrightarrow> executor_iter S D X upoll t = Some (Inr (d, t')) \<Longrightarrow> P t'"
  shows "P t' \<and> run_q t' = [] \<and> slab_is_empty S (waiting t')"
proof -
  have "\<forall>P t'. r = Inr t' \<longrightarrow> P t \<longrightarrow> (\<forall>t d t'. P t \<longrightarrow> executor_iter S D X upoll t = Some (Inr (d, t')) \<longrightarrow> P t') \<longrightarrow>
      P t' \<and> run_q t' = [] \<and> slab_is_empty S (waiting t')"
    if "executor_loop S D X upoll t = Some r" for r
  proof (rule executor_loop.raw_induct [OF _ that], goal_cases)
    case turn: (1 loop S D X upoll t r)
    show ?case
    proof (intro allI impI, goal_cases)
      case prems: (1 P t')
      from turn(2) prems(1) obtain d t1 where it: "executor_iter S D X upoll t = Some (Inr (d, t1))"
        and rest: "if d then t1 = t' else loop S D X upoll t1 = Some (Inr t')"
        by (auto split: option.splits sum.splits if_splits)
      note P1 = prems(3) [rule_format, OF prems(2) it]
      show ?case
      proof (cases d)
        case True
        with rest P1 executor_iter_finished [OF it] show ?thesis by simp
      next
        case False
        with rest have "loop S D X upoll t1 = Some (Inr t')" by simp
        from turn(1) [OF this, rule_format, where P = P, OF refl P1 prems(3) [rule_format]] show ?thesis .
      qed
    qed
  qed
  from this [OF assms(1), rule_format, where P = P, OF refl assms(2) assms(3)] show ?thesis .
qed

lemma executor_loop_total:
  fixes m :: "('ws, 'g, ('u, 'ps, 'os, 'ms) inner, 'w, 'v) thread \<Rightarrow> nat"
  assumes "P t"
    and "\<And>t. P t \<Longrightarrow> \<exists>d t'. executor_iter S D X upoll t = Some (Inr (d, t')) \<and> (\<not> d \<longrightarrow> P t' \<and> m t' < m t)"
  shows "\<exists>t'. executor_loop S D X upoll t = Some (Inr t')"
  using assms(1)
proof (induction "m t" arbitrary: t rule: less_induct)
  case less
  from assms(2) [OF less.prems] obtain d t' where
    "executor_iter S D X upoll t = Some (Inr (d, t'))" "\<not> d \<longrightarrow> P t' \<and> m t' < m t" by blast
  with less.hyps [of t'] show ?case by (subst executor_loop.simps) auto
qed

context executor_env
begin

subsection \<open>The value of a task\<close>

text \<open>
  \<open>owes ch Q R t\<close>: either one task is to send on the channel \<open>ch\<close>, its future satisfies \<open>Q\<close> and the
  channel is untouched, or a value that satisfies \<open>R\<close> has been sent and no task will send.
\<close>

definition senders :: "nat \<Rightarrow> ('ws, 'g, ('u, 'ps, 'os, 'ms) inner, 'w, 'v) thread \<Rightarrow> 'g Task set" where
  "senders ch t = {task \<in> tasks S t. sf_tx (task_future task) = ch}"

definition owes :: "nat \<Rightarrow> ('g \<Rightarrow> bool) \<Rightarrow> ('v \<Rightarrow> bool) \<Rightarrow> ('ws, 'g, ('u, 'ps, 'os, 'ms) inner, 'w, 'v) thread \<Rightarrow> bool" where
  "owes ch Q R t \<longleftrightarrow> ch < length (chans t) \<and>
     ((\<exists>task. senders ch t = {task} \<and> Q (sf_fut (task_future task))) \<and> chans t ! ch = sync_channel
      \<or> senders ch t = {} \<and> (\<exists>v. R v \<and> chans t ! ch = \<lparr>ch_buf = Some v, ch_tx = False, ch_rx = True\<rparr>))"

lemma grows_senders:
  assumes "grows t t'" "ch \<in> priv" "ch < length (chans t)"
  shows "senders ch t' = senders ch t" "chans t' ! ch = chans t ! ch" "ch < length (chans t')"
proof -
  have "sf_tx (task_future task) \<noteq> ch" if "task \<in> tasks S t'" "task \<notin> tasks S t" for task
  proof -
    have "length (chans t) \<le> sf_tx (task_future task)" using assms(1) that unfolding grows_def by blast
    with assms(3) show ?thesis by linarith
  qed
  moreover have "tasks S t \<subseteq> tasks S t'" using assms(1) by (simp add: grows_def)
  ultimately show "senders ch t' = senders ch t" by (auto simp: senders_def)
  show "chans t' ! ch = chans t ! ch" "ch < length (chans t')" using assms by (auto simp: grows_def)
qed

lemma turn_owes:
  assumes turn: "turn t task t1 r g t2 t4" and owes: "owes ch Q R t" and priv: "ch \<in> priv"
    and pending: "r = Poll_Pending \<Longrightarrow> Q (sf_fut (task_future task)) \<Longrightarrow> Q g"
    and ready: "\<And>v. r = Poll_Ready v \<Longrightarrow> Q (sf_fut (task_future task)) \<Longrightarrow> R v"
  shows "owes ch Q R t4"
proof -
  have len: "ch < length (chans t1)" using turn owes by (simp add: turn_def owes_def)
  have "grows t1 t2" using turn by (simp add: turn_def)
  note g = grows_senders [OF this priv len]
  have new: "task \<notin> tasks S t1" using turn by (auto simp: turn_def live_def)
  have s1: "senders ch t = (if sf_tx (task_future task) = ch then insert task (senders ch t1) else senders ch t1)"
    using turn by (auto simp: turn_def senders_def)
  have s4: "senders ch t4 = (if r = Poll_Pending \<and> sf_tx (task_future task) = ch
      then insert (task\<lparr>task_future := (task_future task)\<lparr>sf_fut := g\<rparr>\<rparr>) (senders ch t2) else senders ch t2)"
    using turn by (auto simp: turn_def senders_def split: Poll.splits)
  have notin: "task \<notin> senders ch t1" using new by (simp add: senders_def)
  have c1: "chans t1 = chans t" using turn by (simp add: turn_def)
  have len4: "ch < length (chans t4)" using turn g(3) by (auto simp: turn_def split: Poll.splits)
  show ?thesis
  proof (cases "sf_tx (task_future task) = ch")
    case True
    with owes s1 notin have q: "Q (sf_fut (task_future task))" "senders ch t1 = {}" "chans t ! ch = sync_channel"
      by (auto simp: owes_def)
    show ?thesis
    proof (cases r)
      case Poll_Pending
      with turn g c1 q have "chans t4 ! ch = sync_channel" by (simp add: turn_def)
      with s4 True Poll_Pending g q pending len4 show ?thesis by (simp add: owes_def)
    next
      case (Poll_Ready v)
      with turn True g c1 q have "chans t4 ! ch = \<lparr>ch_buf = Some v, ch_tx = False, ch_rx = True\<rparr>"
        by (auto simp: turn_def chan_send_def sync_channel_def)
      with s4 Poll_Ready g q ready len4 show ?thesis by (simp add: owes_def)
    qed
  next
    case False
    with turn g(2) c1 have "chans t4 ! ch = chans t ! ch" by (auto simp: turn_def split: Poll.splits)
    with owes s1 s4 False g(1) len4 show ?thesis by (simp add: owes_def)
  qed
qed

lemma loop_owes:
  assumes loop: "executor_loop S D X upoll t = Some (Inr t')" and inv: "exec_inv S None t"
    and owes: "owes ch Q R t" and priv: "ch \<in> priv"
    and pending: "\<And>g a t g' t'. Q g \<Longrightarrow> upoll g a t = Some (Inr (Poll_Pending, g', t')) \<Longrightarrow> Q g'"
    and ready: "\<And>g a t v g' t'. Q g \<Longrightarrow> upoll g a t = Some (Inr (Poll_Ready v, g', t')) \<Longrightarrow> R v"
  shows "exec_inv S None t'" "tasks S t' = {}" "\<exists>v. R v \<and> chans t' ! ch = \<lparr>ch_buf = Some v, ch_tx = False, ch_rx = True\<rparr>"
    "ch < length (chans t')"
proof -
  have step: "exec_inv S None t4 \<and> owes ch Q R t4"
    if start: "exec_inv S None t \<and> owes ch Q R t" and it: "executor_iter S D X upoll t = Some (Inr (d, t4))" for t d t4
  proof -
    obtain task t1 r g t2 where "exec_inv S None t4" and turn: "turn t task t1 r g t2 t4"
      by (rule executor_iter_turn [OF it conjunct1 [OF start]])
    moreover have "upoll (sf_fut (task_future task)) (task_id task) t1 = Some (Inr (r, g, t2))"
      using turn by (simp add: turn_def)
    ultimately show ?thesis using turn_owes [OF turn conjunct2 [OF start] priv] pending ready by blast
  qed
  have "(exec_inv S None t' \<and> owes ch Q R t') \<and> run_q t' = [] \<and> slab_is_empty S (waiting t')"
  proof (rule executor_loop_post [where P = "\<lambda>t. exec_inv S None t \<and> owes ch Q R t", OF loop])
    show "exec_inv S None t \<and> owes ch Q R t" using inv owes by simp
  qed (rule step)
  then have t': "exec_inv S None t'" "owes ch Q R t'" "run_q t' = []" "slab_is_empty S (waiting t')" by simp_all
  then show "exec_inv S None t'" "ch < length (chans t')" by (simp_all add: owes_def)
  from t'(3,4) show none: "tasks S t' = {}" by (simp add: tasks_def waiting_at_def sl.is_empty_iff)
  with t'(2) show "\<exists>v. R v \<and> chans t' ! ch = \<lparr>ch_buf = Some v, ch_tx = False, ch_rx = True\<rparr>"
    by (auto simp: owes_def senders_def)
qed

lemma spawn_owes:
  assumes "exec_inv S None t" "\<forall>task\<in>tasks S t. sf_tx (task_future task) < length (chans t)"
    and "spawn X f t = Inr (j, t1)" "Q f"
  shows "owes (length (chans t)) Q R t1"
proof -
  from spawn_inv(3,4) [OF assms(1,3)] obtain task where
    "chans t1 = chans t @ [sync_channel]" "tasks S t1 = insert task (tasks S t)"
    "sf_tx (task_future task) = length (chans t)" "sf_fut (task_future task) = f" by blast
  moreover from this(2,3) assms(2) have "senders (length (chans t)) t1 = {task}" by (auto simp: senders_def)
  ultimately show ?thesis using assms(4) by (simp add: owes_def)
qed

lemma join_sent:
  assumes "chans t ! tj_rx j = \<lparr>ch_buf = Some v, ch_tx = False, ch_rx = True\<rparr>" "tj_finished j = event_wait (tj_evt j)"
  shows "\<exists>t'. join D X j t = Some (Inr (v, t'))"
  using assms by (simp add: join_def chan_recv_def joiner_drop_def event_waiter_drop_def event_wait_def
    oneshot_io_new_def oneshot_io_drop_def Let_def)

lemma block_on_owes:
  assumes inv: "exec_inv S None t" "\<forall>task\<in>tasks S t. sf_tx (task_future task) < length (chans t)"
    and spawn: "spawn X f t = Inr (j, t1)" and loop: "executor_loop S D X upoll t1 = Some (Inr t2)"
    and priv: "length (chans t) \<in> priv" and Q: "Q f"
    and pending: "\<And>g a t g' t'. Q g \<Longrightarrow> upoll g a t = Some (Inr (Poll_Pending, g', t')) \<Longrightarrow> Q g'"
    and ready: "\<And>g a t v g' t'. Q g \<Longrightarrow> upoll g a t = Some (Inr (Poll_Ready v, g', t')) \<Longrightarrow> R v"
  shows "\<exists>v t3. R v \<and> block_on S D X upoll f t = Some (Inr (v, t3))"
proof -
  have j: "tj_rx j = length (chans t)" "tj_finished j = event_wait (tj_evt j)"
    by (rule spawn_task [OF spawn], simp)+
  have inv1: "exec_inv S None t1" by (rule spawn_inv(1) [OF inv(1) spawn])
  have owes: "owes (length (chans t)) Q R t1" by (rule spawn_owes [where Q = Q, OF inv spawn Q])
  have "\<exists>v. R v \<and> chans t2 ! length (chans t) = \<lparr>ch_buf = Some v, ch_tx = False, ch_rx = True\<rparr>"
    by (rule loop_owes(3) [OF loop inv1 owes priv]) (fact pending, fact ready)
  then obtain v where v: "R v" "chans t2 ! length (chans t) = \<lparr>ch_buf = Some v, ch_tx = False, ch_rx = True\<rparr>"
    by blast
  from join_sent [of t2 j v] v(2) j obtain t3 where "join D X j t2 = Some (Inr (v, t3))" by auto
  with v(1) spawn loop show ?thesis by (auto simp: block_on_def)
qed

subsection \<open>Termination\<close>

text \<open>The work left in a thread, given the work of a future.\<close>

definition load :: "('g \<Rightarrow> nat) \<Rightarrow> 'g Task set \<Rightarrow> nat" where
  "load work T = (\<Sum>task\<in>T. Suc (work (sf_fut (task_future task))))"

lemma turn_load:
  assumes turn: "turn t task t1 r g t2 t4" and fin: "finite (tasks S t)"
    and new: "finite (tasks S t2 - tasks S t1)"
    and work: "load work (tasks S t2 - tasks S t1) + (case r of Poll_Pending \<Rightarrow> Suc (work g) | Poll_Ready _ \<Rightarrow> 0)
      \<le> work (sf_fut (task_future task))"
  shows "finite (tasks S t4)" "load work (tasks S t4) < load work (tasks S t)"
proof -
  have t: "tasks S t = insert task (tasks S t1)" "task \<notin> tasks S t1"
    using turn by (auto simp: turn_def live_def)
  have sub: "tasks S t1 \<subseteq> tasks S t2" using turn by (simp add: turn_def grows_def)
  have fin1: "finite (tasks S t1)" using fin t(1) by simp
  have fin2: "finite (tasks S t2)" using fin1 new sub by (metis finite_Diff2)
  have l0: "load work (tasks S t) = Suc (work (sf_fut (task_future task))) + load work (tasks S t1)"
    using t fin1 by (simp add: load_def)
  have l2: "load work (tasks S t2) = load work (tasks S t1) + load work (tasks S t2 - tasks S t1)"
    using sum.subset_diff [OF sub fin2, of "\<lambda>task. Suc (work (sf_fut (task_future task)))"] by (simp add: load_def)
  have l4: "finite (tasks S t4) \<and>
      load work (tasks S t4) \<le> load work (tasks S t2) + (case r of Poll_Pending \<Rightarrow> Suc (work g) | Poll_Ready _ \<Rightarrow> 0)"
    using turn fin2 by (cases r) (auto simp: turn_def load_def sum.insert_if)
  then show "finite (tasks S t4)" ..
  from l0 l2 l4 work show "load work (tasks S t4) < load work (tasks S t)" by linarith
qed

lemma loop_terminates:
  assumes inv: "exec_inv S None t" "finite (tasks S t)" "tasks S t \<noteq> {}" and P: "P t"
    and turns: "\<And>t. P t \<Longrightarrow> tasks S t \<noteq> {} \<Longrightarrow> \<exists>d t'. executor_iter S D X upoll t = Some (Inr (d, t')) \<and> P t'"
    and work: "\<And>g a t r g' t'. upoll g a t = Some (Inr (r, g', t')) \<Longrightarrow> finite (tasks S t' - tasks S t)
      \<and> load work (tasks S t' - tasks S t) + (case r of Poll_Pending \<Rightarrow> Suc (work g') | Poll_Ready _ \<Rightarrow> 0) \<le> work g"
  shows "\<exists>t'. executor_loop S D X upoll t = Some (Inr t')"
proof (rule executor_loop_total [where m = "\<lambda>t. load work (tasks S t)" and
      P = "\<lambda>t. exec_inv S None t \<and> finite (tasks S t) \<and> tasks S t \<noteq> {} \<and> P t"])
  show "exec_inv S None t \<and> finite (tasks S t) \<and> tasks S t \<noteq> {} \<and> P t" using inv P by simp
next
  fix t assume t: "exec_inv S None t \<and> finite (tasks S t) \<and> tasks S t \<noteq> {} \<and> P t"
  with turns obtain d t' where it: "executor_iter S D X upoll t = Some (Inr (d, t'))" "P t'" by blast
  obtain task t1 r g t2 where inv': "exec_inv S None t'" and turn: "turn t task t1 r g t2 t'"
    by (rule executor_iter_turn [OF it(1) conjunct1 [OF t]])
  have "upoll (sf_fut (task_future task)) (task_id task) t1 = Some (Inr (r, g, t2))" using turn by (simp add: turn_def)
  note w = work [OF this]
  note l = turn_load [OF turn _ conjunct1 [OF w] conjunct2 [OF w]]
  have "tasks S t' \<noteq> {}" if "\<not> d"
    using executor_iter_finished [OF it(1)] that
    by (auto simp: tasks_def waiting_at_def sl.is_empty_iff ran_def fun_eq_iff)
  with it l inv' t show "\<exists>d t'. executor_iter S D X upoll t = Some (Inr (d, t')) \<and>
      (\<not> d \<longrightarrow> (exec_inv S None t' \<and> finite (tasks S t') \<and> tasks S t' \<noteq> {} \<and> P t')
         \<and> load work (tasks S t') < load work (tasks S t))" by blast
qed

end

end
