(* ===== verification/TaskProps.thy ===== *)
theory TaskProps
  imports TaskLoop
begin

text \<open>
  The properties of the executor as closed statements, with instances on a small language of
  futures: \<open>DReturn\<close> is done, \<open>DWake\<close> wakes its own task and is pending once, \<open>DSpawn\<close> spawns a
  future and goes on.
\<close>

subsection \<open>Futures for the instances\<close>

datatype demo = DReturn nat | DWake demo | DSpawn demo demo

fun demo_poll :: "(demo, (demo Task option list, demo, 'i, sim, nat) thread, nat) upoll" where
  "demo_poll (DReturn n) a t = Some (Inr (Poll_Ready n, DReturn n, t))"
| "demo_poll (DWake f) a t = Some (Inr (Poll_Pending, f, wake vec_slab a t))"
| "demo_poll (DSpawn f g) a t = (case spawn sim_os f t of
     Inl p \<Rightarrow> Some (Inl p)
   | Inr (j, t') \<Rightarrow> demo_poll g a t')"

fun demo_result :: "demo \<Rightarrow> nat" where
  "demo_result (DReturn n) = n"
| "demo_result (DWake f) = demo_result f"
| "demo_result (DSpawn f g) = demo_result g"

fun demo_work :: "demo \<Rightarrow> nat" where
  "demo_work (DReturn n) = 0"
| "demo_work (DWake f) = Suc (demo_work f)"
| "demo_work (DSpawn f g) = Suc (demo_work f + demo_work g)"

lemma demo_effects:
  "demo_poll g a t = Some (Inr (p, g', t')) \<Longrightarrow> effects vec_slab sim_os priv t0 t \<Longrightarrow> effects vec_slab sim_os priv t0 t'"
proof (induction g a t rule: demo_poll.induct)
  case (3 f g a t)
  then obtain j t1 where "spawn sim_os f t = Inr (j, t1)" "demo_poll g a t1 = Some (Inr (p, g', t'))"
    by (auto split: sum.splits prod.splits)
  with "3.IH" [of "(j, t1)" j t1] "3.prems"(2) show ?case by (auto intro: eff_spawn)
qed (auto intro: eff_wake)

lemma demo_value:
  "demo_poll g a t = Some (Inr (r, g', t')) \<Longrightarrow> demo_result g' = demo_result g \<and> (\<forall>v. r = Poll_Ready v \<longrightarrow> v = demo_result g)"
  by (induction g a t rule: demo_poll.induct) (auto split: sum.splits prod.splits)

interpretation demo: executor_env vec_slab D sim_os UNIV demo_poll for D
  by unfold_locales (auto intro: demo_effects eff_refl)

lemma vec_env: "executor_env vec_slab sim_os UNIV demo_poll"
  by unfold_locales (auto intro: demo_effects eff_refl)

abbreviation thread0 :: "(demo Task option list, demo, (script_ring, nat PendingIo option list, ResultState option list,
    i32 list MultishotResultState option list) inner, sim, nat) thread" where
  "thread0 \<equiv> \<lparr>waiting = [], run_q = [], ids = (\<lambda>_. 0), next_id = 0, inner = ri fresh, world = sim0, chans = []\<rparr>"

lemmas demo_eval = spawn_def event_new_def event_clone_def event_wait_def event_drop_def notify_one_def sync_channel_def
  executor_iter_def react_if_idle_def spawn_fut_poll_def chan_send_def wake_def waiting_at_def tasks_def live_def
  sim_eval vec_slab_simps oneshot_io_new_def Let_def

text \<open>The work of a future bounds what a poll leaves of it together with what the poll spawns.\<close>

lemma tasks_wake_vec: "tasks vec_slab (wake vec_slab a t) = tasks vec_slab t"
proof (cases "waiting_at vec_slab t (ids t a)")
  case None
  then have "wake vec_slab a t = t"
    using slab_laws.try_remove_vacant [OF vec.slab_laws_axioms, of "waiting t" "ids t a"] by (simp add: wake_def waiting_at_def)
  then show ?thesis by simp
next
  case (Some task)
  then have "run_q (wake vec_slab a t) = run_q t @ [task]"
    "waiting_at vec_slab (wake vec_slab a t) = (waiting_at vec_slab t)(ids t a := None)"
    using slab_laws.try_remove_occupied [OF vec.slab_laws_axioms, of "waiting t" "ids t a" task]
    by (auto simp: wake_def waiting_at_def)
  then show ?thesis using ran_extract [of "waiting_at vec_slab t" "ids t a" task] Some by (auto simp: tasks_def)
qed

lemma demo_load:
  "demo_poll g a t = Some (Inr (r, g', t')) \<Longrightarrow> finite (tasks vec_slab t' - tasks vec_slab t)
     \<and> (\<Sum>task\<in>tasks vec_slab t' - tasks vec_slab t. Suc (demo_work (sf_fut (task_future task))))
        + (case r of Poll_Pending \<Rightarrow> Suc (demo_work g') | Poll_Ready _ \<Rightarrow> 0) \<le> demo_work g"
proof (induction g a t rule: demo_poll.induct)
  case (3 f g a t)
  from "3.prems" obtain j t1 where t1: "spawn sim_os f t = Inr (j, t1)" "demo_poll g a t1 = Some (Inr (r, g', t'))"
    by (auto split: sum.splits prod.splits)
  note IH = "3.IH" [OF t1(1) refl t1(2)]
  obtain task where task: "tasks vec_slab t1 = insert task (tasks vec_slab t)" "sf_fut (task_future task) = f"
  proof (rule demo.spawn_task [OF t1(1)], goal_cases)
    case prems: (1 evt)
    show ?case by (rule prems(1), simp add: tasks_def waiting_at_def prems(2,3), simp)
  qed
  let ?w = "\<lambda>task. Suc (demo_work (sf_fut (task_future task)))"
  have sub: "tasks vec_slab t' - tasks vec_slab t \<subseteq> insert task (tasks vec_slab t' - tasks vec_slab t1)"
    using task(1) by auto
  have fin: "finite (insert task (tasks vec_slab t' - tasks vec_slab t1))" using IH by simp
  have "sum ?w (tasks vec_slab t' - tasks vec_slab t) \<le> sum ?w (insert task (tasks vec_slab t' - tasks vec_slab t1))"
    by (rule sum_mono2 [OF fin sub]) simp
  also have "\<dots> = ?w task + sum ?w (tasks vec_slab t' - tasks vec_slab t1)" using IH task(1) by simp
  finally have "sum ?w (tasks vec_slab t' - tasks vec_slab t) \<le> Suc (demo_work f) + sum ?w (tasks vec_slab t' - tasks vec_slab t1)"
    using task(2) by simp
  then show ?case using IH finite_subset [OF sub fin] by simp
qed (auto simp: tasks_wake_vec)

lemma vec_get_Nil: "vec_get [] = Map.empty"
  by (simp add: fun_eq_iff vec_get_def)

lemma thread0_inv: "exec_inv vec_slab None thread0" "tasks vec_slab thread0 = {}"
  by (simp_all add: exec_inv_def live_def tasks_def waiting_at_def vec_slab_def vec_get_Nil)

lemma slab_env: "slab_laws S \<Longrightarrow> executor_env S X priv (\<lambda>_ _ _. None)"
  by (simp add: executor_env_def executor_env_axioms_def)

text \<open>A completion batch wakes the same objects whatever waking does.\<close>

lemma react_loop_objects:
  "react_loop D (\<lambda>a as. as @ [a]) \<lparr>compl_queue = cs, ring = i0\<rparr> ys = Inr (i, zs) \<Longrightarrow>
     \<exists>as. zs = ys @ as \<and> react_loop D f \<lparr>compl_queue = cs, ring = i0\<rparr> x = Inr (i, fold f as x)"
proof (induction cs arbitrary: i0 ys x)
  case Nil
  then show ?case by (simp add: react_loop_Nil)
next
  case (Cons c cs)
  then obtain a i1 where c: "handle_cqe D c i0 = Inr (a, i1)"
      "react_loop D (\<lambda>a as. as @ [a]) \<lparr>compl_queue = cs, ring = i1\<rparr> (ys @ [a]) = Inr (i, zs)"
    by (auto simp: react_loop_Cons rbind_eq_Inr)
  from Cons.IH [OF c(2), of "f a x"] obtain as where
    "zs = (ys @ [a]) @ as" "react_loop D f \<lparr>compl_queue = cs, ring = i1\<rparr> (f a x) = Inr (i, fold f as (f a x))" by blast
  with c(1) show ?case by (intro exI [of _ "a # as"]) (simp add: react_loop_Cons)
qed

lemma fold_wake_stale:
  assumes "slab_laws S" "\<forall>a\<in>set as. waiting_at S t (ids t a) = None"
  shows "fold (wake S) as t = t"
  using assms(2)
proof (induction as)
  case (Cons a as)
  then have "wake S a t = t"
    using slab_laws.try_remove_vacant [OF assms(1)] by (simp add: wake_def waiting_at_def)
  with Cons show ?case by simp
qed simp

subsection \<open>Properties\<close>

text \<open>
  C6. One turn of the executor's loop. No task is lost or duplicated: a turn keeps the
  invariant (no task is held twice, and the cell of a waiting task holds the key of its
  slot), polls the future of one task, and afterwards the executor holds the tasks it held
  and those that were spawned meanwhile, except for the polled one if its future was done.
\<close>

theorem executor_turn:
  assumes "executor_env S X priv upoll" "exec_inv S None t" "executor_iter S D X upoll t = Some (Inr (d, t'))"
  shows "exec_inv S None t' \<and> next_id t \<le> next_id t' \<and> (\<exists>task\<in>tasks S t. \<exists>t1 r g t2.
    upoll (sf_fut (task_future task)) (task_id task) t1 = Some (Inr (r, g, t2))
    \<and> live S t' = live S t \<union> {next_id t..<next_id t'} - (if r = Poll_Pending then {} else {task_id task}))"
proof -
  obtain task t1 r g t2 where inv: "exec_inv S None t'" and turn: "executor_env.turn S X priv upoll t task t1 r g t2 t'"
    by (rule executor_env.executor_iter_turn [OF assms(1,3,2)])
  note l = executor_env.turn_live [OF assms(1) turn]
  have "upoll (sf_fut (task_future task)) (task_id task) t1 = Some (Inr (r, g, t2))"
    using turn by (simp add: executor_env.turn_def [OF assms(1)])
  with inv l(2,3) l(1) show ?thesis by (intro conjI bexI [of _ task] exI [of _ t1] exI [of _ r] exI [of _ g] exI [of _ t2]) 
qed

theorem executor_turn_witness:
  "\<exists>j t t'. spawn sim_os (DSpawn (DReturn 1) (DReturn 5)) thread0 = Inr (j, t)
     \<and> executor_iter vec_slab ring0 sim_os demo_poll t = Some (Inr (False, t'))
     \<and> exec_inv vec_slab None t' \<and> live vec_slab t = {0} \<and> live vec_slab t' = {1}"
proof -
  have "\<exists>j t t'. spawn sim_os (DSpawn (DReturn 1) (DReturn 5)) thread0 = Inr (j, t)
      \<and> executor_iter vec_slab ring0 sim_os demo_poll t = Some (Inr (False, t'))
      \<and> live vec_slab t = {0} \<and> live vec_slab t' = {1}"
    by (simp add: demo_eval vec_get_Nil)
  then obtain j t t' where run: "spawn sim_os (DSpawn (DReturn 1) (DReturn 5)) thread0 = Inr (j, t)"
      "executor_iter vec_slab ring0 sim_os demo_poll t = Some (Inr (False, t'))"
      "live vec_slab t = {0}" "live vec_slab t' = {1}" by blast
  have "exec_inv vec_slab None t" by (rule demo.spawn_inv(1) [OF thread0_inv(1) run(1)])
  from conjunct1 [OF executor_turn [OF vec_env this run(2)]] run show ?thesis by blast
qed

text \<open>
  The turns of the loop, with the task each of them polls and what the poll returns. The task is
  taken from the end of the run queue, which the reactor has filled if it was empty.
\<close>

inductive loop_turns :: "('ws, 'g) task_slab \<Rightarrow> ('u, 'ps, 'os, 'ms, 'rb, nat) deps \<Rightarrow> 'w os_api \<Rightarrow>
    ('g, ('ws, 'g, ('u, 'ps, 'os, 'ms) inner, 'w, 'v) thread, 'v) upoll \<Rightarrow> ('ws, 'g, ('u, 'ps, 'os, 'ms) inner, 'w, 'v) thread \<Rightarrow>
    (nat \<times> 'v Poll) list \<Rightarrow> ('ws, 'g, ('u, 'ps, 'os, 'ms) inner, 'w, 'v) thread \<Rightarrow> bool"
  for S D X upoll t where
  turns_nil: "loop_turns S D X upoll t [] t"
| turns_snoc: "loop_turns S D X upoll t ps t1 \<Longrightarrow> react_if_idle S D t1 = Some (Inr t0) \<Longrightarrow> run_q t0 = q @ [task] \<Longrightarrow>
    upoll (sf_fut (task_future task)) (task_id task) (t0\<lparr>run_q := q\<rparr>) = Some (Inr (r, g, t2)) \<Longrightarrow>
    executor_iter S D X upoll t1 = Some (Inr (d, t')) \<Longrightarrow> loop_turns S D X upoll t (ps @ [(task_id task, r)]) t'"

text \<open>
  \<open>each_ends A ps\<close>: the tasks of \<open>A\<close> and no others are polled, each until its future is done, and
  not again after that.
\<close>

fun each_ends :: "nat set \<Rightarrow> (nat \<times> 'v Poll) list \<Rightarrow> bool" where
  "each_ends A [] \<longleftrightarrow> A = {}"
| "each_ends A ((a, r) # ps) \<longleftrightarrow> a \<in> A \<and> each_ends (if r = Poll_Pending then A else A - {a}) ps"

text \<open>
  C11. When \<open>run\<close> returns, all tasks are finished. It has polled each task it was given, and each
  task that was spawned meanwhile, until the future of the task was done, and not again after
  that; it has polled no others, and both queues are empty.
\<close>

theorem run_finishes_all:
  assumes "executor_env S X priv upoll" "exec_inv S None t" "run S D X upoll t = Some (Inr t')"
  shows "\<exists>ps. loop_turns S D X upoll t ps t' \<and> each_ends (live S t \<union> {next_id t..<next_id t'}) ps
    \<and> tasks S t' = {} \<and> run_q t' = []"
proof -
  note env = assms(1)
  have sl: "slab_laws S" using env by (simp add: executor_env_def)
  let ?P = "\<lambda>u. exec_inv S None u \<and> next_id t \<le> next_id u \<and> (\<exists>ps. loop_turns S D X upoll t ps u \<and>
      (\<forall>n qs. next_id u \<le> n \<longrightarrow> each_ends (live S u \<union> {next_id u..<n}) qs \<longrightarrow> each_ends (live S t \<union> {next_id t..<n}) (ps @ qs)))"
  have step: "?P t2" if P: "?P t1" and it: "executor_iter S D X upoll t1 = Some (Inr (d, t2))" for t1 d t2
  proof -
    from P obtain ps where ps: "loop_turns S D X upoll t ps t1" and ends: "\<And>n qs. next_id t1 \<le> n \<Longrightarrow>
        each_ends (live S t1 \<union> {next_id t1..<n}) qs \<Longrightarrow> each_ends (live S t \<union> {next_id t..<n}) (ps @ qs)" by blast
    obtain t0 q task r g t3 where 1: "react_if_idle S D t1 = Some (Inr t0)" "run_q t0 = q @ [task]" "exec_inv S None t2"
        "executor_env.turn S X priv upoll t1 task (t0\<lparr>run_q := q\<rparr>) r g t3 t2"
      using executor_env.executor_iter_polls [OF env it conjunct1 [OF P]] by metis
    note l = executor_env.turn_live [OF env 1(4)]
    have a: "task_id task \<in> live S t1" using l(1) by (simp add: live_def)
    have "task_id task < next_id t1" using exec_invD(4) [OF conjunct1 [OF P]] a by blast
    then have A: "live S t2 \<union> {next_id t2..<n} = (if r = Poll_Pending then live S t1 \<union> {next_id t1..<n}
        else live S t1 \<union> {next_id t1..<n} - {task_id task})" if "next_id t2 \<le> n" for n
      using l(2) that unfolding l(3) by auto
    have "each_ends (live S t \<union> {next_id t..<n}) ((ps @ [(task_id task, r)]) @ qs)"
      if n: "next_id t2 \<le> n" and qs: "each_ends (live S t2 \<union> {next_id t2..<n}) qs" for n qs
      using ends [of n "(task_id task, r) # qs"] n qs l(2) a A [OF n] by (auto split: if_splits)
    moreover have "upoll (sf_fut (task_future task)) (task_id task) (t0\<lparr>run_q := q\<rparr>) = Some (Inr (r, g, t3))"
      using 1(4) by (simp add: executor_env.turn_def [OF env])
    ultimately show ?thesis using P l(2) 1(3) turns_snoc [OF ps 1(1,2) _ it] by (intro conjI exI [of _ "ps @ [(task_id task, r)]"]) auto
  qed
  have "?P t' \<and> run_q t' = [] \<and> slab_is_empty S (waiting t')"
  proof (rule executor_loop_post [OF assms(3) [unfolded run_def] _ step])
    show "?P t" using assms(2) by (intro conjI exI [of _ "[]"]) (auto intro: turns_nil)
  qed
  then obtain ps where ps: "loop_turns S D X upoll t ps t'" "run_q t' = []" "slab_is_empty S (waiting t')" and
    ends: "\<forall>n qs. next_id t' \<le> n \<longrightarrow> each_ends (live S t' \<union> {next_id t'..<n}) qs \<longrightarrow> each_ends (live S t \<union> {next_id t..<n}) (ps @ qs)"
    by blast
  have none: "tasks S t' = {}" using ps(2,3) by (simp add: tasks_def waiting_at_def slab_laws.is_empty_iff [OF sl])
  then have "each_ends (live S t \<union> {next_id t..<next_id t'}) ps" using ends [rule_format, of "next_id t'" "[]"] by (simp add: live_def)
  with ps(1,2) none show ?thesis by blast
qed

theorem run_finishes_all_witness:
  "\<exists>j t t' ps. spawn sim_os (DSpawn (DReturn 1) (DReturn 5)) thread0 = Inr (j, t)
     \<and> run vec_slab ring0 sim_os demo_poll t = Some (Inr t')
     \<and> loop_turns vec_slab ring0 sim_os demo_poll t ps t' \<and> each_ends {0, 1} ps \<and> tasks vec_slab t' = {}"
proof -
  let ?f = "DSpawn (DReturn 1) (DReturn 5)"
  have "\<exists>j t t'. spawn sim_os ?f thread0 = Inr (j, t) \<and> executor_loop vec_slab ring0 sim_os demo_poll t = Some (Inr t') \<and> next_id t' = 2"
    by (simp add: demo_eval executor_loop.simps)
  then obtain j t t' where run: "spawn sim_os ?f thread0 = Inr (j, t)" "run vec_slab ring0 sim_os demo_poll t = Some (Inr t')"
    and ids: "next_id t' = 2" unfolding run_def by blast
  have t: "live vec_slab t = {0}" "next_id t = 1" using run(1) by (auto simp: demo_eval vec_get_Nil)
  have A: "{0} \<union> {1..<2} = {0, 1 :: nat}" by auto
  have "exec_inv vec_slab None t" by (rule demo.spawn_inv(1) [OF thread0_inv(1) run(1)])
  from run_finishes_all [OF vec_env this run(2)] run show ?thesis unfolding t ids A by blast
qed

text \<open>
  A waker wakes its own task: when a task waits, waking the waker its future was polled
  with moves exactly that task, from its slot to the end of the run queue, and nothing else.
\<close>

lemma wake_own_task:
  assumes "slab_laws S" "exec_inv S cur t" "waiting_at S t k = Some task"
  shows "run_q (wake S (task_id task) t) = run_q t @ [task]
    \<and> waiting_at S (wake S (task_id task) t) = (waiting_at S t)(k := None)
    \<and> exec_inv S cur (wake S (task_id task) t)"
  using executor_env.wake_exact [OF slab_env [OF assms(1)] assms(2,3) refl]
    executor_env.wake_inv(1) [OF slab_env [OF assms(1)] assms(2)] by blast

abbreviation parked :: "demo Task" where
  "parked \<equiv> \<lparr>task_id = 1, task_future = \<lparr>sf_fut = DReturn 5, sf_evt = \<lparr>evt_inner = 3\<rparr>, sf_tx = 0\<rparr>\<rparr>"

lemma parked_inv:
  "exec_inv vec_slab cur (thread0\<lparr>waiting := [None, Some parked], ids := (\<lambda>a. a), next_id := 2\<rparr>)" if "cur = None \<or> cur = Some 0"
proof -
  have w: "waiting_at vec_slab (thread0\<lparr>waiting := [None, Some parked], ids := (\<lambda>a. a), next_id := 2\<rparr>) = [1 \<mapsto> parked]"
    by (auto simp: fun_eq_iff waiting_at_def vec_slab_def vec_get_def nth_Cons split: nat.splits)
  show ?thesis using that unfolding exec_inv_def live_def tasks_def w by auto
qed

lemma wake_own_task_instance:
  "run_q (wake vec_slab 1 (thread0\<lparr>waiting := [None, Some parked], ids := (\<lambda>a. a), next_id := 2\<rparr>)) = [parked]"
proof -
  let ?t = "thread0\<lparr>waiting := [None, Some parked], ids := (\<lambda>a. a), next_id := 2\<rparr>"
  have "waiting_at vec_slab ?t 1 = Some parked" by (simp add: waiting_at_def vec_slab_simps)
  from wake_own_task [OF vec.slab_laws_axioms parked_inv [of None] this] show ?thesis by simp
qed

text \<open>
  C35. A wake-up during the poll of a task does not reach it. Whatever the poll does, its own
  waker included, a task whose poll is pending is put among the waiting ones after it and is
  not in the run queue. If all the poll does is to wake its own waker, the run queue gets at most
  another task, the one whose slot has the key that was left in the cell.
\<close>

theorem wake_during_poll_lost:
  assumes "executor_env S X priv upoll" "exec_inv S None t" "run_q t = q @ [task]"
    and "upoll (sf_fut (task_future task)) (task_id task) (t\<lparr>run_q := q\<rparr>) = Some (Inr (Poll_Pending, g, t2))"
    and "executor_iter S D X upoll t = Some (Inr (d, t'))"
  shows "waiting_at S t' (ids t' (task_id task)) = Some (task\<lparr>task_future := (task_future task)\<lparr>sf_fut := g\<rparr>\<rparr>)
    \<and> task_id task \<notin> task_id ` set (run_q t')
    \<and> (t2 = wake S (task_id task) (t\<lparr>run_q := q\<rparr>) \<longrightarrow>
         run_q t' = q @ (case waiting_at S t (ids t (task_id task)) of None \<Rightarrow> [] | Some other \<Rightarrow> [other]))"
proof -
  note env = assms(1)
  have sl: "slab_laws S" using env by (simp add: executor_env_def)
  let ?a = "task_id task" and ?task = "task\<lparr>task_future := (task_future task)\<lparr>sf_fut := g\<rparr>\<rparr>"
  obtain k ws where ins: "insert_rs S (waiting t2) ?task = Inr (k, ws)"
    and t': "t' = t2\<lparr>ids := (ids t2)(?a := slab_vacant_key S (waiting t2)), waiting := ws\<rparr>"
    using assms(3-5) by (auto simp: executor_iter_def react_if_idle_def spawn_fut_poll_def obind_eq_ok Let_def rs_simps)
  note pop = executor_env.pop_inv(1) [OF env assms(2,3)]
  from executor_env.user_effects [OF env assms(4)] have "exec_inv S (Some ?a) t2"
    using executor_env.effects_inv [OF env] pop by blast
  then have i2: "exec_inv S (Some (task_id ?task)) t2" by simp
  have "waiting_at S t' k = Some ?task" "exec_inv S None t'"
    using executor_env.park_inv [OF env i2 ins, of t'] t' by simp_all
  moreover from this exec_invD(2,3) have "ids t' ?a = k" "?a \<notin> task_id ` set (run_q t')" by fastforce+
  moreover have "run_q (wake S ?a (t\<lparr>run_q := q\<rparr>)) = q @ (case waiting_at S t (ids t ?a) of None \<Rightarrow> [] | Some other \<Rightarrow> [other])"
    using slab_laws.try_remove_vacant [OF sl, of "waiting t" "ids t ?a"] slab_laws.try_remove_occupied [OF sl, of "waiting t" "ids t ?a"]
    by (auto simp: wake_def waiting_at_def split: option.splits)
  ultimately show ?thesis using t' by simp
qed

theorem wake_during_poll_lost_witness:
  "\<exists>j t t'. spawn sim_os (DWake (DReturn 5)) thread0 = Inr (j, t)
     \<and> executor_iter vec_slab ring0 sim_os demo_poll t = Some (Inr (False, t')) \<and> run_q t' = []
     \<and> (\<exists>k task. waiting_at vec_slab t' k = Some task \<and> sf_fut (task_future task) = DReturn 5)
     \<and> executor_loop vec_slab ring0 sim_os demo_poll t' = None"
proof -
  obtain j t t' task t2 where t: "spawn sim_os (DWake (DReturn 5)) thread0 = Inr (j, t)" "run_q t = [] @ [task]"
      "demo_poll (sf_fut (task_future task)) (task_id task) (t\<lparr>run_q := []\<rparr>) = Some (Inr (Poll_Pending, DReturn 5, t2))"
      "t2 = wake vec_slab (task_id task) (t\<lparr>run_q := []\<rparr>)" "waiting_at vec_slab t (ids t (task_id task)) = None"
      "executor_iter vec_slab ring0 sim_os demo_poll t = Some (Inr (False, t'))"
      "executor_loop vec_slab ring0 sim_os demo_poll t' = None"
    by (simp add: demo_eval executor_loop.simps reactor_react_def react_def script_uring_def)
  have "exec_inv vec_slab None t" by (rule demo.spawn_inv(1) [OF thread0_inv(1) t(1)])
  from wake_during_poll_lost [OF vec_env this t(2,3,6)] t(4,5) have
    "waiting_at vec_slab t' (ids t' (task_id task)) = Some (task\<lparr>task_future := (task_future task)\<lparr>sf_fut := DReturn 5\<rparr>\<rparr>)"
    "run_q t' = []" by simp_all
  then show ?thesis using t(1,6,7)
    by (intro exI [of _ j] exI [of _ t] exI [of _ t'] conjI exI [of _ "ids t' (task_id task)"]
        exI [of _ "task\<lparr>task_future := (task_future task)\<lparr>sf_fut := DReturn 5\<rparr>\<rparr>"]) simp_all
qed

text \<open>
  C8. \<open>block_on\<close> returns the value of its future. Let \<open>Q\<close> hold of the future and be kept by its
  polls, and let \<open>R\<close> hold of every value a future with \<open>Q\<close> returns; let no user code touch the
  channel the new task gets. If the executor's loop returns at all, then \<open>block_on\<close> returns,
  without a panic, a value with \<open>R\<close>, whatever other tasks there are.
\<close>

theorem block_on_value:
  assumes "executor_env S X priv upoll" "exec_inv S None t"
    and "\<forall>task\<in>tasks S t. sf_tx (task_future task) < length (chans t)" "length (chans t) \<in> priv"
    and "spawn X f t = Inr (j, t1)" "executor_loop S D X upoll t1 = Some (Inr t2)" "Q f"
    and "\<And>g a t g' t'. Q g \<Longrightarrow> upoll g a t = Some (Inr (Poll_Pending, g', t')) \<Longrightarrow> Q g'"
    and "\<And>g a t v g' t'. Q g \<Longrightarrow> upoll g a t = Some (Inr (Poll_Ready v, g', t')) \<Longrightarrow> R v"
  shows "\<exists>v t3. R v \<and> block_on S D X upoll f t = Some (Inr (v, t3))"
  by (rule executor_env.block_on_owes [where Q = Q, OF assms(1,2,3,5,6,4,7)]) (fact assms(8), fact assms(9))

theorem block_on_value_witness:
  "\<exists>t3. block_on vec_slab ring0 sim_os demo_poll (DSpawn (DReturn 1) (DReturn 5)) thread0 = Some (Inr (5, t3))"
proof -
  let ?f = "DSpawn (DReturn 1) (DReturn 5)"
  have "\<exists>j t1 t2. spawn sim_os ?f thread0 = Inr (j, t1) \<and> executor_loop vec_slab ring0 sim_os demo_poll t1 = Some (Inr t2)"
    by (simp add: demo_eval executor_loop.simps)
  then obtain j t1 t2 where run: "spawn sim_os ?f thread0 = Inr (j, t1)"
    "executor_loop vec_slab ring0 sim_os demo_poll t1 = Some (Inr t2)" by blast
  have chans: "\<forall>task\<in>tasks vec_slab thread0. sf_tx (task_future task) < length (chans thread0)"
    by (simp only: thread0_inv(2)) simp
  have "\<exists>v t3. v = 5 \<and> block_on vec_slab ring0 sim_os demo_poll ?f thread0 = Some (Inr (v, t3))"
    by (rule block_on_value [where Q = "\<lambda>g. demo_result g = 5" and R = "\<lambda>v. v = 5",
          OF vec_env thread0_inv(1) chans UNIV_I run]) (auto dest: demo_value)
  then show ?thesis by blast
qed

text \<open>
  C13. The loop ends. If futures have bounded work, in the sense that what a poll leaves of a
  future together with what it spawns is less work than the future was, and no turn blocks
  or panics while tasks are left, then \<open>run\<close>, started with tasks, returns.
\<close>

theorem run_terminates:
  assumes "executor_env S X priv upoll" "exec_inv S None t" "finite (tasks S t)" "tasks S t \<noteq> {}" "P t"
    and "\<And>t. P t \<Longrightarrow> tasks S t \<noteq> {} \<Longrightarrow> \<exists>d t'. executor_iter S D X upoll t = Some (Inr (d, t')) \<and> P t'"
    and "\<And>g a t r g' t'. upoll g a t = Some (Inr (r, g', t')) \<Longrightarrow> finite (tasks S t' - tasks S t)
      \<and> (\<Sum>task\<in>tasks S t' - tasks S t. Suc (work (sf_fut (task_future task))))
         + (case r of Poll_Pending \<Rightarrow> Suc (work g') | Poll_Ready _ \<Rightarrow> 0) \<le> work g"
  shows "\<exists>t'. run S D X upoll t = Some (Inr t')"
  unfolding run_def
  by (rule executor_env.loop_terminates [OF assms(1-4), where P = P and work = work])
     (fact assms(5), fact assms(6), unfold executor_env.load_def [OF assms(1)], fact assms(7))

theorem run_terminates_witness:
  "\<exists>j t t'. spawn sim_os (DSpawn (DReturn 1) (DReturn 5)) thread0 = Inr (j, t)
     \<and> run vec_slab ring0 sim_os demo_poll t = Some (Inr t')"
proof -
  let ?f = "DSpawn (DReturn 1) (DReturn 5)"
  have "\<exists>j t t1 t2 task. spawn sim_os ?f thread0 = Inr (j, t) \<and> tasks vec_slab t = {task}
      \<and> executor_iter vec_slab ring0 sim_os demo_poll t = Some (Inr (False, t1))
      \<and> executor_iter vec_slab ring0 sim_os demo_poll t1 = Some (Inr (True, t2)) \<and> tasks vec_slab t2 = {}"
    by (simp add: demo_eval vec_get_Nil)
  then obtain j t t1 t2 task where run: "spawn sim_os ?f thread0 = Inr (j, t)" "tasks vec_slab t = {task}"
      "executor_iter vec_slab ring0 sim_os demo_poll t = Some (Inr (False, t1))"
      "executor_iter vec_slab ring0 sim_os demo_poll t1 = Some (Inr (True, t2))" "tasks vec_slab t2 = {}" by blast
  have inv: "exec_inv vec_slab None t" by (rule demo.spawn_inv(1) [OF thread0_inv(1) run(1)])
  have "\<exists>t'. run vec_slab ring0 sim_os demo_poll t = Some (Inr t')"
  proof (rule run_terminates [where work = demo_work and P = "\<lambda>s. s \<in> {t, t1, t2}", OF vec_env inv])
    fix s assume s: "s \<in> {t, t1, t2}" "tasks vec_slab s \<noteq> {}"
    then consider "s = t" | "s = t1" using run(5) by blast
    then show "\<exists>d t'. executor_iter vec_slab ring0 sim_os demo_poll s = Some (Inr (d, t')) \<and> t' \<in> {t, t1, t2}"
      by cases (use run(3,4) in auto)
  qed (use run(2) in \<open>simp_all add: demo_load\<close>)
  with run(1) show ?thesis by blast
qed

text \<open>
  C36. An executor with an empty run queue. If no completion ever comes, \<open>run\<close> does not return,
  also when there is no task at all. If completions come whose wakers are all stale, as after
  the drop of a future that still had an operation in flight, \<open>run\<close> panics, also when other
  tasks are waiting.
\<close>

theorem idle_run:
  assumes "slab_laws S" "run_q t = []"
  shows "(uring_submit_and_wait (ur D) (uring (inner t)) 1 = None \<longrightarrow> run S D X upoll t = None)
    \<and> (react D (inner t) = Some (Inr it) \<and> react_loop D (\<lambda>a as. as @ [a]) it [] = Inr (i, objs)
        \<and> (\<forall>a\<in>set objs. waiting_at S t (ids t a) = None) \<longrightarrow> run S D X upoll t = Some (Inl UnwrapNone))"
proof (rule conjI; rule impI)
  assume "uring_submit_and_wait (ur D) (uring (inner t)) 1 = None"
  with assms(2) show "run S D X upoll t = None"
    by (simp add: run_def executor_loop.simps executor_iter_def react_if_idle_def reactor_react_def react_def)
next
  assume stale: "react D (inner t) = Some (Inr it) \<and> react_loop D (\<lambda>a as. as @ [a]) it [] = Inr (i, objs)
      \<and> (\<forall>a\<in>set objs. waiting_at S t (ids t a) = None)"
  have it: "it = \<lparr>compl_queue = compl_queue it, ring = ring it\<rparr>" by simp
  from stale react_loop_objects [of D "compl_queue it" "ring it" "[]" i objs "wake S" t] it
  have "react_loop D (wake S) it t = Inr (i, fold (wake S) objs t)" by auto
  moreover have "fold (wake S) objs t = t" using stale by (intro fold_wake_stale [OF assms(1)]) blast
  ultimately have "reactor_react D (wake S) (inner t) t = Some (Inr (i, t))"
    using stale by (simp add: reactor_react_def)
  with assms(2) show "run S D X upoll t = Some (Inl UnwrapNone)"
    by (simp add: run_def executor_loop.simps executor_iter_def react_if_idle_def)
qed

text \<open>A dropped operation of a finished task 0 completes while task 1 is waiting.\<close>

abbreviation orphan :: "(demo Task option list, demo, (script_ring, nat PendingIo option list, ResultState option list,
    i32 list MultishotResultState option list) inner, sim, nat) thread" where
  "orphan \<equiv> thread0\<lparr>waiting := [None, Some parked], ids := (\<lambda>a. a), next_id := 2,
     inner := \<lparr>uring = \<lparr>sr_sq = [], sr_ready = [], sr_batches = [[cqe0 8 0]], sr_cancel = \<lambda>_. None\<rparr>,
       pending = [Some \<lparr>assoc_obj = 0, result_slab_idx = 0, kind = Oneshot\<rparr>],
       results = \<lparr>rr_oneshot = [Some RS_Dropped], rr_multishot = []\<rparr>\<rparr>\<rparr>"

theorem idle_run_witness:
  "run vec_slab ring0 sim_os demo_poll thread0 = None
   \<and> run vec_slab ring0 sim_os demo_poll orphan = Some (Inl UnwrapNone)"
proof
  from idle_run [OF vec.slab_laws_axioms, of thread0 ring0 sim_os demo_poll]
  show "run vec_slab ring0 sim_os demo_poll thread0 = None" by (simp add: script_uring_def)
  have "\<exists>it i. react ring0 (inner orphan) = Some (Inr it) \<and> react_loop ring0 (\<lambda>a as. as @ [a]) it [] = Inr (i, [0])"
    by (simp add: react_def script_uring_def react_loop_Cons react_loop_Nil reactor_eval)
  then obtain it i where "react ring0 (inner orphan) = Some (Inr it)" "react_loop ring0 (\<lambda>a as. as @ [a]) it [] = Inr (i, [0])"
    by blast
  moreover have "waiting_at vec_slab orphan (ids orphan 0) = None" by (simp add: waiting_at_def vec_slab_simps)
  ultimately show "run vec_slab ring0 sim_os demo_poll orphan = Some (Inl UnwrapNone)"
    using idle_run [OF vec.slab_laws_axioms, of orphan ring0 sim_os demo_poll it i "[0]"] by simp
qed

end
