(* ===== verification/Mutex.thy ===== *)
theory Mutex
  imports Event
begin

text \<open>
  The mutex, \<open>src/src/futures/mutex.rs\<close>: an event that counts 1 while nobody holds the lock.
  \<open>Mutex::lock\<close> is the state machine of its \<open>async fn\<close>; a guard gives access to the value and
  notifies the event when it is dropped.
\<close>

record 'v Mutex =
  mtx_evt :: Event
  mtx_obj :: 'v

definition mutex_new :: "'w os_api \<Rightarrow> 'v \<Rightarrow> 'w \<Rightarrow> 'v Mutex io_result \<times> 'w" where
  "mutex_new X obj w = (case event_new X w of
     (Inl e, w1) \<Rightarrow> (Inl e, w1)
   | (Inr evt, w1) \<Rightarrow> (case notify_one X evt w1 of
       (Inl e, w2) \<Rightarrow> (Inl e, event_drop X evt w2)
     | (Inr _, w2) \<Rightarrow> (Inr \<lparr>mtx_evt = evt, mtx_obj = obj\<rparr>, w2)))"

text \<open>
  The states of \<open>lock\<close>: not started; awaiting the waiter of the clone \<open>evt\<close>; finished. The
  waiter is dropped when the await is over, the clone at the end of the function.
\<close>

datatype LockFut = LF_Start | LF_Await Event EventWaiter | LF_Done

type_synonym ('u, 'ps, 'os, 'ms, 'w) lock_out =
  "(unit Poll \<times> LockFut \<times> ('u, 'ps, 'os, 'ms) inner \<times> 'w) rs"

definition lock_await :: "('u, 'ps, 'os, 'ms, 'rb, 't) deps \<Rightarrow> 'w os_api \<Rightarrow> 't \<Rightarrow> Event \<Rightarrow> EventWaiter \<Rightarrow>
    ('u, 'ps, 'os, 'ms) inner \<Rightarrow> 'w \<Rightarrow> ('u, 'ps, 'os, 'ms, 'w) lock_out" where
  "lock_await D X waker evt waiter i w =
     rbind (event_waiter_poll D waker waiter i) (\<lambda>(p, waiter', i1).
     case p of
       Poll_Pending \<Rightarrow> Inr (Poll_Pending, LF_Await evt waiter', i1, w)
     | Poll_Ready r \<Rightarrow>
         rbind (event_waiter_drop D waiter' i1) (\<lambda>i2.
         case r of
           Inl e \<Rightarrow> Inl UnwrapErr
         | Inr _ \<Rightarrow> Inr (Poll_Ready (), LF_Done, i2, event_drop X evt w)))"

definition lock_poll :: "('u, 'ps, 'os, 'ms, 'rb, 't) deps \<Rightarrow> 'w os_api \<Rightarrow> 't \<Rightarrow> 'v Mutex \<Rightarrow> LockFut \<Rightarrow>
    ('u, 'ps, 'os, 'ms) inner \<Rightarrow> 'w \<Rightarrow> ('u, 'ps, 'os, 'ms, 'w) lock_out" where
  "lock_poll D X waker self f i w = (case f of
     LF_Start \<Rightarrow>
       rbind (event_clone X (mtx_evt self) w) (\<lambda>(evt, w1).
       lock_await D X waker evt (event_wait evt) i w1)
   | LF_Await evt waiter \<Rightarrow> lock_await D X waker evt waiter i w
   | LF_Done \<Rightarrow> Inl (PanicMsg ''async fn resumed after completion''))"

text \<open>Dropping the future before it is done drops the waiter and then the clone.\<close>

definition lock_fut_drop :: "('u, 'ps, 'os, 'ms, 'rb, 't) deps \<Rightarrow> 'w os_api \<Rightarrow> LockFut \<Rightarrow>
    ('u, 'ps, 'os, 'ms) inner \<Rightarrow> 'w \<Rightarrow> (('u, 'ps, 'os, 'ms) inner \<times> 'w) rs" where
  "lock_fut_drop D X f i w = (case f of
     LF_Await evt waiter \<Rightarrow>
       rbind (event_waiter_drop D waiter i) (\<lambda>i1. Inr (i1, event_drop X evt w))
   | _ \<Rightarrow> Inr (i, w))"

text \<open>A guard is a reference to its mutex; \<open>deref_mut\<close> is given as the update it allows.\<close>

definition guard_deref :: "'v Mutex \<Rightarrow> 'v" where
  "guard_deref mtx = mtx_obj mtx"

definition guard_deref_mut :: "('v \<Rightarrow> 'v) \<Rightarrow> 'v Mutex \<Rightarrow> 'v Mutex" where
  "guard_deref_mut f mtx = mtx\<lparr>mtx_obj := f (mtx_obj mtx)\<rparr>"

definition guard_drop :: "'w os_api \<Rightarrow> 'v Mutex \<Rightarrow> 'w \<Rightarrow> 'w rs" where
  "guard_drop X mtx w = (case notify_one X (mtx_evt mtx) w of
     (Inl e, w1) \<Rightarrow> Inl UnwrapErr
   | (Inr _, w1) \<Rightarrow> Inr w1)"

subsection \<open>The mutex and its users\<close>

text \<open>
  A mutex that is shared by tasks on any number of threads, each with its own reactor. A lock
  future is named by its thread and by the handle it uses there; \<open>guards\<close> counts the guards
  there are. \<open>reads\<close> are the reads of the mutex's eventfd that are in flight, by thread and
  user data, and for each whether the kernel has performed it already.

  The events are those of the users (a lock future is made, polled or dropped, a guard is used
  or dropped), of the kernel (it performs a read, the completion of an operation is processed),
  and what the rest of the program does, with the reactors and with the system.
\<close>

record ('u, 'ps, 'os, 'ms, 'w, 'v) msys =
  thr :: "nat \<Rightarrow> ('u, 'ps, 'os, 'ms) rsys"
  sysw :: 'w
  mtx :: "'v Mutex"
  futs :: "nat \<times> nat \<rightharpoonup> LockFut"
  guards :: nat
  reads :: "nat \<times> u64 \<rightharpoonup> bool"

datatype ('u, 't, 'w, 'v) mevent =
    LockNew nat nat
  | LockPoll nat nat 't
  | LockDrop nat nat
  | GuardUse "'v \<Rightarrow> 'v"
  | GuardDrop
  | KernelRead nat u64 'w
  | Completion nat Cqe
  | OtherReactor nat "('u, 't) revent"
  | OtherWorld 'w

fun fut_io :: "LockFut \<Rightarrow> OneshotIoState option" where
  "fut_io (LF_Await evt waiter) = Some (ew_io waiter)"
| "fut_io _ = None"

definition thr_upd :: "('u, 'ps, 'os, 'ms, 'rb, 't) deps \<Rightarrow> nat \<Rightarrow> LockFut \<Rightarrow> LockFut \<Rightarrow> ('u, 'ps, 'os, 'ms) inner \<Rightarrow>
    ('u, 'ps, 'os, 'ms) rsys \<Rightarrow> ('u, 'ps, 'os, 'ms) rsys" where
  "thr_upd D h f f' i r = r\<lparr>ri := i, ones := (ones r)(h := fut_io f'),
     inflight := (if f = LF_Start then (inflight r)(next_ud D r \<mapsto> Oneshot) else inflight r)\<rparr>"

fun mstep :: "('u, 'ps, 'os, 'ms, 'rb, 't) deps \<Rightarrow> 'w os_api \<Rightarrow> ('u, 't, 'w, 'v) mevent \<Rightarrow>
    ('u, 'ps, 'os, 'ms, 'w, 'v) msys \<Rightarrow> ('u, 'ps, 'os, 'ms, 'w, 'v) msys rs" where
  "mstep D X (LockNew t h) s = Inr (s\<lparr>futs := (futs s)((t, h) \<mapsto> LF_Start)\<rparr>)"
| "mstep D X (LockPoll t h waker) s = (case futs s (t, h) of
     None \<Rightarrow> Inr s
   | Some f \<Rightarrow> rbind (lock_poll D X waker (mtx s) f (ri (thr s t)) (sysw s)) (\<lambda>(p, f', i, w).
       let s' = s\<lparr>thr := (thr s)(t := thr_upd D h f f' i (thr s t)), sysw := w\<rparr>
       in Inr (if p = Poll_Pending
          then s'\<lparr>futs := (futs s)((t, h) \<mapsto> f'),
            reads := (if f = LF_Start then (reads s)((t, next_ud D (thr s t)) \<mapsto> False) else reads s)\<rparr>
          else s'\<lparr>futs := (futs s)((t, h) := None), guards := Suc (guards s)\<rparr>)))"
| "mstep D X (LockDrop t h) s = (case futs s (t, h) of
     None \<Rightarrow> Inr s
   | Some f \<Rightarrow> rbind (lock_fut_drop D X f (ri (thr s t)) (sysw s)) (\<lambda>(i, w).
       Inr (s\<lparr>thr := (thr s)(t := (thr s t)\<lparr>ri := i, ones := (ones (thr s t))(h := None)\<rparr>), sysw := w,
         futs := (futs s)((t, h) := None)\<rparr>)))"
| "mstep D X (GuardUse f) s = Inr (s\<lparr>mtx := guard_deref_mut f (mtx s)\<rparr>)"
| "mstep D X GuardDrop s = rbind (guard_drop X (mtx s) (sysw s)) (\<lambda>w.
     Inr (s\<lparr>sysw := w, guards := guards s - 1\<rparr>))"
| "mstep D X (KernelRead t ud w) s = Inr (s\<lparr>sysw := w, reads := (reads s)((t, ud) \<mapsto> True)\<rparr>)"
| "mstep D X (Completion t c) s = rbind (complete_cqe D c (thr s t)) (\<lambda>(_, r).
     Inr (s\<lparr>thr := (thr s)(t := r), reads := (reads s)((t, cqe_user_data c) := None)\<rparr>))"
| "mstep D X (OtherReactor t ev) s = rbind (rstep D ev (thr s t)) (\<lambda>r.
     Inr (s\<lparr>thr := (thr s)(t := r)\<rparr>))"
| "mstep D X (OtherWorld w) s = Inr (s\<lparr>sysw := w\<rparr>)"

text \<open>
  What the language and the kernel guarantee, for the eventfd object \<open>k\<close> of the mutex. A guard is
  used by its owner. A read is performed only while the counter is positive, which it decrements
  by one (the semaphore semantics of eventfd). The completion of a read of the eventfd is a
  success if and only if the read was performed. The rest of the program has no descriptor of the
  eventfd, leaves the handles of the lock futures alone, and no completion comes without an
  operation in flight.
\<close>

fun mallowed :: "('w \<Rightarrow> i32 \<rightharpoonup> nat) \<Rightarrow> ('w \<Rightarrow> nat \<Rightarrow> nat) \<Rightarrow> nat \<Rightarrow> ('u, 't, 'w, 'v) mevent \<Rightarrow>
    ('u, 'ps, 'os, 'ms, 'w, 'v) msys \<Rightarrow> bool" where
  "mallowed obj count k (LockNew t h) s = (futs s (t, h) = None \<and> ones (thr s t) h = None)"
| "mallowed obj count k (LockPoll t h waker) s = (futs s (t, h) \<noteq> None)"
| "mallowed obj count k (LockDrop t h) s = (futs s (t, h) \<noteq> None)"
| "mallowed obj count k (GuardUse f) s = (0 < guards s)"
| "mallowed obj count k GuardDrop s = (0 < guards s)"
| "mallowed obj count k (KernelRead t ud w) s = (reads s (t, ud) = Some False \<and> 0 < count (sysw s) k
     \<and> obj w = obj (sysw s) \<and> count w = (count (sysw s))(k := count (sysw s) k - 1))"
| "mallowed obj count k (Completion t c) s = (case reads s (t, cqe_user_data c) of
     None \<Rightarrow> False
   | Some performed \<Rightarrow> performed \<longleftrightarrow> 0 \<le> sint (cqe_result c))"
| "mallowed obj count k (OtherReactor t ev) s = (allowed ev (thr s t)
     \<and> (\<forall>h. futs s (t, h) \<noteq> None \<longrightarrow> \<not> uses_oneshot h ev)
     \<and> (\<forall>ud. reads s (t, ud) \<noteq> None \<longrightarrow> \<not> completes ud ev))"
| "mallowed obj count k (OtherWorld w) s =
     ((\<forall>fd. obj w fd = Some k \<longleftrightarrow> obj (sysw s) fd = Some k) \<and> count w k = count (sysw s) k)"

text \<open>The states that can be reached from a new mutex.\<close>

inductive mreachable :: "('u, 'ps, 'os, 'ms, 'rb, 't) deps \<Rightarrow> 'w os_api \<Rightarrow> ('w \<Rightarrow> i32 \<rightharpoonup> nat) \<Rightarrow> ('w \<Rightarrow> nat \<Rightarrow> nat) \<Rightarrow>
    nat \<Rightarrow> ('u, 'ps, 'os, 'ms, 'w, 'v) msys \<Rightarrow> bool" for D X obj count k where
  mstart: "\<forall>t. reachable D (rs t) \<Longrightarrow> mutex_new X v w0 = (Inr m, w) \<Longrightarrow> obj w (evt_inner (mtx_evt m)) = Some k \<Longrightarrow>
    mreachable D X obj count k \<lparr>thr = rs, sysw = w, mtx = m, futs = Map.empty, guards = 0, reads = Map.empty\<rparr>"
| mnext: "mreachable D X obj count k s \<Longrightarrow> mallowed obj count k ev s \<Longrightarrow> mstep D X ev s = Inr s' \<Longrightarrow>
    mreachable D X obj count k s'"

inductive msteps :: "('u, 'ps, 'os, 'ms, 'rb, 't) deps \<Rightarrow> 'w os_api \<Rightarrow> ('w \<Rightarrow> i32 \<rightharpoonup> nat) \<Rightarrow> ('w \<Rightarrow> nat \<Rightarrow> nat) \<Rightarrow>
    nat \<Rightarrow> ('u, 'ps, 'os, 'ms, 'w, 'v) msys \<Rightarrow> ('u, 't, 'w, 'v) mevent list \<Rightarrow> ('u, 'ps, 'os, 'ms, 'w, 'v) msys \<Rightarrow> bool"
  for D X obj count k where
  msteps_nil: "msteps D X obj count k s [] s"
| msteps_cons: "mallowed obj count k ev s \<Longrightarrow> mstep D X ev s = Inr s' \<Longrightarrow> msteps D X obj count k s' evs s'' \<Longrightarrow>
    msteps D X obj count k s (ev # evs) s''"

inductive_simps msteps_simps: "msteps D X obj count k s [] s'" "msteps D X obj count k s (ev # evs) s'"

lemma msteps_reachable: "msteps D X obj count k s evs s' \<Longrightarrow> mreachable D X obj count k s \<Longrightarrow> mreachable D X obj count k s'"
  by (induction rule: msteps.induct) (auto intro: mnext)

end
