(* ===== verification/MutexThms.thy ===== *)
theory MutexThms
  imports Mutex
begin

text \<open>
  The invariant of a mutex and its users. The mutex has one token. It is in the counter of the
  eventfd, or the kernel has taken it for a read in flight, or it has arrived at a lock future
  whose next poll will return a guard, or a guard holds it, or it is lost.
\<close>

subsection \<open>A lock future and its thread\<close>

context reactor_deps
begin

text \<open>
  \<open>rd\<close> are the reads in flight of the thread, \<open>fd\<close> the descriptor of the mutex itself. \<open>arrived\<close>:
  the next poll of the future that uses \<open>h\<close> returns a guard.
\<close>

definition fut_ok :: "(u64 \<rightharpoonup> bool) \<Rightarrow> i32 \<Rightarrow> ('u, 'ps, 'os, 'ms) rsys \<Rightarrow> nat \<Rightarrow> LockFut \<Rightarrow> bool" where
  "fut_ok rd fd r h f \<longleftrightarrow> (case f of
     LF_Start \<Rightarrow> ones r h = None
   | LF_Await evt waiter \<Rightarrow> evt_inner evt \<noteq> fd \<and> ones r h = Some (ew_io waiter)
       \<and> ((\<exists>ud ob. awaits r h ud ob \<and> rd ud \<noteq> None) \<or> (\<exists>v. has_result r h v))
   | LF_Done \<Rightarrow> False)"

definition arrived :: "('u, 'ps, 'os, 'ms) rsys \<Rightarrow> nat \<Rightarrow> bool" where
  "arrived r h \<longleftrightarrow> (\<exists>v. has_result r h v \<and> 0 \<le> sint v)"

lemma has_result_unique: "has_result r h v \<Longrightarrow> has_result r h v' \<Longrightarrow> v = v'"
  by (auto simp: has_result_def)

lemma arrived_iff: "has_result r h v \<Longrightarrow> arrived r h \<longleftrightarrow> 0 \<le> sint v"
  unfolding arrived_def using has_result_unique by blast

lemma awaits_no_result: "awaits r h ud ob \<Longrightarrow> \<not> has_result r h v"
  by (auto simp: has_result_def awaits_def)

lemma awaits_not_arrived: "awaits r h ud ob \<Longrightarrow> \<not> arrived r h"
  by (auto simp: arrived_def dest: awaits_no_result)

lemma no_handle_not_arrived: "ones r h = None \<Longrightarrow> \<not> arrived r h"
  by (simp add: arrived_def has_result_def)

lemma awaits_inj:
  assumes "rinv D r" "awaits r h ud ob" "awaits r h' ud ob'"
  shows "h' = h"
proof -
  from assms(2,3) obtain k where "one_slots r h = Some k" "one_slots r h' = Some k"
    by (auto simp: awaits_def one_slots_def)
  from slots_handle_inj [OF rinvD(1) [OF assms(1)] this] show ?thesis by simp
qed

lemma awaits_same_ud:
  assumes "rinv D r" "awaits r h ud ob" "awaits r h ud' ob'"
  shows "ud' = ud"
proof -
  from assms(2,3) obtain k where k: "pend_of D r ud = Some \<lparr>assoc_obj = ob, result_slab_idx = k, kind = Oneshot\<rparr>"
    "pend_of D r ud' = Some \<lparr>assoc_obj = ob', result_slab_idx = k, kind = Oneshot\<rparr>"
    by (auto simp: awaits_def)
  have "flight D Oneshot r ud = Some k" "flight D Oneshot r ud' = Some k"
    using pend_flight [OF assms(1) k(1)] pend_flight [OF assms(1) k(2)] by simp_all
  from slots_flight_inj [OF rinvD(1) [OF assms(1)] this] show ?thesis by simp
qed

lemma rsteps_no_handle:
  "rsteps D r evs r' \<Longrightarrow> \<forall>ev\<in>set evs. \<not> uses_oneshot h ev \<Longrightarrow> ones r h = None \<Longrightarrow> ones r' h = None"
proof (induction rule: rsteps.induct)
  case (rsteps_cons ev s s' evs s'')
  have "ones s' h = None" using rsteps_cons.hyps(2) rsteps_cons.prems
    by (cases ev) (auto simp: rbind_eq_Inr poll_oneshot_def poll_multishot_def complete_cqe_def split: option.splits)
  with rsteps_cons show ?case by simp
qed

text \<open>What other parts of the program do leaves a lock future as it is.\<close>

lemma fut_frame:
  assumes inv: "rinv D r" and run: "rsteps D r evs r'" and nu: "\<forall>ev\<in>set evs. \<not> uses_oneshot h ev"
    and nc: "\<And>ud ob ev. awaits r h ud ob \<Longrightarrow> rd ud \<noteq> None \<Longrightarrow> ev \<in> set evs \<Longrightarrow> \<not> completes ud ev"
    and rd: "\<And>ud ob. awaits r h ud ob \<Longrightarrow> rd ud \<noteq> None \<Longrightarrow> rd' ud \<noteq> None"
    and ok: "fut_ok rd fd r h f"
  shows "fut_ok rd' fd r' h f \<and> (arrived r' h \<longleftrightarrow> arrived r h) \<and> (awaits r' h ud ob \<longrightarrow> awaits r h ud ob)"
proof (cases f)
  case LF_Start
  with ok have "ones r h = None" by (simp add: fut_ok_def)
  with rsteps_no_handle [OF run nu] LF_Start show ?thesis
    by (simp add: fut_ok_def no_handle_not_arrived) (simp add: awaits_def)
next
  case (LF_Await evt waiter)
  with ok have fd: "evt_inner evt \<noteq> fd" and o: "ones r h = Some (ew_io waiter)"
    and st: "(\<exists>ud ob. awaits r h ud ob \<and> rd ud \<noteq> None) \<or> (\<exists>v. has_result r h v)" by (simp_all add: fut_ok_def)
  have o': "ones r' h = Some (ew_io waiter)" by (rule rsteps_ones [OF run nu o])
  from st show ?thesis
  proof (elim disjE exE conjE)
    fix ud' ob' assume aw: "awaits r h ud' ob'" "rd ud' \<noteq> None"
    with nu nc have "\<forall>ev\<in>set evs. \<not> uses_oneshot h ev \<and> \<not> completes ud' ev" by blast
    note aw' = rsteps_awaits [OF run inv aw(1) this]
    have "awaits r' h ud ob \<longrightarrow> awaits r h ud ob"
      using awaits_same_ud [OF rsteps_inv [OF run inv] aw', of ud ob] aw(1) aw' by (auto simp: awaits_def)
    with aw aw' rd o' fd LF_Await show ?thesis
      using awaits_not_arrived by (auto simp: fut_ok_def)
  next
    fix v assume v: "has_result r h v"
    note v' = rsteps_has_result [OF run inv v nu]
    have "arrived r' h \<longleftrightarrow> arrived r h" by (simp add: arrived_iff [OF v] arrived_iff [OF v'])
    with v' o' fd LF_Await awaits_no_result [of r' h ud ob v] show ?thesis by (auto simp: fut_ok_def)
  qed
qed (use ok in \<open>simp add: fut_ok_def\<close>)

lemma fut_reads_mono:
  "fut_ok rd fd r h f \<Longrightarrow> (\<And>ud. rd ud \<noteq> None \<Longrightarrow> rd' ud \<noteq> None) \<Longrightarrow> fut_ok rd' fd r h f"
  by (fastforce simp: fut_ok_def split: LockFut.splits)

subsection \<open>Polling and dropping a lock future\<close>

lemma lock_poll_start:
  assumes inv: "rinv D r" and h: "ones r h = None"
    and poll: "lock_poll D X waker m LF_Start (ri r) w = Inr (p, f, i, w')"
  obtains evt waiter e where "event_clone X (mtx_evt m) w = Inr (evt, w')" "p = Poll_Pending" "f = LF_Await evt waiter"
    "e = event_waiter_entry (event_wait evt)"
    "rsteps D r [NewOneshot h, PollOneshot h e waker] (thr_upd D h LF_Start f i r)"
    "awaits (thr_upd D h LF_Start f i r) h (next_ud D r) waker" "pend_of D r (next_ud D r) = None"
proof -
  from poll obtain evt w1 where clone: "event_clone X (mtx_evt m) w = Inr (evt, w1)"
    and await: "lock_await D X waker evt (event_wait evt) (ri r) w1 = Inr (p, f, i, w')"
    by (auto simp: lock_poll_def rbind_eq_Inr)
  from await obtain ud k where sub: "submit_io D (ri r) (event_waiter_entry (event_wait evt)) waker Oneshot = Inr ((ud, k), i)"
    and res: "p = Poll_Pending" "f = LF_Await evt ((event_wait evt)\<lparr>ew_io := OS_Submitted k\<rparr>)" "w' = w1"
    by (auto simp: lock_await_def event_waiter_poll_def event_wait_def oneshot_io_new_def oneshot_first rbind_eq_Inr)
  let ?r = "r\<lparr>ones := (ones r)(h \<mapsto> OS_New)\<rparr>"
  have inv1: "rinv D ?r"
    by (rule rstep_inv [OF inv, of "NewOneshot h"]) (simp_all add: h oneshot_io_new_def)
  have poll1: "poll_oneshot D h (event_waiter_entry (event_wait evt)) waker ?r = Inr (Poll_Pending, thr_upd D h LF_Start f i r)"
    using sub res(2) by (simp add: poll_oneshot_new thr_upd_def next_ud_def)
  have "next_ud D ?r = next_ud D r" by (simp add: next_ud_def)
  with submit_awaits [OF inv1 _ poll1] have "awaits (thr_upd D h LF_Start f i r) h (next_ud D r) waker" by simp
  moreover have "rsteps D r [NewOneshot h, PollOneshot h (event_waiter_entry (event_wait evt)) waker] (thr_upd D h LF_Start f i r)"
    using poll1 h by (simp add: rsteps_simps oneshot_io_new_def)
  moreover have "pend_of D r (next_ud D r) = None"
    using submit_pend_of(1) [OF sub, of "r\<lparr>ri := i\<rparr>"]
      submit_pend(1) [OF rinvD(4) [OF inv] sub, of "r\<lparr>ri := i, inflight := (inflight r)(next_ud D r \<mapsto> Oneshot)\<rparr>"] by simp
  ultimately show thesis using that [OF _ res(1) res(2) refl] clone res(3) by blast
qed

lemma submit_or_get_pending:
  assumes "slab_get (one D) (get_oneshot (ri r)) k = Some RS_Pending"
  shows "oneshot_submit_or_get_result D f (OS_Submitted k) (ri r) x = Inr (Poll_Pending, OS_Submitted k, ri r, x)"
  using os.get_pending [OF assms] by (simp add: oneshot_submit_or_get_result_def poll_of_state_def)

lemma submit_or_get_ready:
  assumes "oneshot_get_result (one D) (get_oneshot (ri r)) k = Inr (Some v, st)"
  shows "oneshot_submit_or_get_result D f (OS_Submitted k) (ri r) x
    = Inr (Poll_Ready (reactor_value_to_result v), OS_Finished v, set_oneshot st (ri r), x)"
  using assms by (simp add: oneshot_submit_or_get_result_def poll_of_state_def)

lemma lock_poll_waiting:
  assumes aw: "awaits r h ud ob" and h: "ones r h = Some (ew_io waiter)"
  shows "lock_poll D X waker m (LF_Await evt waiter) (ri r) w = Inr (Poll_Pending, LF_Await evt waiter, ri r, w)"
    "thr_upd D h (LF_Await evt waiter) (LF_Await evt waiter) (ri r) r = r"
proof -
  from aw h obtain k where k: "ew_io waiter = OS_Submitted k"
    "slab_get (one D) (get_oneshot (ri r)) k = Some RS_Pending" by (auto simp: awaits_def)
  then have "waiter\<lparr>ew_io := OS_Submitted k\<rparr> = waiter" by simp
  with k show "lock_poll D X waker m (LF_Await evt waiter) (ri r) w = Inr (Poll_Pending, LF_Await evt waiter, ri r, w)"
    by (simp add: lock_poll_def lock_await_def event_waiter_poll_def submit_or_get_pending)
  show "thr_upd D h (LF_Await evt waiter) (LF_Await evt waiter) (ri r) r = r"
    using h by (simp add: thr_upd_def fun_upd_idem)
qed

lemma lock_poll_arrived:
  assumes res: "has_result r h v" and h: "ones r h = Some (ew_io waiter)"
  obtains i where "lock_poll D X waker m (LF_Await evt waiter) (ri r) w =
      (if sint v < 0 then Inl UnwrapErr else Inr (Poll_Ready (), LF_Done, i, event_drop X evt w))"
    "rsteps D r [PollOneshot h e waker, DropOneshot h] (thr_upd D h (LF_Await evt waiter) LF_Done i r)"
proof -
  from res h obtain k where k: "ew_io waiter = OS_Submitted k" "ones r h = Some (OS_Submitted k)"
    "slab_get (one D) (get_oneshot (ri r)) k = Some (RS_Set v)" by (auto simp: has_result_def)
  from os.get_set_result [OF k(3)] obtain st where
    st: "oneshot_get_result (one D) (get_oneshot (ri r)) k = Inr (Some v, st)" by blast
  let ?i = "set_oneshot st (ri r)"
  have "lock_poll D X waker m (LF_Await evt waiter) (ri r) w =
      (if sint v < 0 then Inl UnwrapErr else Inr (Poll_Ready (), LF_Done, ?i, event_drop X evt w))"
    using k(1) by (simp add: lock_poll_def lock_await_def event_waiter_poll_def event_waiter_drop_def oneshot_io_drop_def
      submit_or_get_ready [OF st] reactor_value_to_result_def)
  moreover have "rsteps D r [PollOneshot h e waker, DropOneshot h] (thr_upd D h (LF_Await evt waiter) LF_Done ?i r)"
    using k(1,2) by (simp add: rsteps_simps poll_oneshot_def submit_or_get_ready [OF st] oneshot_io_drop_def thr_upd_def)
  ultimately show thesis by (rule that)
qed

lemma lock_drop_steps:
  assumes inv: "rinv D r" and ok: "fut_ok rd fd r h f" and drop: "lock_fut_drop D X f (ri r) w = Inr (i, w')"
  obtains evs where "rsteps D r evs (r\<lparr>ri := i, ones := (ones r)(h := None)\<rparr>)"
    "\<forall>ev\<in>set evs. (\<forall>h'. h' \<noteq> h \<longrightarrow> \<not> uses_oneshot h' ev) \<and> (\<forall>ud. \<not> completes ud ev)"
proof (cases f)
  case LF_Start
  with ok drop have "r\<lparr>ri := i, ones := (ones r)(h := None)\<rparr> = r" by (simp add: fut_ok_def lock_fut_drop_def fun_upd_idem)
  with that [of "[]"] show thesis by (simp add: rsteps_simps)
next
  case (LF_Await evt waiter)
  with ok have h: "ones r h = Some (ew_io waiter)" by (simp add: fut_ok_def)
  with LF_Await drop have "rsteps D r [DropOneshot h] (r\<lparr>ri := i, ones := (ones r)(h := None)\<rparr>)"
    by (auto simp: rsteps_simps lock_fut_drop_def event_waiter_drop_def rbind_eq_Inr)
  with that [of "[DropOneshot h]"] show thesis by simp
qed (use ok in \<open>simp add: fut_ok_def\<close>)

end

subsection \<open>Where the token is\<close>

datatype place = In_Counter | In_Read nat u64 | In_Future nat nat | In_Guard | Lost

abbreviation mfd :: "('u, 'ps, 'os, 'ms, 'w, 'v) msys \<Rightarrow> i32" where
  "mfd s \<equiv> evt_inner (mtx_evt (mtx s))"

locale mutex_env = reactor_deps D + eventfd_os X obj count
  for D :: "('u, 'ps, 'os, 'ms, 'rb, 't) deps" and X :: "'w os_api" and obj :: "'w \<Rightarrow> i32 \<rightharpoonup> nat"
    and count :: "'w \<Rightarrow> nat \<Rightarrow> nat" +
  fixes k :: nat
begin

definition threads_ok :: "('u, 'ps, 'os, 'ms, 'w, 'v) msys \<Rightarrow> bool" where
  "threads_ok s \<longleftrightarrow> (\<forall>t. rinv D (thr s t)) \<and> obj (sysw s) (mfd s) = Some k
     \<and> (\<forall>t h f. futs s (t, h) = Some f \<longrightarrow> fut_ok (\<lambda>ud. reads s (t, ud)) (mfd s) (thr s t) h f)
     \<and> (\<forall>t ud. reads s (t, ud) \<noteq> None \<longrightarrow> (\<exists>p. pend_of D (thr s t) ud = Some p \<and> kind p = Oneshot))"

definition there :: "('u, 'ps, 'os, 'ms, 'w, 'v) msys \<Rightarrow> nat \<Rightarrow> nat \<Rightarrow> bool" where
  "there s t h \<longleftrightarrow> futs s (t, h) \<noteq> None \<and> arrived (thr s t) h"

definition unwaited :: "('u, 'ps, 'os, 'ms, 'w, 'v) msys \<Rightarrow> nat \<Rightarrow> u64 \<Rightarrow> bool" where
  "unwaited s t ud \<longleftrightarrow> (\<forall>h ob. futs s (t, h) \<noteq> None \<longrightarrow> \<not> awaits (thr s t) h ud ob)"

definition token_at :: "place \<Rightarrow> ('u, 'ps, 'os, 'ms, 'w, 'v) msys \<Rightarrow> bool" where
  "token_at pl s \<longleftrightarrow> count (sysw s) k = (if pl = In_Counter then 1 else 0)
     \<and> guards s = (if pl = In_Guard then 1 else 0)
     \<and> (\<forall>t ud. reads s (t, ud) = Some True \<longleftrightarrow> pl = In_Read t ud)
     \<and> (\<forall>t h. there s t h \<longleftrightarrow> pl = In_Future t h)"

lemma threads_okD:
  assumes "threads_ok s"
  shows "rinv D (thr s t)" "obj (sysw s) (mfd s) = Some k"
    "futs s (t, h) = Some f \<Longrightarrow> fut_ok (\<lambda>ud. reads s (t, ud)) (mfd s) (thr s t) h f"
    "reads s (t, ud) \<noteq> None \<Longrightarrow> \<exists>p. pend_of D (thr s t) ud = Some p \<and> kind p = Oneshot"
  using assms by (simp_all add: threads_ok_def)

lemma token_atD:
  assumes "token_at pl s"
  shows "count (sysw s) k = (if pl = In_Counter then 1 else 0)" "guards s = (if pl = In_Guard then 1 else 0)"
    "reads s (t, ud) = Some True \<longleftrightarrow> pl = In_Read t ud" "there s t h \<longleftrightarrow> pl = In_Future t h"
  using assms by (simp_all add: token_at_def)

text \<open>
  A run of the reactor of thread \<open>t\<close> changes the lock futures of the handles \<open>H\<close> at most.
\<close>

definition framed :: "nat set \<Rightarrow> nat \<Rightarrow> ('u, 'ps, 'os, 'ms, 'w, 'v) msys \<Rightarrow> ('u, 'ps, 'os, 'ms, 'w, 'v) msys \<Rightarrow> bool" where
  "framed H t s s' \<longleftrightarrow> threads_ok s' \<and> (\<forall>t' h. t' \<noteq> t \<or> h \<notin> H \<longrightarrow> (there s' t' h \<longleftrightarrow> there s t' h))
     \<and> (\<forall>t' h ud ob. t' \<noteq> t \<or> h \<notin> H \<longrightarrow> futs s' (t', h) \<noteq> None \<longrightarrow> awaits (thr s' t') h ud ob \<longrightarrow>
          futs s (t', h) \<noteq> None \<and> awaits (thr s t') h ud ob)"

lemma frame:
  assumes ok: "threads_ok s" and run: "rsteps D (thr s t) evs r"
    and s': "thr s' = (thr s)(t := r)" "mtx_evt (mtx s') = mtx_evt (mtx s)" "obj (sysw s') (mfd s) = Some k"
    and futs: "\<And>t' h. t' \<noteq> t \<or> h \<notin> H \<Longrightarrow> futs s' (t', h) = futs s (t', h)"
    and reads: "\<And>t' ud. t' \<noteq> t \<Longrightarrow> reads s' (t', ud) = reads s (t', ud)"
    and nu: "\<And>h ev. h \<notin> H \<Longrightarrow> futs s (t, h) \<noteq> None \<Longrightarrow> ev \<in> set evs \<Longrightarrow> \<not> uses_oneshot h ev"
    and nc: "\<And>h ud ob ev. h \<notin> H \<Longrightarrow> futs s (t, h) \<noteq> None \<Longrightarrow> awaits (thr s t) h ud ob \<Longrightarrow> reads s (t, ud) \<noteq> None \<Longrightarrow> ev \<in> set evs \<Longrightarrow>
      \<not> completes ud ev"
    and rd: "\<And>h ud ob. h \<notin> H \<Longrightarrow> futs s (t, h) \<noteq> None \<Longrightarrow> awaits (thr s t) h ud ob \<Longrightarrow> reads s (t, ud) \<noteq> None \<Longrightarrow>
      reads s' (t, ud) \<noteq> None"
    and pend: "\<And>ud. reads s' (t, ud) \<noteq> None \<Longrightarrow> \<exists>p. pend_of D r ud = Some p \<and> kind p = Oneshot"
    and own: "\<And>h f. h \<in> H \<Longrightarrow> futs s' (t, h) = Some f \<Longrightarrow> fut_ok (\<lambda>ud. reads s' (t, ud)) (mfd s) r h f"
  shows "framed H t s s'"
proof -
  note D = threads_okD [OF ok]
  have other: "fut_ok (\<lambda>ud. reads s' (t, ud)) (mfd s) r h f \<and> (arrived r h \<longleftrightarrow> arrived (thr s t) h)
      \<and> (awaits r h ud ob \<longrightarrow> awaits (thr s t) h ud ob)"
    if h: "h \<notin> H" "futs s (t, h) = Some f" for h f ud ob
  proof (rule fut_frame [OF D(1) run _ _ _ D(3) [OF h(2)]])
    show "\<forall>ev\<in>set evs. \<not> uses_oneshot h ev" using nu h by blast
  qed (use nc [of h] rd [of h] h in auto)
  have "fut_ok (\<lambda>ud. reads s' (t', ud)) (mfd s) (thr s' t') h f" if "futs s' (t', h) = Some f" for t' h f
  proof (cases "t' = t")
    case True
    with that own futs [of t' h] other [of h f] s'(1) show ?thesis by (cases "h \<in> H") auto
  next
    case False
    with that futs [of t' h] D(3) [of t' h f] reads s'(1) show ?thesis by simp
  qed
  moreover have "rinv D (thr s' t')" for t' using s'(1) D(1) rsteps_inv [OF run D(1)] by simp
  moreover have "\<exists>p. pend_of D (thr s' t') ud = Some p \<and> kind p = Oneshot" if "reads s' (t', ud) \<noteq> None" for t' ud
    using that pend D(4) [of t' ud] reads s'(1) by (cases "t' = t") auto
  ultimately have "threads_ok s'" using s'(2,3) by (simp add: threads_ok_def)
  moreover have "there s' t' h \<longleftrightarrow> there s t' h" if "t' \<noteq> t \<or> h \<notin> H" for t' h
    using futs [OF that] that s'(1) other [of h] by (auto simp: there_def)
  moreover have "futs s (t', h) \<noteq> None \<and> awaits (thr s t') h ud ob"
    if h: "t' \<noteq> t \<or> h \<notin> H" "futs s' (t', h) \<noteq> None" "awaits (thr s' t') h ud ob" for t' h ud ob
    using h(2,3) futs [OF h(1)] h(1) s'(1) other [of h _ ud ob] by (cases "t' = t") auto
  ultimately show ?thesis by (simp add: framed_def)
qed

subsection \<open>The events\<close>

text \<open>
  The token is out of reach: lost, or taken by a read no future waits for any more.
  \<open>keeps\<close> is what every event of the system does with the invariant.
\<close>

definition gone :: "place \<Rightarrow> ('u, 'ps, 'os, 'ms, 'w, 'v) msys \<Rightarrow> bool" where
  "gone pl s \<longleftrightarrow> pl = Lost \<or> (\<exists>t ud. pl = In_Read t ud \<and> unwaited s t ud)"

definition keeps :: "place \<Rightarrow> ('u, 'ps, 'os, 'ms, 'w, 'v) msys \<Rightarrow> ('u, 'ps, 'os, 'ms, 'w, 'v) msys \<Rightarrow> bool" where
  "keeps pl s s' \<longleftrightarrow> threads_ok s' \<and> (\<exists>pl'. token_at pl' s' \<and> (gone pl s \<longrightarrow> gone pl' s'))"

lemma framed_ok: "framed H t s s' \<Longrightarrow> threads_ok s'"
  by (simp add: framed_def)

lemma framed_there: "framed H t s s' \<Longrightarrow> t' \<noteq> t \<or> h \<notin> H \<Longrightarrow> there s' t' h \<longleftrightarrow> there s t' h"
  by (simp add: framed_def)

lemma keepsI: "threads_ok s' \<Longrightarrow> token_at pl' s' \<Longrightarrow> (gone pl s \<Longrightarrow> gone pl' s') \<Longrightarrow> keeps pl s s'"
  by (auto simp: keeps_def)

lemma token_frame:
  assumes "token_at pl s" "count (sysw s') k = count (sysw s) k" "guards s' = guards s"
    and "\<And>t ud. reads s' (t, ud) = Some True \<longleftrightarrow> reads s (t, ud) = Some True" "\<And>t h. there s' t h \<longleftrightarrow> there s t h"
  shows "token_at pl s'"
  using assms by (simp add: token_at_def)

lemma gone_frame:
  assumes "token_at pl s" "gone pl s" "\<And>t ud. reads s (t, ud) = Some True \<Longrightarrow> unwaited s t ud \<Longrightarrow> unwaited s' t ud"
  shows "gone pl s'"
  using assms(1,2) assms(3) by (auto simp: gone_def token_at_def)

lemma start_ok:
  assumes "\<forall>t. reachable D (rs t)" "mutex_new X v w0 = (Inr m, w)" "obj w (evt_inner (mtx_evt m)) = Some k"
  shows "threads_ok \<lparr>thr = rs, sysw = w, mtx = m, futs = Map.empty, guards = 0, reads = Map.empty\<rparr>"
    "token_at In_Counter \<lparr>thr = rs, sysw = w, mtx = m, futs = Map.empty, guards = 0, reads = Map.empty\<rparr>"
proof -
  from assms(2) obtain w1 where new: "event_new X w0 = (Inr (mtx_evt m), w1)" "notify_one X (mtx_evt m) w1 = (Inr (), w)"
    by (auto simp: mutex_new_def split: prod.splits sum.splits)
  obtain k' where k': "obj w1 (evt_inner (mtx_evt m)) = Some k'" "count w1 k' = 0"
    by (rule event_new_ok [OF new(1)]) simp
  from notify_one_result [OF k'(1) new(2)] k' assms(3) have "count w k = 1" by auto
  then show "threads_ok \<lparr>thr = rs, sysw = w, mtx = m, futs = Map.empty, guards = 0, reads = Map.empty\<rparr>"
    "token_at In_Counter \<lparr>thr = rs, sysw = w, mtx = m, futs = Map.empty, guards = 0, reads = Map.empty\<rparr>"
    using assms(1,3) reachable_inv by (simp_all add: threads_ok_def token_at_def there_def)
qed

lemma framed_unwaited:
  assumes "framed H t s s'" "unwaited s t' ud"
    and "\<And>h ob. t' = t \<Longrightarrow> h \<in> H \<Longrightarrow> futs s' (t, h) \<noteq> None \<Longrightarrow> \<not> awaits (thr s' t) h ud ob"
  shows "unwaited s' t' ud"
  unfolding unwaited_def
proof (intro allI impI notI)
  fix h ob assume h: "futs s' (t', h) \<noteq> None" "awaits (thr s' t') h ud ob"
  with assms(3) have "t' \<noteq> t \<or> h \<notin> H" by blast
  with h assms(1) have "futs s (t', h) \<noteq> None \<and> awaits (thr s t') h ud ob" unfolding framed_def by blast
  with assms(2) show False unfolding unwaited_def by blast
qed

lemma framed_keeps:
  assumes fr: "framed H t s s'" and tok: "token_at pl s"
    and same: "count (sysw s') k = count (sysw s) k" "guards s' = guards s"
    and reads: "\<And>t ud. reads s' (t, ud) = Some True \<longleftrightarrow> reads s (t, ud) = Some True"
    and there: "\<And>h. h \<in> H \<Longrightarrow> there s' t h \<longleftrightarrow> there s t h"
    and own: "\<And>h ud ob. h \<in> H \<Longrightarrow> reads s (t, ud) = Some True \<Longrightarrow> unwaited s t ud \<Longrightarrow> futs s' (t, h) \<noteq> None \<Longrightarrow>
      \<not> awaits (thr s' t) h ud ob"
  shows "keeps pl s s'"
proof (rule keepsI)
  show "threads_ok s'" by (rule framed_ok [OF fr])
  have "there s' t' h \<longleftrightarrow> there s t' h" for t' h
    using framed_there [OF fr, of t' h] there [of h] by (cases "t' = t \<and> h \<in> H") auto
  then show "token_at pl s'" by (intro token_frame [OF tok]) (simp_all add: same reads)
  show "gone pl s'" if "gone pl s"
  proof (rule gone_frame [OF tok that])
    fix t' ud assume "reads s (t', ud) = Some True" and un: "unwaited s t' ud"
    then show "unwaited s' t' ud" using own by (intro framed_unwaited [OF fr un]) blast
  qed
qed

lemma new_keeps:
  assumes ok: "threads_ok s" and tok: "token_at pl s" and new: "futs s (t, h) = None" "ones (thr s t) h = None"
  shows "keeps pl s (s\<lparr>futs := (futs s)((t, h) \<mapsto> LF_Start)\<rparr>)"
proof -
  let ?s = "s\<lparr>futs := (futs s)((t, h) \<mapsto> LF_Start)\<rparr>"
  have run: "rsteps D (thr s t) [] (thr s t)" by (rule rsteps_nil)
  have "framed {h} t s ?s"
    by (rule frame [OF ok run]) (use threads_okD [OF ok] new(2) in \<open>auto simp: fut_ok_def\<close>)
  then show ?thesis
    by (rule framed_keeps [OF _ tok]) (use new no_handle_not_arrived [OF new(2)] in \<open>auto simp: there_def awaits_def\<close>)
qed

lemma poll_start_keeps:
  assumes ok: "threads_ok s" and tok: "token_at pl s" and f: "futs s (t, h) = Some LF_Start"
    and poll: "lock_poll D X waker (mtx s) LF_Start (ri (thr s t)) (sysw s) = Inr (p, f', i, w)"
  shows "p = Poll_Pending" "keeps pl s (s\<lparr>thr := (thr s)(t := thr_upd D h LF_Start f' i (thr s t)), sysw := w,
    futs := (futs s)((t, h) \<mapsto> f'), reads := (reads s)((t, next_ud D (thr s t)) \<mapsto> False)\<rparr>)"
proof -
  let ?r = "thr_upd D h LF_Start f' i (thr s t)" and ?ud = "next_ud D (thr s t)"
  let ?s = "s\<lparr>thr := (thr s)(t := ?r), sysw := w, futs := (futs s)((t, h) \<mapsto> f'), reads := (reads s)((t, ?ud) \<mapsto> False)\<rparr>"
  note T = threads_okD [OF ok]
  have none: "ones (thr s t) h = None" using T(3) [OF f] by (simp add: fut_ok_def)
  obtain evt waiter e where clone: "event_clone X (mtx_evt (mtx s)) (sysw s) = Inr (evt, w)" and p: "p = Poll_Pending"
    and f': "f' = LF_Await evt waiter" and run: "rsteps D (thr s t) [NewOneshot h, PollOneshot h e waker] ?r"
    and aw: "awaits ?r h ?ud waker" and vac: "pend_of D (thr s t) ?ud = None"
    by (rule lock_poll_start [OF T(1) none poll])
  show "p = Poll_Pending" by (fact p)
  note C = event_clone_same [OF clone]
  have evt: "evt_inner evt \<noteq> mfd s" using C(2) T(2) by auto
  have fresh: "reads s (t, ?ud) = None" using T(4) [of t ?ud] vac by force
  have pend: "\<exists>p. pend_of D ?r ud = Some p \<and> kind p = Oneshot" if "reads ?s (t, ud) \<noteq> None" for ud
  proof (cases "ud = ?ud")
    case True
    with aw show ?thesis by (auto simp: awaits_def)
  next
    case False
    with that T(4) [of t ud] obtain x where x: "pend_of D (thr s t) ud = Some x" "kind x = Oneshot" by auto
    from rsteps_pend [OF run x(1)] x(2) show ?thesis by simp
  qed
  have own: "fut_ok (\<lambda>ud. reads ?s (t, ud)) (mfd s) ?r h f'"
    using aw evt f' by (auto simp: fut_ok_def thr_upd_def)
  have "framed {h} t s ?s" by (rule frame [OF ok run]) (use pend own T(2) C(1) evt in auto)
  then show "keeps pl s ?s"
  proof (rule framed_keeps [OF _ tok])
    fix h' assume "h' \<in> {h}"
    then show "there ?s t h' \<longleftrightarrow> there s t h'"
      using awaits_not_arrived [OF aw] no_handle_not_arrived [OF none] by (simp add: there_def)
    fix ud ob assume "reads s (t, ud) = Some True"
    then show "\<not> awaits (thr ?s t) h' ud ob"
      using \<open>h' \<in> {h}\<close> awaits_same_ud [OF rsteps_inv [OF run T(1)] aw, of ud] fresh by auto
  qed (use fresh C(3) in auto)
qed

lemma threads_pend:
  assumes "threads_ok s" "rsteps D (thr s t) evs r" "reads s (t, ud) \<noteq> None" "\<forall>ev\<in>set evs. \<not> completes ud ev"
  shows "\<exists>p. pend_of D r ud = Some p \<and> kind p = Oneshot"
  using threads_okD(4) [OF assms(1,3)] rsteps_pend [OF assms(2)] assms(4) by blast

lemma drop_clone:
  assumes "threads_ok s" "evt_inner evt \<noteq> mfd s"
  shows "obj (event_drop X evt (sysw s)) (mfd s) = Some k" "count (event_drop X evt (sysw s)) = count (sysw s)"
  using threads_okD(2) [OF assms(1)] assms(2) eventfd_close by (simp_all add: event_drop_def)

lemma poll_arrived_keeps:
  assumes ok: "threads_ok s" and tok: "token_at pl s" and f: "futs s (t, h) = Some (LF_Await evt waiter)"
    and v: "has_result (thr s t) h v" "0 \<le> sint v"
    and run: "rsteps D (thr s t) [PollOneshot h e waker, DropOneshot h] r"
  shows "keeps pl s (s\<lparr>thr := (thr s)(t := r), sysw := event_drop X evt (sysw s), futs := (futs s)((t, h) := None),
    guards := Suc (guards s)\<rparr>)"
proof -
  let ?s = "s\<lparr>thr := (thr s)(t := r), sysw := event_drop X evt (sysw s), futs := (futs s)((t, h) := None),
    guards := Suc (guards s)\<rparr>"
  have evt: "evt_inner evt \<noteq> mfd s" using threads_okD(3) [OF ok f] by (simp add: fut_ok_def)
  note C = drop_clone [OF ok evt]
  have fr: "framed {h} t s ?s" by (rule frame [OF ok run]) (use C threads_pend [OF ok run] in auto)
  have pl: "pl = In_Future t h" using v f token_atD(4) [OF tok, of t h] by (auto simp: there_def arrived_def)
  have "there ?s t' h' \<longleftrightarrow> False" for t' h'
    using framed_there [OF fr, of t' h'] token_atD(4) [OF tok, of t' h'] pl
    by (cases "t' = t \<and> h' = h") (simp add: there_def, auto)
  then have "token_at In_Guard ?s" using tok pl C(2) by (simp add: token_at_def)
  then show ?thesis by (rule keepsI [OF framed_ok [OF fr]]) (simp add: pl gone_def)
qed

lemma drop_framed:
  assumes ok: "threads_ok s" and tok: "token_at pl s" and f: "futs s (t, h) = Some f"
    and drop: "mstep D X (LockDrop t h) s = Inr s'"
  shows "framed {h} t s s'" "futs s' (t, h) = None" "token_at (if pl = In_Future t h then Lost else pl) s'"
proof -
  from drop f obtain i w where drop: "lock_fut_drop D X f (ri (thr s t)) (sysw s) = Inr (i, w)"
    and s': "s' = s\<lparr>thr := (thr s)(t := (thr s t)\<lparr>ri := i, ones := (ones (thr s t))(h := None)\<rparr>), sysw := w,
      futs := (futs s)((t, h) := None)\<rparr>" by (auto simp: rbind_eq_Inr)
  let ?r = "(thr s t)\<lparr>ri := i, ones := (ones (thr s t))(h := None)\<rparr>"
  let ?s = "s\<lparr>thr := (thr s)(t := ?r), sysw := w, futs := (futs s)((t, h) := None)\<rparr>"
  note T = threads_okD [OF ok]
  obtain evs where run: "rsteps D (thr s t) evs ?r"
    and evs: "\<forall>ev\<in>set evs. (\<forall>h'. h' \<noteq> h \<longrightarrow> \<not> uses_oneshot h' ev) \<and> (\<forall>ud. \<not> completes ud ev)"
    by (rule lock_drop_steps [OF T(1) T(3) [OF f] drop])
  have w: "obj w (mfd s) = Some k \<and> count w = count (sysw s)"
    using drop T(2) T(3) [OF f] drop_clone [OF ok]
    by (cases f) (auto simp: lock_fut_drop_def fut_ok_def rbind_eq_Inr)
  have fr: "framed {h} t s ?s" by (rule frame [OF ok run]) (use w evs threads_pend [OF ok run] in auto)
  let ?pl = "if pl = In_Future t h then Lost else pl"
  have there: "there ?s t' h' \<longleftrightarrow> ?pl = In_Future t' h'" for t' h'
    using framed_there [OF fr, of t' h'] token_atD(4) [OF tok, of t' h']
    by (cases "t' = t \<and> h' = h") (simp add: there_def, auto)
  have "token_at ?pl ?s" using tok there w by (auto simp: token_at_def)
  with fr show "framed {h} t s s'" "futs s' (t, h) = None" "token_at ?pl s'" by (simp_all add: s')
qed

lemma drop_keeps:
  assumes ok: "threads_ok s" and tok: "token_at pl s" and f: "futs s (t, h) = Some f"
    and drop: "mstep D X (LockDrop t h) s = Inr s'"
  shows "keeps pl s s'"
proof -
  note F = drop_framed [OF assms]
  have un: "unwaited s' t' ud" if "unwaited s t' ud" for t' ud by (rule framed_unwaited [OF F(1) that]) (use F(2) in simp)
  show ?thesis by (rule keepsI [OF framed_ok [OF F(1)] F(3)]) (use un in \<open>auto simp: gone_def\<close>)
qed

text \<open>The token goes with a future that is dropped after the kernel has read for it.\<close>

lemma drop_loses:
  assumes ok: "threads_ok s" and tok: "token_at pl s" and f: "futs s (t, h) = Some f"
    and drop: "mstep D X (LockDrop t h) s = Inr s'"
    and taken: "reads s (t, ud) = Some True \<and> awaits (thr s t) h ud ob \<or> arrived (thr s t) h"
  shows "threads_ok s' \<and> (\<exists>pl'. token_at pl' s' \<and> gone pl' s')"
proof -
  note F = drop_framed [OF ok tok f drop]
  have "gone (if pl = In_Future t h then Lost else pl) s'" using taken
  proof (elim disjE conjE)
    assume rd: "reads s (t, ud) = Some True" and aw: "awaits (thr s t) h ud ob"
    have "unwaited s' t ud" unfolding unwaited_def
    proof (intro allI impI notI)
      fix h' ob' assume h': "futs s' (t, h') \<noteq> None" "awaits (thr s' t) h' ud ob'"
      with F(2) have "h' \<noteq> h" by auto
      with h' F(1) have "awaits (thr s t) h' ud ob'" unfolding framed_def by blast
      with awaits_inj [OF threads_okD(1) [OF ok] aw this] \<open>h' \<noteq> h\<close> show False by simp
    qed
    moreover have "pl = In_Read t ud" using token_atD(3) [OF tok] rd by blast
    ultimately show ?thesis by (simp add: gone_def)
  next
    assume "arrived (thr s t) h"
    then have "pl = In_Future t h" using token_atD(4) [OF tok, of t h] f by (simp add: there_def)
    then show ?thesis by (simp add: gone_def)
  qed
  with framed_ok [OF F(1)] F(3) show ?thesis by blast
qed

lemma world_keeps:
  assumes ok: "threads_ok s" and tok: "token_at pl s" and w: "obj w (mfd s) = Some k"
    and s': "thr s' = thr s" "futs s' = futs s" "mtx_evt (mtx s') = mtx_evt (mtx s)" "sysw s' = w"
    and rd: "\<And>p. reads s' p = None \<longleftrightarrow> reads s p = None" and tok': "token_at pl' s'" and gone: "\<not> gone pl s \<or> pl' = pl"
  shows "keeps pl s s'"
proof (rule keepsI)
  have "fut_ok (\<lambda>ud. reads s' (t, ud)) (mfd s) (thr s t) h f" if "futs s (t, h) = Some f" for t h f
    by (rule fut_reads_mono [OF threads_okD(3) [OF ok that]]) (simp add: rd)
  then show "threads_ok s'" using threads_okD [OF ok] w by (simp add: threads_ok_def s' rd)
  show "token_at pl' s'" by (fact tok')
  show "gone pl' s'" if "gone pl s" using that gone by (auto simp: gone_def unwaited_def s')
qed

lemma guard_drop_keeps:
  assumes ok: "threads_ok s" and tok: "token_at pl s" and g: "0 < guards s" and drop: "guard_drop X (mtx s) (sysw s) = Inr w"
  shows "keeps pl s (s\<lparr>sysw := w, guards := guards s - 1\<rparr>)" "token_at In_Counter (s\<lparr>sysw := w, guards := guards s - 1\<rparr>)"
proof -
  let ?s = "s\<lparr>sysw := w, guards := guards s - 1\<rparr>"
  note T = threads_okD [OF ok]
  from drop have "notify_one X (mtx_evt (mtx s)) (sysw s) = (Inr (), w)"
    by (auto simp: guard_drop_def split: prod.splits sum.splits)
  note N = notify_one_result [OF T(2) this]
  have pl: "pl = In_Guard" using g token_atD(2) [OF tok] by (simp split: if_splits)
  with tok N(2) show t: "token_at In_Counter ?s" by (simp add: token_at_def there_def)
  show "keeps pl s ?s" by (rule world_keeps [OF ok tok, of w, OF _ _ _ _ _ _ t]) (use N(1) T(2) pl in \<open>simp_all add: gone_def\<close>)
qed

lemma kernel_read_keeps:
  assumes ok: "threads_ok s" and tok: "token_at pl s" and rd: "reads s (t, ud) = Some False" "0 < count (sysw s) k"
    and w: "obj w = obj (sysw s)" "count w = (count (sysw s))(k := count (sysw s) k - 1)"
  shows "keeps pl s (s\<lparr>sysw := w, reads := (reads s)((t, ud) \<mapsto> True)\<rparr>)"
proof -
  have pl: "pl = In_Counter" using rd(2) token_atD(1) [OF tok] by (simp split: if_splits)
  with tok w rd have "token_at (In_Read t ud) (s\<lparr>sysw := w, reads := (reads s)((t, ud) \<mapsto> True)\<rparr>)"
    by (auto simp: token_at_def there_def)
  then show ?thesis
    by (rule world_keeps [OF ok tok, of w, rotated 6]) (use w threads_okD(2) [OF ok] rd pl in \<open>auto simp: gone_def\<close>)
qed

lemma complete_run:
  assumes ok: "threads_ok s" and rd: "reads s (t, cqe_user_data c) \<noteq> None" and step: "complete_cqe D c (thr s t) = Inr (ob, r)"
  shows "rsteps D (thr s t) [Complete c] r"
proof -
  from threads_okD(4) [OF ok rd] obtain x where "pend_of D (thr s t) (cqe_user_data c) = Some x" "kind x = Oneshot" by blast
  from pend_flight [OF threads_okD(1) [OF ok] this] step show ?thesis by (simp add: rsteps_simps)
qed

lemma awaited_completion_keeps:
  assumes ok: "threads_ok s" and tok: "token_at pl s" and rd: "reads s (t, cqe_user_data c) = Some b" "b \<longleftrightarrow> 0 \<le> sint (cqe_result c)"
    and step: "complete_cqe D c (thr s t) = Inr (ob, r)"
    and h: "futs s (t, h) \<noteq> None" "awaits (thr s t) h (cqe_user_data c) ob'"
  shows "keeps pl s (s\<lparr>thr := (thr s)(t := r), reads := (reads s)((t, cqe_user_data c) := None)\<rparr>)"
proof -
  let ?ud = "cqe_user_data c" and ?s = "s\<lparr>thr := (thr s)(t := r), reads := (reads s)((t, cqe_user_data c) := None)\<rparr>"
  note T = threads_okD [OF ok]
  have run: "rsteps D (thr s t) [Complete c] r" by (rule complete_run [OF ok _ step]) (simp add: rd)
  have res: "has_result r h (cqe_result c)" using complete_awaits [OF T(1) h(2)] step by auto
  obtain f where f: "futs s (t, h) = Some f" using h(1) by blast
  have o: "ones r h = ones (thr s t) h" using step by (auto simp: complete_cqe_def rbind_eq_Inr)
  have own: "fut_ok (\<lambda>ud. reads ?s (t, ud)) (mfd s) r h f"
    using T(3) [OF f] h(2) res o by (cases f) (auto simp: fut_ok_def awaits_def)
  have only: "h' = h" if "awaits (thr s t) h' ?ud ob''" for h' ob'' by (rule awaits_inj [OF T(1) h(2) that])
  have fr: "framed {h} t s ?s"
    by (rule frame [OF ok run]) (use T(2) f own only threads_pend [OF ok run] in \<open>auto split: if_splits\<close>)
  have before: "\<not> there s t h" using awaits_not_arrived [OF h(2)] by (simp add: there_def)
  have after: "there ?s t h \<longleftrightarrow> b" using rd(2) h(1) arrived_iff [OF res] by (simp add: there_def)
  have other: "there ?s t' h' \<longleftrightarrow> there s t' h'" if "(t', h') \<noteq> (t, h)" for t' h'
    using framed_there [OF fr, of t' h'] that by auto
  let ?pl = "if b then In_Future t h else pl"
  have rt: "pl = In_Read t ?ud \<longleftrightarrow> b" using token_atD(3) [OF tok, of t ?ud] rd(1) by simp
  show ?thesis
  proof (rule keepsI)
    show "threads_ok ?s" by (rule framed_ok [OF fr])
    have "there ?s t' h' \<longleftrightarrow> ?pl = In_Future t' h'" for t' h'
      using other [of t' h'] after before token_atD(4) [OF tok, of t' h'] rt by (cases "(t', h') = (t, h)") auto
    then show "token_at ?pl ?s" using tok rd(1) rt by (auto simp: token_at_def)
    have un: "unwaited ?s t' ud'" if "unwaited s t' ud'" for t' ud'
      by (rule framed_unwaited [OF fr that]) (use awaits_no_result [of r h] res in auto)
    have "\<not> unwaited s t ?ud" using h by (auto simp: unwaited_def)
    then show "gone ?pl ?s" if "gone pl s" using that un rt by (auto simp: gone_def)
  qed
qed

lemma orphan_completion_keeps:
  assumes ok: "threads_ok s" and tok: "token_at pl s" and rd: "reads s (t, cqe_user_data c) = Some b"
    and step: "complete_cqe D c (thr s t) = Inr (ob, r)" and un: "unwaited s t (cqe_user_data c)"
  shows "keeps pl s (s\<lparr>thr := (thr s)(t := r), reads := (reads s)((t, cqe_user_data c) := None)\<rparr>)"
proof -
  let ?ud = "cqe_user_data c" and ?s = "s\<lparr>thr := (thr s)(t := r), reads := (reads s)((t, cqe_user_data c) := None)\<rparr>"
  have run: "rsteps D (thr s t) [Complete c] r" by (rule complete_run [OF ok _ step]) (simp add: rd)
  have fr: "framed {} t s ?s"
    by (rule frame [OF ok run]) (use threads_okD(2) [OF ok] un threads_pend [OF ok run] in \<open>auto simp: unwaited_def split: if_splits\<close>)
  then have there: "there ?s t' h' \<longleftrightarrow> there s t' h'" for t' h' by (rule framed_there) simp
  let ?pl = "if b then Lost else pl"
  have rt: "pl = In_Read t ?ud \<longleftrightarrow> b" using token_atD(3) [OF tok, of t ?ud] rd by simp
  show ?thesis
  proof (rule keepsI)
    show "threads_ok ?s" by (rule framed_ok [OF fr])
    show "token_at ?pl ?s" using tok rd rt by (auto simp: token_at_def there)
    show "gone ?pl ?s" if "gone pl s" using that framed_unwaited [OF fr] by (auto simp: gone_def)
  qed
qed

lemma other_reactor_keeps:
  assumes ok: "threads_ok s" and tok: "token_at pl s" and step: "allowed ev (thr s t)" "rstep D ev (thr s t) = Inr r"
    and nu: "\<forall>h. futs s (t, h) \<noteq> None \<longrightarrow> \<not> uses_oneshot h ev" and nc: "\<forall>ud. reads s (t, ud) \<noteq> None \<longrightarrow> \<not> completes ud ev"
  shows "keeps pl s (s\<lparr>thr := (thr s)(t := r)\<rparr>)"
proof -
  have run: "rsteps D (thr s t) [ev] r" using step by (auto simp: rsteps_simps)
  have "framed {} t s (s\<lparr>thr := (thr s)(t := r)\<rparr>)"
    by (rule frame [OF ok run]) (use threads_okD(2) [OF ok] nu nc threads_pend [OF ok run] in auto)
  then show ?thesis by (rule framed_keeps [OF _ tok]) simp_all
qed

lemma poll_keeps:
  assumes ok: "threads_ok s" and tok: "token_at pl s" and f: "futs s (t, h) = Some f"
    and step: "mstep D X (LockPoll t h waker) s = Inr s'"
  shows "keeps pl s s'"
proof (cases f)
  case LF_Start
  with step f obtain p f' i w where poll: "lock_poll D X waker (mtx s) LF_Start (ri (thr s t)) (sysw s) = Inr (p, f', i, w)"
    by (auto simp: rbind_eq_Inr)
  from poll_start_keeps [OF ok tok f [unfolded LF_Start] poll] step f LF_Start poll show ?thesis by simp
next
  case (LF_Await evt waiter)
  with threads_okD(3) [OF ok f] have o: "ones (thr s t) h = Some (ew_io waiter)"
    and st: "(\<exists>ud ob. awaits (thr s t) h ud ob) \<or> (\<exists>v. has_result (thr s t) h v)" by (auto simp: fut_ok_def)
  from st show ?thesis
  proof (elim disjE exE)
    fix ud ob assume aw: "awaits (thr s t) h ud ob"
    have "s' = s" using step f LF_Await
      by (simp add: lock_poll_waiting(1) [OF aw o] lock_poll_waiting(2) [OF aw o, of evt] fun_upd_idem)
    with ok tok show ?thesis by (auto simp: keeps_def)
  next
    fix v assume v: "has_result (thr s t) h v"
    obtain i where i: "lock_poll D X waker (mtx s) (LF_Await evt waiter) (ri (thr s t)) (sysw s) =
        (if sint v < 0 then Inl UnwrapErr else Inr (Poll_Ready (), LF_Done, i, event_drop X evt (sysw s)))"
      "rsteps D (thr s t) [PollOneshot h undefined waker, DropOneshot h] (thr_upd D h (LF_Await evt waiter) LF_Done i (thr s t))"
      by (rule lock_poll_arrived [OF v o])
    have "0 \<le> sint v" using i(1) step f LF_Await by (simp split: if_splits)
    from poll_arrived_keeps [OF ok tok f [unfolded LF_Await] v this i(2)] i(1) this step f LF_Await show ?thesis by simp
  qed
qed (use threads_okD(3) [OF ok f] in \<open>simp add: fut_ok_def\<close>)

lemma mstep_keeps:
  assumes ok: "threads_ok s" and tok: "token_at pl s" and al: "mallowed obj count k ev s" and step: "mstep D X ev s = Inr s'"
  shows "keeps pl s s'"
proof (cases ev)
  case (LockNew t h)
  with al step new_keeps [OF ok tok] show ?thesis by auto
next
  case (LockPoll t h waker)
  with al step show ?thesis using poll_keeps [OF ok tok] by auto
next
  case (LockDrop t h)
  with al step drop_keeps [OF ok tok, of t h] show ?thesis by (cases "futs s (t, h)") simp_all
next
  case (GuardUse f)
  with step have s': "s' = s\<lparr>mtx := guard_deref_mut f (mtx s)\<rparr>" by simp
  have "token_at pl s'" using tok by (simp add: token_at_def there_def s')
  then show ?thesis by (rule world_keeps [OF ok tok threads_okD(2) [OF ok], rotated 5]) (simp_all add: s' guard_deref_mut_def)
next
  case GuardDrop
  with al step show ?thesis using guard_drop_keeps(1) [OF ok tok] by (auto simp: rbind_eq_Inr)
next
  case (KernelRead t ud w)
  with al step show ?thesis using kernel_read_keeps [OF ok tok, of t ud w] by auto
next
  case (Completion t c)
  with al step obtain b ob r where c: "reads s (t, cqe_user_data c) = Some b" "b \<longleftrightarrow> 0 \<le> sint (cqe_result c)"
      "complete_cqe D c (thr s t) = Inr (ob, r)"
      "s' = s\<lparr>thr := (thr s)(t := r), reads := (reads s)((t, cqe_user_data c) := None)\<rparr>"
    by (auto simp: rbind_eq_Inr split: option.splits)
  show ?thesis
  proof (cases "unwaited s t (cqe_user_data c)")
    case True
    from orphan_completion_keeps [OF ok tok c(1,3) this] c(4) show ?thesis by simp
  next
    case False
    then obtain h ob' where "futs s (t, h) \<noteq> None" "awaits (thr s t) h (cqe_user_data c) ob'" by (auto simp: unwaited_def)
    from awaited_completion_keeps [OF ok tok c(1-3) this] c(4) show ?thesis by simp
  qed
next
  case (OtherReactor t ev')
  with al step show ?thesis using other_reactor_keeps [OF ok tok, of ev' t] by (auto simp: rbind_eq_Inr)
next
  case (OtherWorld w)
  with step have s': "s' = s\<lparr>sysw := w\<rparr>" by simp
  have w: "obj w (mfd s) = Some k" "count w k = count (sysw s) k" using al OtherWorld threads_okD(2) [OF ok] by simp_all
  then have "token_at pl s'" using tok by (simp add: token_at_def there_def s')
  then show ?thesis by (rule world_keeps [OF ok tok w(1), rotated 5]) (simp_all add: s')
qed

lemma mreachable_inv:
  assumes "mreachable D X obj count k s"
  obtains pl where "threads_ok s" "token_at pl s"
proof -
  have "threads_ok s \<and> (\<exists>pl. token_at pl s)" using assms
  proof (induction rule: mreachable.induct)
    case (mstart rs v w0 m w)
    from start_ok [OF this] show ?case by blast
  next
    case (mnext s ev s')
    then obtain pl where "threads_ok s" "token_at pl s" by blast
    from mstep_keeps [OF this mnext.hyps(2,3)] show ?case by (auto simp: keeps_def)
  qed
  with that show thesis by blast
qed

subsection \<open>Consequences\<close>

lemma gone_stays:
  assumes "msteps D X obj count k s evs s'" "threads_ok s" "token_at pl s" "gone pl s"
  shows "guards s' = 0"
  using assms
proof (induction arbitrary: pl rule: msteps.induct)
  case (msteps_nil s)
  then show ?case by (auto simp: token_at_def gone_def)
next
  case (msteps_cons ev s s' evs s'')
  from mstep_keeps [OF msteps_cons.prems(1,2) msteps_cons.hyps(1,2)] msteps_cons.prems(3) msteps_cons.IH
  show ?case by (auto simp: keeps_def)
qed

lemma one_guard:
  assumes "mreachable D X obj count k s"
  shows "count (sysw s) k + guards s \<le> 1"
proof -
  obtain pl where "token_at pl s" by (rule mreachable_inv [OF assms])
  then show ?thesis by (simp add: token_at_def)
qed

lemma locked_poll:
  assumes "mreachable D X obj count k s" "0 < guards s" "futs s (t, h) = Some f"
    and poll: "lock_poll D X waker (mtx s) f (ri (thr s t)) (sysw s) = Inr (p, f', i, w)"
  shows "p = Poll_Pending"
proof (rule ccontr)
  assume "p \<noteq> Poll_Pending"
  with assms(3) poll obtain s' where s': "mstep D X (LockPoll t h waker) s = Inr s'" "guards s' = Suc (guards s)" by simp
  have "mreachable D X obj count k s'" by (rule mnext [OF assms(1) _ s'(1)]) (simp add: assms(3))
  from one_guard [OF this] s'(2) assms(2) show False by simp
qed

lemma waits_awaits:
  assumes ok: "threads_ok s" and f: "futs s (t, h) = Some (LF_Await evt waiter)" "ew_io waiter = OS_Submitted n"
    and p: "pend_of D (thr s t) ud = Some \<lparr>assoc_obj = a, result_slab_idx = n, kind = Oneshot\<rparr>"
  shows "awaits (thr s t) h ud a" "reads s (t, ud) \<noteq> None"
proof -
  note T = threads_okD [OF ok]
  have o: "ones (thr s t) h = Some (OS_Submitted n)"
    and st: "(\<exists>ud ob. awaits (thr s t) h ud ob \<and> reads s (t, ud) \<noteq> None) \<or> (\<exists>v. has_result (thr s t) h v)"
    using T(3) [OF f(1)] f(2) by (simp_all add: fut_ok_def)
  have "one_slots (thr s t) h = Some n" using o by (simp add: one_slots_def)
  moreover have "flight D Oneshot (thr s t) ud = Some n" using pend_flight [OF T(1) p] by simp
  ultimately have "slab_get (one D) (get_oneshot (ri (thr s t))) n = Some RS_Pending"
    using slots_handle_phase [OF rinvD(1) [OF T(1)]] slots_flight_phase [OF rinvD(1) [OF T(1)]]
    by (fastforce simp: os.phase_iffs)
  with o p show aw: "awaits (thr s t) h ud a" by (simp add: awaits_def)
  from st awaits_no_result [OF aw] obtain ud' ob where "awaits (thr s t) h ud' ob" "reads s (t, ud') \<noteq> None" by blast
  with awaits_same_ud [OF T(1) aw] show "reads s (t, ud) \<noteq> None" by auto
qed

text \<open>From the release of the lock to the guard of a future that waits.\<close>

lemma handoff:
  assumes reach: "mreachable D X obj count k s" and g: "0 < guards s" and rel: "mstep D X GuardDrop s = Inr s1"
    and f: "futs s (t, h) = Some (LF_Await evt waiter)" "ew_io waiter = OS_Submitted n"
    and p: "pend_of D (thr s t) ud = Some \<lparr>assoc_obj = a, result_slab_idx = n, kind = Oneshot\<rparr>"
    and w: "obj w = obj (sysw s1)" "count w = (count (sysw s1))(k := count (sysw s1) k - 1)"
    and c: "cqe_user_data c = ud" "0 \<le> sint (cqe_result c)"
  shows "\<exists>s2 r s3 s4. msteps D X obj count k s1 [KernelRead t ud w] s2 \<and> complete_cqe D c (thr s2 t) = Inr (a, r)
    \<and> msteps D X obj count k s2 [Completion t c] s3 \<and> msteps D X obj count k s3 [LockPoll t h waker] s4 \<and> guards s4 = 1"
proof -
  obtain pl where ok: "threads_ok s" and tok: "token_at pl s" by (rule mreachable_inv [OF reach])
  note A = waits_awaits [OF ok f p]
  have "\<not> (\<exists>t ud. pl = In_Read t ud)" using g token_atD(2) [OF tok] by (auto split: if_splits)
  then have rd: "reads s (t, ud) = Some False" using A(2) token_atD(3) [OF tok, of t ud] by auto
  from rel obtain w1 where gd: "guard_drop X (mtx s) (sysw s) = Inr w1" and s1: "s1 = s\<lparr>sysw := w1, guards := guards s - 1\<rparr>"
    by (auto simp: rbind_eq_Inr)
  note G = guard_drop_keeps(2) [OF ok tok g gd, folded s1]
  have rd1: "reads s1 (t, ud) = Some False" "0 < count (sysw s1) k" using rd token_atD(1) [OF G] by (simp_all add: s1)
  let ?s2 = "s1\<lparr>sysw := w, reads := (reads s1)((t, ud) \<mapsto> True)\<rparr>"
  have st2: "msteps D X obj count k s1 [KernelRead t ud w] ?s2" using rd1 w by (simp add: msteps_simps)
  have reach1: "mreachable D X obj count k s1" by (rule mnext [OF reach _ rel]) (simp add: g)
  note reach2 = msteps_reachable [OF st2 reach1]
  have aw2: "awaits (thr ?s2 t) h (cqe_user_data c) a" using A(1) c(1) by (simp add: s1)
  obtain r where r: "complete_cqe D c (thr ?s2 t) = Inr (a, r)" "has_result r h (cqe_result c)"
    using complete_awaits [OF threads_okD(1) [OF ok] A(1)[folded c(1)]] by (auto simp: s1)
  let ?s3 = "?s2\<lparr>thr := (thr ?s2)(t := r), reads := (reads ?s2)((t, ud) := None)\<rparr>"
  have st3: "msteps D X obj count k ?s2 [Completion t c] ?s3" using r(1) c by (simp add: msteps_simps)
  note reach3 = msteps_reachable [OF st3 reach2]
  have f3: "futs ?s3 (t, h) = Some (LF_Await evt waiter)" using f(1) by (simp add: s1)
  obtain pl3 where "threads_ok ?s3" by (rule mreachable_inv [OF reach3])
  from threads_okD(3) [OF this f3] have o3: "ones r h = Some (ew_io waiter)" by (simp add: fut_ok_def)
  obtain i where i: "lock_poll D X waker (mtx ?s3) (LF_Await evt waiter) (ri r) (sysw ?s3) =
      (if sint (cqe_result c) < 0 then Inl UnwrapErr else Inr (Poll_Ready (), LF_Done, i, event_drop X evt (sysw ?s3)))"
    by (rule lock_poll_arrived [OF r(2) o3])
  then obtain s4 where s4: "mstep D X (LockPoll t h waker) ?s3 = Inr s4" "guards s4 = Suc (guards ?s3)"
    using f3 c(2) by simp
  have g4: "guards s4 = 1" using G s4(2) by (simp add: token_at_def)
  have st4: "msteps D X obj count k ?s3 [LockPoll t h waker] s4" using s4(1) f3 by (simp only: msteps_simps) simp
  show ?thesis by (intro exI conjI) (fact st2, fact r(1), fact st3, fact st4, fact g4)
qed

lemma cancelled:
  assumes reach: "mreachable D X obj count k s" and f: "futs s (t, h) = Some (LF_Await evt waiter)" "ew_io waiter = OS_Submitted n"
    and taken: "pend_of D (thr s t) ud = Some \<lparr>assoc_obj = a, result_slab_idx = n, kind = Oneshot\<rparr> \<and> reads s (t, ud) = Some True
      \<or> slab_get (one D) (get_oneshot (ri (thr s t))) n = Some (RS_Set v) \<and> 0 \<le> sint v"
    and drop: "mstep D X (LockDrop t h) s = Inr s1" and run: "msteps D X obj count k s1 evs s2"
  shows "guards s2 = 0"
proof -
  obtain pl where ok: "threads_ok s" and tok: "token_at pl s" by (rule mreachable_inv [OF reach])
  have "ones (thr s t) h = Some (OS_Submitted n)" using threads_okD(3) [OF ok f(1)] f(2) by (simp add: fut_ok_def)
  with taken waits_awaits(1) [OF ok f, of ud a]
  have "reads s (t, ud) = Some True \<and> awaits (thr s t) h ud a \<or> arrived (thr s t) h"
    by (auto simp: arrived_def has_result_def)
  from drop_loses [OF ok tok f(1) drop this] gone_stays [OF run] show ?thesis by blast
qed

end

end
