(* ===== verification/MutexProps.thy ===== *)
theory MutexProps
  imports MutexThms
begin

text \<open>
  The properties of the mutex as closed statements, with instances of two lock futures on two
  threads of the simulated system.
\<close>

interpretation simmx: mutex_env ring0 sim_os s_obj s_count k for k
  by (intro mutex_env.intro ring0_deps simev.eventfd_os_axioms)

subsection \<open>A mutex of the simulated system\<close>

abbreviation idle :: "(script_ring, nat PendingIo option list, ResultState option list,
    i32 list MultishotResultState option list) rsys" where
  "idle \<equiv> fresh\<lparr>ones := Map.empty\<rparr>"

abbreviation taken :: sim where
  "taken \<equiv> sim0\<lparr>s_next := 4, s_tab := [(3, 1)], s_count := (\<lambda>_. 0)(1 := 1)\<rparr>"

abbreviation mutex0 :: "(script_ring, nat PendingIo option list, ResultState option list,
    i32 list MultishotResultState option list, sim, nat) msys" where
  "mutex0 \<equiv> \<lparr>thr = \<lambda>_. idle, sysw = taken, mtx = \<lparr>mtx_evt = \<lparr>evt_inner = 3\<rparr>, mtx_obj = 42\<rparr>,
     futs = Map.empty, guards = 0, reads = Map.empty\<rparr>"

lemmas mutex_eval = event_new_def event_clone_def event_wait_def event_drop_def notify_one_def sim_eval
  lock_poll_def lock_await_def event_waiter_poll_def event_waiter_drop_def event_waiter_entry_def lock_fut_drop_def
  guard_drop_def thr_upd_def reactor_eval fun_eq_iff

lemma mutex0_reachable: "mreachable ring0 sim_os s_obj s_count 1 mutex0"
proof (rule mstart)
  show "\<forall>t :: nat. reachable ring0 idle"
    by (intro allI rrun_init_reachable [where evs = "[]"]) (simp add: reactor_eval)
  show "mutex_new sim_os 42 sim0 = (Inr \<lparr>mtx_evt = \<lparr>evt_inner = 3\<rparr>, mtx_obj = 42\<rparr>, taken)"
    by (simp add: mutex_new_def mutex_eval)
qed simp

text \<open>
  The future on thread 0 waits, the kernel reads for it and it gets the guard; then a future
  on thread 1 waits.
\<close>

abbreviation contention :: "(script_ring, nat, sim, nat) mevent list" where
  "contention \<equiv> [LockNew 0 0, LockPoll 0 0 7, KernelRead 0 0 (taken\<lparr>s_next := 5, s_tab := [(4, 1), (3, 1)], s_count := \<lambda>_. 0\<rparr>),
     Completion 0 (cqe0 8 0), LockPoll 0 0 7, LockNew 1 0, LockPoll 1 0 9]"

lemma contention_run:
  "\<exists>s evt waiter i w. msteps ring0 sim_os s_obj s_count 1 mutex0 contention s \<and> guards s = 1
     \<and> futs s (1, 0) = Some (LF_Await evt waiter) \<and> ew_io waiter = OS_Submitted 0
     \<and> lock_poll ring0 sim_os 9 (mtx s) (LF_Await evt waiter) (ri (thr s 1)) (sysw s) = Inr (Poll_Pending, LF_Await evt waiter, i, w)
     \<and> pend_of ring0 (thr s 1) 0 = Some \<lparr>assoc_obj = 9, result_slab_idx = 0, kind = Oneshot\<rparr>"
  by (simp add: msteps_simps mutex_eval pend_of_def)

text \<open>A future is dropped after the kernel has read for it; then another one polls.\<close>

abbreviation cancellation :: "(script_ring, nat, sim, nat) mevent list" where
  "cancellation \<equiv> [LockNew 0 0, LockPoll 0 0 7, KernelRead 0 0 (taken\<lparr>s_next := 5, s_tab := [(4, 1), (3, 1)], s_count := \<lambda>_. 0\<rparr>)]"

lemma cancellation_run:
  "\<exists>s s1 s2 evt waiter. msteps ring0 sim_os s_obj s_count 1 mutex0 cancellation s
     \<and> futs s (0, 0) = Some (LF_Await evt waiter) \<and> ew_io waiter = OS_Submitted 0 \<and> reads s (0, 0) = Some True
     \<and> pend_of ring0 (thr s 0) 0 = Some \<lparr>assoc_obj = 7, result_slab_idx = 0, kind = Oneshot\<rparr>
     \<and> mstep ring0 sim_os (LockDrop 0 0) s = Inr s1
     \<and> msteps ring0 sim_os s_obj s_count 1 s1 [Completion 0 (cqe0 8 0), LockNew 1 0, LockPoll 1 0 9] s2"
  by (simp add: msteps_simps mutex_eval pend_of_def)

subsection \<open>Properties\<close>

text \<open>
  C5. Mutual exclusion, over all interleavings of tasks on any number of threads. There is never
  more than one guard, and as long as there is one the counter of the event is 0 and no poll of
  a lock future returns a guard. Futures may be dropped at any time.
\<close>

theorem mutex_exclusion:
  assumes "reactor_deps D" "eventfd_os X obj count" "mreachable D X obj count k s"
  shows "guards s \<le> 1 \<and> (0 < guards s \<longrightarrow> count (sysw s) k = 0)
    \<and> (0 < guards s \<and> futs s (t, h) = Some f
        \<and> lock_poll D X waker (mtx s) f (ri (thr s t)) (sysw s) = Inr (p, f', i, w) \<longrightarrow> p = Poll_Pending)"
proof -
  have env: "mutex_env D X obj count" by (intro mutex_env.intro assms)
  from mutex_env.one_guard [OF env assms(3)] mutex_env.locked_poll [OF env assms(3)] show ?thesis by auto
qed

theorem mutex_exclusion_witness:
  "\<exists>s evt waiter i w. msteps ring0 sim_os s_obj s_count 1 mutex0 contention s \<and> guards s = 1 \<and> s_count (sysw s) 1 = 0
     \<and> lock_poll ring0 sim_os 9 (mtx s) (LF_Await evt waiter) (ri (thr s 1)) (sysw s) = Inr (Poll_Pending, LF_Await evt waiter, i, w)"
proof -
  from contention_run obtain s evt waiter i w where s: "msteps ring0 sim_os s_obj s_count 1 mutex0 contention s"
    "guards s = 1" "futs s (1, 0) = Some (LF_Await evt waiter)"
    "lock_poll ring0 sim_os 9 (mtx s) (LF_Await evt waiter) (ri (thr s 1)) (sysw s) = Inr (Poll_Pending, LF_Await evt waiter, i, w)"
    by blast
  from mutex_exclusion [OF ring0_deps simev.eventfd_os_axioms msteps_reachable [OF s(1) mutex0_reachable]] s(2)
  have "s_count (sysw s) 1 = 0" by simp
  with s show ?thesis by blast
qed

text \<open>
  C10. The lock is handed over. When the guard is dropped while a lock future waits (its handle
  holds the slot the operation \<open>ud\<close> reports to), the kernel can perform its read; the completion
  of that read wakes the object the future was polled with, and the next poll of the future
  returns the guard.
\<close>

theorem mutex_handoff:
  assumes "reactor_deps D" "eventfd_os X obj count" "mreachable D X obj count k s" "0 < guards s"
    and "mstep D X GuardDrop s = Inr s1"
    and "futs s (t, h) = Some (LF_Await evt waiter)" "ew_io waiter = OS_Submitted n"
    and "pend_of D (thr s t) ud = Some \<lparr>assoc_obj = a, result_slab_idx = n, kind = Oneshot\<rparr>"
    and "obj w = obj (sysw s1)" "count w = (count (sysw s1))(k := count (sysw s1) k - 1)"
    and "cqe_user_data c = ud" "0 \<le> sint (cqe_result c)"
  shows "\<exists>s2 r s3 s4. msteps D X obj count k s1 [KernelRead t ud w] s2 \<and> complete_cqe D c (thr s2 t) = Inr (a, r)
    \<and> msteps D X obj count k s2 [Completion t c] s3 \<and> msteps D X obj count k s3 [LockPoll t h waker] s4 \<and> guards s4 = 1"
  by (rule mutex_env.handoff [OF mutex_env.intro [OF assms(1,2)] assms(3-12)])

theorem mutex_handoff_witness:
  "\<exists>s s1 s2 r s3 s4. msteps ring0 sim_os s_obj s_count 1 mutex0 contention s \<and> mstep ring0 sim_os GuardDrop s = Inr s1
     \<and> msteps ring0 sim_os s_obj s_count 1 s1 [KernelRead 1 0 ((sysw s1)\<lparr>s_count := (s_count (sysw s1))(1 := 0)\<rparr>)] s2
     \<and> complete_cqe ring0 (cqe0 8 0) (thr s2 1) = Inr (9, r)
     \<and> msteps ring0 sim_os s_obj s_count 1 s2 [Completion 1 (cqe0 8 0)] s3
     \<and> msteps ring0 sim_os s_obj s_count 1 s3 [LockPoll 1 0 9] s4 \<and> guards s4 = 1"
proof -
  have "\<exists>s s1 evt waiter. msteps ring0 sim_os s_obj s_count 1 mutex0 contention s \<and> mstep ring0 sim_os GuardDrop s = Inr s1
     \<and> guards s = 1 \<and> s_count (sysw s1) 1 = 1 \<and> futs s (1, 0) = Some (LF_Await evt waiter) \<and> ew_io waiter = OS_Submitted 0
     \<and> pend_of ring0 (thr s 1) 0 = Some \<lparr>assoc_obj = 9, result_slab_idx = 0, kind = Oneshot\<rparr>"
    by (simp add: msteps_simps mutex_eval pend_of_def)
  then obtain s s1 evt waiter where s: "msteps ring0 sim_os s_obj s_count 1 mutex0 contention s"
    "mstep ring0 sim_os GuardDrop s = Inr s1" "guards s = 1" "s_count (sysw s1) 1 = 1"
    "futs s (1, 0) = Some (LF_Await evt waiter)" "ew_io waiter = OS_Submitted 0"
    "pend_of ring0 (thr s 1) 0 = Some \<lparr>assoc_obj = 9, result_slab_idx = 0, kind = Oneshot\<rparr>" by blast
  note h = mutex_handoff [OF ring0_deps simev.eventfd_os_axioms msteps_reachable [OF s(1) mutex0_reachable] _ s(2,5-7),
      of "(sysw s1)\<lparr>s_count := (s_count (sysw s1))(1 := 0)\<rparr>" "cqe0 8 0" 9]
  have "\<exists>s2 r s3 s4. msteps ring0 sim_os s_obj s_count 1 s1 [KernelRead 1 0 ((sysw s1)\<lparr>s_count := (s_count (sysw s1))(1 := 0)\<rparr>)] s2
     \<and> complete_cqe ring0 (cqe0 8 0) (thr s2 1) = Inr (9, r) \<and> msteps ring0 sim_os s_obj s_count 1 s2 [Completion 1 (cqe0 8 0)] s3
     \<and> msteps ring0 sim_os s_obj s_count 1 s3 [LockPoll 1 0 9] s4 \<and> guards s4 = 1"
    by (rule h) (simp_all add: s(3) s(4) [simplified])
  with s(1,2) show ?thesis by blast
qed

text \<open>
  C37. A cancelled \<open>lock\<close>. If a lock future is dropped after the kernel has performed its read,
  before or after the completion was processed, the mutex stays locked for ever: no guard
  exists in any later state.
\<close>

theorem mutex_cancelled_lock:
  assumes "reactor_deps D" "eventfd_os X obj count" "mreachable D X obj count k s"
    and "futs s (t, h) = Some (LF_Await evt waiter)" "ew_io waiter = OS_Submitted n"
    and "pend_of D (thr s t) ud = Some \<lparr>assoc_obj = a, result_slab_idx = n, kind = Oneshot\<rparr> \<and> reads s (t, ud) = Some True
      \<or> slab_get (one D) (get_oneshot (ri (thr s t))) n = Some (RS_Set v) \<and> 0 \<le> sint v"
    and "mstep D X (LockDrop t h) s = Inr s1" "msteps D X obj count k s1 evs s2"
  shows "guards s2 = 0"
  by (rule mutex_env.cancelled [OF mutex_env.intro [OF assms(1,2)] assms(3-8)])

theorem mutex_cancelled_lock_witness:
  "\<exists>s s1 s2. msteps ring0 sim_os s_obj s_count 1 mutex0 cancellation s \<and> mstep ring0 sim_os (LockDrop 0 0) s = Inr s1
     \<and> msteps ring0 sim_os s_obj s_count 1 s1 [Completion 0 (cqe0 8 0), LockNew 1 0, LockPoll 1 0 9] s2 \<and> guards s2 = 0"
proof -
  from cancellation_run obtain s s1 s2 evt waiter where s: "msteps ring0 sim_os s_obj s_count 1 mutex0 cancellation s"
    "futs s (0, 0) = Some (LF_Await evt waiter)" "ew_io waiter = OS_Submitted 0" "reads s (0, 0) = Some True"
    "pend_of ring0 (thr s 0) 0 = Some \<lparr>assoc_obj = 7, result_slab_idx = 0, kind = Oneshot\<rparr>"
    "mstep ring0 sim_os (LockDrop 0 0) s = Inr s1"
    "msteps ring0 sim_os s_obj s_count 1 s1 [Completion 0 (cqe0 8 0), LockNew 1 0, LockPoll 1 0 9] s2" by blast
  note c = mutex_cancelled_lock [OF ring0_deps simev.eventfd_os_axioms msteps_reachable [OF s(1) mutex0_reachable] s(2,3) _ s(6,7)]
  have "guards s2 = 0" by (rule c [of 0 7]) (simp add: s(4,5))
  with s(1,6,7) show ?thesis by blast
qed

end
