(* ===== verification/MutexSpec.thy ===== *)
theory MutexSpec
  imports MutexProps
begin

text \<open>
  The mutex implements a lock: an atomic object with a value, which is acquired only when it
  is free, released by its holder, and whose value only the holder changes.
\<close>

datatype 'v lock_op = Acquire | Release | Use "'v \<Rightarrow> 'v"

inductive lock_step :: "bool \<times> 'v \<Rightarrow> 'v lock_op \<Rightarrow> bool \<times> 'v \<Rightarrow> bool" where
  acquire: "lock_step (False, v) Acquire (True, v)"
| release: "lock_step (True, v) Release (False, v)"
| use_value: "lock_step (True, v) (Use f) (True, f v)"

inductive lock_run :: "bool \<times> 'v \<Rightarrow> 'v lock_op list \<Rightarrow> bool \<times> 'v \<Rightarrow> bool" where
  lock_run_nil: "lock_run a [] a"
| lock_run_cons: "lock_step a op b \<Longrightarrow> lock_run b ops c \<Longrightarrow> lock_run a (op # ops) c"

inductive_simps lock_step_simps: "lock_step a Acquire b" "lock_step a Release b" "lock_step a (Use f) b"
inductive_simps lock_run_simps: "lock_run a [] b" "lock_run a (op # ops) b"

lemma lock_run_append: "lock_run a ops b \<Longrightarrow> lock_run b ops' c \<Longrightarrow> lock_run a (ops @ ops') c"
  by (induction rule: lock_run.induct) (auto intro: lock_run_cons)

text \<open>
  The lock a mutex stands for, and the operation on it that an event performs: a poll acquires
  it if it returns a guard, all events but these three leave it alone.
\<close>

definition the_lock :: "('u, 'ps, 'os, 'ms, 'w, 'v) msys \<Rightarrow> bool \<times> 'v" where
  "the_lock s = (0 < guards s, guard_deref (mtx s))"

fun observe :: "('u, 't, 'w, 'v) mevent \<Rightarrow> ('u, 'ps, 'os, 'ms, 'w, 'v) msys \<Rightarrow> ('u, 'ps, 'os, 'ms, 'w, 'v) msys \<Rightarrow> 'v lock_op list" where
  "observe (LockPoll t h waker) s s' = (if guards s < guards s' then [Acquire] else [])"
| "observe (GuardUse f) s s' = [Use f]"
| "observe GuardDrop s s' = [Release]"
| "observe _ s s' = []"

inductive mtrace :: "('u, 'ps, 'os, 'ms, 'rb, 't) deps \<Rightarrow> 'w os_api \<Rightarrow> ('w \<Rightarrow> i32 \<rightharpoonup> nat) \<Rightarrow> ('w \<Rightarrow> nat \<Rightarrow> nat) \<Rightarrow>
    nat \<Rightarrow> ('u, 'ps, 'os, 'ms, 'w, 'v) msys \<Rightarrow> ('u, 't, 'w, 'v) mevent list \<Rightarrow> 'v lock_op list \<Rightarrow> ('u, 'ps, 'os, 'ms, 'w, 'v) msys \<Rightarrow> bool"
  for D X obj count k where
  mtrace_nil: "mtrace D X obj count k s [] [] s"
| mtrace_cons: "mallowed obj count k ev s \<Longrightarrow> mstep D X ev s = Inr s' \<Longrightarrow> mtrace D X obj count k s' evs ops s'' \<Longrightarrow>
    mtrace D X obj count k s (ev # evs) (observe ev s s' @ ops) s''"

context mutex_env
begin

lemma step_simulates:
  assumes reach: "mreachable D X obj count k s" and al: "mallowed obj count k ev s" and step: "mstep D X ev s = Inr s'"
  shows "lock_run (the_lock s) (observe ev s s') (the_lock s')"
proof -
  have g: "guards s \<le> 1" "guards s' \<le> 1"
    using one_guard [OF reach] one_guard [OF mnext [OF reach al step]] by simp_all
  show ?thesis
  proof (cases ev)
    case (LockPoll t h waker)
    with step g show ?thesis
      by (auto simp: the_lock_def rbind_eq_Inr Let_def lock_run_simps lock_step_simps split: option.splits if_splits)
  qed (use al step g in \<open>auto simp: the_lock_def guard_deref_def guard_deref_mut_def rbind_eq_Inr lock_run_simps lock_step_simps
    split: option.splits\<close>)
qed

lemma trace_simulates:
  "mtrace D X obj count k s evs ops s' \<Longrightarrow> mreachable D X obj count k s \<Longrightarrow> lock_run (the_lock s) ops (the_lock s')"
proof (induction rule: mtrace.induct)
  case (mtrace_cons ev s s' evs ops s'')
  from mtrace_cons.IH [OF mnext [OF mtrace_cons.prems mtrace_cons.hyps(1,2)]]
  show ?case by (rule lock_run_append [OF step_simulates [OF mtrace_cons.prems mtrace_cons.hyps(1,2)]])
qed (simp add: lock_run_simps)

end

text \<open>
  The mutex refines the lock: over every interleaving of its users on any number of threads,
  the guards that are returned, used and dropped are a run of the lock. It is acquired only
  while it is free, which is mutual exclusion again; that a guard is used and dropped only while
  there is one is a condition of the events.
\<close>

lemma mutex_refines_lock:
  assumes "reactor_deps D" "eventfd_os X obj count" "mreachable D X obj count k s" "mtrace D X obj count k s evs ops s'"
  shows "lock_run (0 < guards s, guard_deref (mtx s)) ops (0 < guards s', guard_deref (mtx s'))"
  using mutex_env.trace_simulates [OF mutex_env.intro [OF assms(1,2)] assms(4,3)] by (simp add: the_lock_def)

abbreviation lock_and_set :: "(script_ring, nat, sim, nat) mevent list" where
  "lock_and_set \<equiv> [LockNew 0 0, LockPoll 0 0 7, KernelRead 0 0 (taken\<lparr>s_next := 5, s_tab := [(4, 1), (3, 1)], s_count := \<lambda>_. 0\<rparr>),
     Completion 0 (cqe0 8 0), LockPoll 0 0 7, GuardUse Suc, GuardDrop]"

inductive_simps mtrace_simps: "mtrace D X obj count k s [] ops s'" "mtrace D X obj count k s (ev # evs) ops s'"

lemma lock_and_set_run: "\<exists>s. mtrace ring0 sim_os s_obj s_count 1 mutex0 lock_and_set [Acquire, Use Suc, Release] s \<and> mtx_obj (mtx s) = 43 \<and> guards s = 0"
  by (simp add: mtrace_simps mutex_eval guard_deref_mut_def)

lemma mutex_refines_lock_instance:
  "\<exists>s. mtrace ring0 sim_os s_obj s_count 1 mutex0 lock_and_set [Acquire, Use Suc, Release] s
     \<and> lock_run (False, 42) [Acquire, Use Suc, Release] (False, 43)"
proof -
  from lock_and_set_run obtain s where s: "mtrace ring0 sim_os s_obj s_count 1 mutex0 lock_and_set [Acquire, Use Suc, Release] s"
    "mtx_obj (mtx s) = 43" "guards s = 0" by blast
  from mutex_refines_lock [OF ring0_deps simev.eventfd_os_axioms mutex0_reachable s(1)] s show ?thesis
    by (auto simp: guard_deref_def)
qed

end
