(* ===== verification/HttpText.thy ===== *)
theory HttpText
  imports Prelude SockAddr
begin

text \<open>
  The parts of the standard library's strings and paths that \<open>src/examples/web_server.rs\<close> uses.
  A \<open>String\<close> is its UTF-8 bytes, a \<open>PathBuf\<close> the bytes of its \<open>OsString\<close>.
\<close>

subsection \<open>Strings\<close>

definition bytes :: "string \<Rightarrow> u8 list" where
  "bytes s = map of_char s"

text \<open>\<open>str::from_utf8\<close>: well-formed sequences of one to four bytes, without surrogates and
  overlong forms.\<close>

abbreviation (input) cont :: "u8 \<Rightarrow> bool" where
  "cont b \<equiv> 0x80 \<le> b \<and> b \<le> 0xBF"

fun utf8_char :: "u8 list \<Rightarrow> nat option" where
  "utf8_char [] = None"
| "utf8_char (a # bs) =
     (if a < 0x80 then Some 1
      else case bs of
        [] \<Rightarrow> None
      | b # cs \<Rightarrow>
          if 0xC2 \<le> a \<and> a \<le> 0xDF then (if cont b then Some 2 else None)
          else case cs of
            [] \<Rightarrow> None
          | c # ds \<Rightarrow>
              if 0xE0 \<le> a \<and> a \<le> 0xEF
              then (if (if a = 0xE0 then 0xA0 \<le> b \<and> b \<le> 0xBF else if a = 0xED then 0x80 \<le> b \<and> b \<le> 0x9F else cont b) \<and> cont c
                    then Some 3 else None)
              else case ds of
                [] \<Rightarrow> None
              | d # _ \<Rightarrow>
                  if 0xF0 \<le> a \<and> a \<le> 0xF4
                    \<and> (if a = 0xF0 then 0x90 \<le> b \<and> b \<le> 0xBF else if a = 0xF4 then 0x80 \<le> b \<and> b \<le> 0x8F else cont b)
                    \<and> cont c \<and> cont d
                  then Some 4 else None)"

lemma utf8_char_pos: "utf8_char bs = Some n \<Longrightarrow> 0 < n \<and> n \<le> length bs"
  by (cases bs rule: utf8_char.cases) (auto split: if_splits list.splits)

function utf8 :: "u8 list \<Rightarrow> bool" where
  "utf8 bs \<longleftrightarrow> bs = [] \<or> (case utf8_char bs of None \<Rightarrow> False | Some n \<Rightarrow> utf8 (drop n bs))"
  by auto
termination by (relation "measure length") (auto dest: utf8_char_pos)

declare utf8.simps [simp del]

definition from_utf8 :: "u8 list \<Rightarrow> u8 list option" where
  "from_utf8 bs = (if utf8 bs then Some bs else None)"

text \<open>\<open>str::contains\<close>, \<open>split\<close> at one character, and \<open>trim\<close>, which removes the characters with the
  Unicode property \<open>White_Space\<close> at both ends.\<close>

fun contains_sub :: "u8 list \<Rightarrow> u8 list \<Rightarrow> bool" where
  "contains_sub pat [] \<longleftrightarrow> pat = []"
| "contains_sub pat (b # bs) \<longleftrightarrow> take (length pat) (b # bs) = pat \<or> contains_sub pat bs"

fun split_on :: "u8 \<Rightarrow> u8 list \<Rightarrow> u8 list list" where
  "split_on x [] = [[]]"
| "split_on x (b # bs) = (if b = x then [] # split_on x bs
     else case split_on x bs of [] \<Rightarrow> [[b]] | p # ps \<Rightarrow> (b # p) # ps)"

definition white_space :: "u8 list list" where
  "white_space = [[9], [10], [11], [12], [13], [32], [0xC2, 0x85], [0xC2, 0xA0], [0xE1, 0x9A, 0x80],
     [0xE2, 0x80, 0x80], [0xE2, 0x80, 0x81], [0xE2, 0x80, 0x82], [0xE2, 0x80, 0x83], [0xE2, 0x80, 0x84],
     [0xE2, 0x80, 0x85], [0xE2, 0x80, 0x86], [0xE2, 0x80, 0x87], [0xE2, 0x80, 0x88], [0xE2, 0x80, 0x89],
     [0xE2, 0x80, 0x8A], [0xE2, 0x80, 0xA8], [0xE2, 0x80, 0xA9], [0xE2, 0x80, 0xAF], [0xE2, 0x81, 0x9F],
     [0xE3, 0x80, 0x80]]"

fun drop_any :: "u8 list list \<Rightarrow> nat \<Rightarrow> u8 list \<Rightarrow> u8 list" where
  "drop_any ws 0 bs = bs"
| "drop_any ws (Suc n) bs = (case List.find (\<lambda>w. take (length w) bs = w) ws of
     None \<Rightarrow> bs | Some w \<Rightarrow> drop_any ws n (drop (length w) bs))"

definition trim_start :: "u8 list \<Rightarrow> u8 list" where
  "trim_start bs = drop_any white_space (length bs) bs"

definition trim_end :: "u8 list \<Rightarrow> u8 list" where
  "trim_end bs = rev (drop_any (map rev white_space) (length bs) (rev bs))"

definition trim :: "u8 list \<Rightarrow> u8 list" where
  "trim bs = trim_end (trim_start bs)"

text \<open>
  \<open>s.to_lowercase() == "get"\<close>. No character outside ASCII has a lower-case form that contains
  one of the letters of \<open>get\<close>, so that mapping the ASCII letters decides it.
\<close>

definition ascii_lower :: "u8 \<Rightarrow> u8" where
  "ascii_lower b = (if 65 \<le> b \<and> b \<le> 90 then b + 32 else b)"

definition lowercase_is :: "string \<Rightarrow> u8 list \<Rightarrow> bool" where
  "lowercase_is s bs \<longleftrightarrow> map ascii_lower bs = bytes s"

text \<open>Decimal numbers, as \<open>format!\<close> prints unsigned integers.\<close>

fun decimal :: "nat \<Rightarrow> u8 list" where
  "decimal n = (if n < 10 then [48 + of_nat n] else decimal (n div 10) @ [48 + of_nat (n mod 10)])"

declare decimal.simps [simp del]

subsection \<open>Paths\<close>

text \<open>
  The components of a path: the root, if the path starts with a separator, and the pieces
  between separators, except the empty ones and \<open>.\<close>, of which only a leading one of a relative
  path counts.
\<close>

datatype Component = RootDir | CurDir | ParentDir | Normal "u8 list"

abbreviation (input) SEP :: u8 where "SEP \<equiv> 47"
abbreviation (input) DOT :: u8 where "DOT \<equiv> 46"

definition body_component :: "u8 list \<Rightarrow> Component option" where
  "body_component c = (if c = [] \<or> c = [DOT] then None else if c = [DOT, DOT] then Some ParentDir else Some (Normal c))"

definition body :: "u8 list \<Rightarrow> Component list" where
  "body p = List.map_filter body_component (split_on SEP p)"

definition path_start :: "u8 list \<Rightarrow> Component list" where
  "path_start p = (if p \<noteq> [] \<and> hd p = SEP then [RootDir] else if hd (split_on SEP p) = [DOT] then [CurDir] else [])"

definition components :: "u8 list \<Rightarrow> Component list" where
  "components p = path_start p @ body p"

text \<open>
  \<open>Path::strip_prefix("/")\<close>: what is left after the root, without the pieces at either end that
  are no components. \<open>PathBuf::join\<close> of a relative path; an absolute one replaces the base.
\<close>

function trim_left :: "u8 list \<Rightarrow> u8 list" where
  "trim_left p = (let c = takeWhile (\<lambda>b. b \<noteq> SEP) p
     in if p = [] \<or> body_component c \<noteq> None then p else trim_left (drop (Suc (length c)) p))"
  by auto
termination by (relation "measure length") auto

declare trim_left.simps [simp del]

definition trim_right :: "u8 list \<Rightarrow> u8 list" where
  "trim_right p = rev (trim_left (rev p))"

definition strip_root :: "u8 list \<Rightarrow> u8 list option" where
  "strip_root p = (case p of
     [] \<Rightarrow> None
   | b # bs \<Rightarrow> if b = SEP then Some (trim_right (trim_left bs)) else None)"

definition path_join :: "u8 list \<Rightarrow> u8 list \<Rightarrow> u8 list" where
  "path_join base p = (if p \<noteq> [] \<and> hd p = SEP then p
     else base @ (if base = [] \<or> last base = SEP then [] else [SEP]) @ p)"

subsection \<open>Lemmas on strings\<close>

lemma utf8_Nil [simp]: "utf8 []"
  by (simp add: utf8.simps)

lemma utf8_char_append: "utf8_char a = Some n \<Longrightarrow> utf8_char (a @ b) = Some n"
  by (cases a rule: utf8_char.cases) (auto split: if_splits list.splits)

lemma utf8_append: "utf8 a \<Longrightarrow> utf8 b \<Longrightarrow> utf8 (a @ b)"
proof (induction a rule: utf8.induct)
  case (1 a)
  show ?case
  proof (cases "a = []")
    case False
    with 1 obtain n where n: "utf8_char a = Some n" "utf8 (drop n a)"
      by (subst (asm) (2) utf8.simps) (auto split: option.splits)
    with 1 False have "utf8 (drop n a @ b)" by simp
    moreover have "drop n (a @ b) = drop n a @ b" using utf8_char_pos [OF n(1)] by simp
    ultimately show ?thesis using utf8_char_append [OF n(1), of b] by (subst utf8.simps) simp
  qed (use 1 in simp)
qed

lemma contains_append: "contains_sub pat a \<Longrightarrow> contains_sub pat (a @ b)"
proof (induction a)
  case Nil
  then show ?case by (cases b) auto
next
  case (Cons x a)
  have "take (length pat) (x # a @ b) = pat" if "take (length pat) (x # a) = pat"
  proof -
    have "length pat \<le> length (x # a)" using arg_cong [OF that, of length] by simp
    then have "take (length pat) ((x # a) @ b) = take (length pat) (x # a)" by (simp only: take_append) simp
    with that show ?thesis by simp
  qed
  with Cons show ?case by auto
qed

lemma split_on_ne [simp]: "split_on x bs \<noteq> []"
  by (induction bs) (auto split: list.splits)

lemma split_on_append: "split_on x (a @ x # b) = split_on x a @ split_on x b"
  by (induction a) (auto split: list.splits)

lemma split_on_single: "x \<notin> set c \<Longrightarrow> split_on x c = [c]"
  by (induction c) auto

lemma hd_split_on: "hd (split_on x bs) = takeWhile (\<lambda>b. b \<noteq> x) bs"
  by (induction bs) (auto split: list.splits)

lemma split_on_snoc:
  "split_on x (q @ [b]) = (if b = x then split_on x q @ [[]] else butlast (split_on x q) @ [last (split_on x q) @ [b]])"
  by (induction q) (auto split: list.splits)

lemma split_on_rev: "split_on x (rev p) = rev (map rev (split_on x p))"
  by (induction p) (auto simp: split_on_snoc butlast_rev last_rev hd_map split: list.splits)

subsection \<open>Lemmas on paths\<close>

lemma body_Nil [simp]: "body [] = []"
  by (simp add: body_def body_component_def map_filter_simps)

lemma body_append: "body (a @ SEP # b) = body a @ body b"
  by (simp add: body_def split_on_append List.map_filter_def)

lemma body_piece: "SEP \<notin> set c \<Longrightarrow> body c = (case body_component c of None \<Rightarrow> [] | Some x \<Rightarrow> [x])"
  by (simp add: body_def split_on_single List.map_filter_def split: option.splits)

fun flip :: "Component \<Rightarrow> Component" where
  "flip (Normal c) = Normal (rev c)"
| "flip c = c"

lemma body_component_rev: "body_component (rev c) = map_option flip (body_component c)"
  by (auto simp: body_component_def rev_swap [symmetric])

lemma body_rev: "body (rev p) = rev (map flip (body p))"
  by (simp add: body_def split_on_rev List.map_filter_def rev_map rev_filter filter_map o_def body_component_rev)
     (auto intro!: map_cong)

lemma body_no_root: "RootDir \<notin> set (body p)"
  by (auto simp: body_def List.map_filter_def body_component_def split: if_splits)

text \<open>The separator or the end after the first piece.\<close>

lemma first_piece:
  obtains "takeWhile (\<lambda>b. b \<noteq> SEP) p = p" "SEP \<notin> set p"
  | rest where "p = takeWhile (\<lambda>b. b \<noteq> SEP) p @ SEP # rest" "drop (Suc (length (takeWhile (\<lambda>b. b \<noteq> SEP) p))) p = rest"
proof (cases "dropWhile (\<lambda>b. b \<noteq> SEP) p")
  case Nil
  then have "\<forall>b\<in>set p. b \<noteq> SEP" by (simp add: dropWhile_eq_Nil_conv)
  then have "takeWhile (\<lambda>b. b \<noteq> SEP) p = p" "SEP \<notin> set p" by (auto simp: takeWhile_eq_all_conv)
  then show thesis by (rule that(1))
next
  case (Cons b rest)
  then have "b = SEP" using hd_dropWhile [of "\<lambda>b. b \<noteq> SEP" p] by simp
  with Cons have p: "p = takeWhile (\<lambda>b. b \<noteq> SEP) p @ SEP # rest" by (metis takeWhile_dropWhile_id)
  moreover have "drop (Suc (length (takeWhile (\<lambda>b. b \<noteq> SEP) p))) p = rest"
    by (subst (2) p) simp
  ultimately show thesis by (rule that(2))
qed

lemma body_trim_left: "body (trim_left p) = body p"
proof (induction p rule: trim_left.induct)
  case (1 p)
  let ?c = "takeWhile (\<lambda>b. b \<noteq> SEP) p"
  show ?case
  proof (cases "p = [] \<or> body_component ?c \<noteq> None")
    case True
    then have "trim_left p = p" by (subst trim_left.simps) (simp add: Let_def)
    then show ?thesis by simp
  next
    case False
    then have "trim_left p = trim_left (drop (Suc (length ?c)) p)" by (subst trim_left.simps) (simp add: Let_def)
    moreover have "body p = body (drop (Suc (length ?c)) p)"
    proof (cases rule: first_piece [of p])
      case whole: 1
      have "body_component p = None" using False unfolding whole(1) by simp
      then have "body p = []" using body_piece [OF whole(2)] by simp
      then show ?thesis unfolding whole(1) by simp
    next
      case (2 rest)
      have "SEP \<notin> set ?c" by (auto dest: set_takeWhileD)
      then have "body ?c = []" using False body_piece [of ?c] by simp
      then have "body (?c @ SEP # rest) = body rest" by (simp add: body_append)
      with 2 show ?thesis by simp
    qed
    ultimately show ?thesis using 1 False by simp
  qed
qed

lemma body_trim_right: "body (trim_right p) = body p"
proof -
  have "body (trim_right p) = rev (map flip (body (rev p)))"
    unfolding trim_right_def by (simp only: body_rev [of "trim_left (rev p)"] body_trim_left)
  also have "\<dots> = body p" using body_rev [of "rev p"] by simp
  finally show ?thesis .
qed

lemma trim_left_hd: "trim_left p = [] \<or> hd (trim_left p) \<noteq> SEP"
proof (induction p rule: trim_left.induct)
  case (1 p)
  show ?case
  proof (cases "p = [] \<or> body_component (takeWhile (\<lambda>b. b \<noteq> SEP) p) \<noteq> None")
    case True
    then have "trim_left p = p" by (subst trim_left.simps) (simp add: Let_def)
    moreover have "p \<noteq> [] \<Longrightarrow> hd p \<noteq> SEP" using True by (cases p) (auto simp: body_component_def)
    ultimately show ?thesis by auto
  next
    case False
    then show ?thesis using 1 by (subst (1 2) trim_left.simps) (simp add: Let_def)
  qed
qed

lemma trim_left_suffix: "\<exists>a. p = a @ trim_left p"
proof (induction p rule: trim_left.induct)
  case (1 p)
  show ?case
  proof (cases "p = [] \<or> body_component (takeWhile (\<lambda>b. b \<noteq> SEP) p) \<noteq> None")
    case False
    let ?q = "drop (Suc (length (takeWhile (\<lambda>b. b \<noteq> SEP) p))) p"
    have "trim_left p = trim_left ?q" using False by (subst trim_left.simps) (simp add: Let_def)
    moreover obtain a where "?q = a @ trim_left ?q" using 1 False by auto
    ultimately have "p = (take (Suc (length (takeWhile (\<lambda>b. b \<noteq> SEP) p))) p @ a) @ trim_left p"
      by (metis append.assoc append_take_drop_id)
    then show ?thesis by blast
  qed (subst trim_left.simps, simp add: Let_def)
qed

lemma trim_right_prefix: "\<exists>a. p = trim_right p @ a"
  using trim_left_suffix [of "rev p"] by (metis rev_append rev_swap trim_right_def)

lemma strip_root_relative:
  assumes "strip_root p = Some q"
  shows "q = [] \<or> hd q \<noteq> SEP" "body q = body p" "p \<noteq> [] \<and> hd p = SEP"
proof -
  from assms obtain bs where p: "p = SEP # bs" and q: "q = trim_right (trim_left bs)"
    by (auto simp: strip_root_def split: list.splits if_splits)
  obtain a where "trim_left bs = q @ a" using trim_right_prefix [of "trim_left bs"] q by blast
  with trim_left_hd [of bs] show "q = [] \<or> hd q \<noteq> SEP" by (cases q) auto
  show "body q = body p" using body_append [of "[]" bs] by (simp add: p q body_trim_right body_trim_left)
  show "p \<noteq> [] \<and> hd p = SEP" by (simp add: p)
qed

lemma path_start_append: "p \<noteq> [] \<Longrightarrow> path_start (p @ SEP # q) = path_start p"
proof -
  have "takeWhile (\<lambda>b. b \<noteq> SEP) (p @ SEP # q) = takeWhile (\<lambda>b. b \<noteq> SEP) p" by (induction p) auto
  then show "p \<noteq> [] \<Longrightarrow> path_start (p @ SEP # q) = path_start p" by (simp add: path_start_def hd_split_on)
qed

lemma components_join:
  assumes "base \<noteq> []" "q = [] \<or> hd q \<noteq> SEP"
  shows "components (path_join base q) = components base @ body q"
proof (cases "last base = SEP")
  case True
  then obtain b where b: "base = b @ [SEP]" using assms(1) by (metis append_butlast_last_id)
  then have "path_join base q = b @ SEP # q" using assms True by (auto simp: path_join_def)
  moreover have "body base = body b" using body_append [of b "[]"] by (simp add: b)
  moreover have "path_start (b @ SEP # q) = path_start base"
    using path_start_append [of b q] path_start_append [of b "[]"] by (cases "b = []") (simp_all add: b path_start_def)
  ultimately show ?thesis by (simp add: components_def body_append)
next
  case False
  then have "path_join base q = base @ SEP # q" using assms by (auto simp: path_join_def)
  then show ?thesis using path_start_append [OF assms(1), of q] by (simp add: components_def body_append)
qed

end
