(* ===== verification/Tcp.thy ===== *)
theory Tcp
  imports ReadWrite SimOs
begin

text \<open>
  TCP sockets, \<open>src/src/futures/tcp.rs\<close>: \<open>TcpListener::bind\<close> and the stream of accepted
  connections, \<open>TcpStream::connect\<close> as the state machine of its \<open>async fn\<close>, and reading and
  writing. The addresses a \<open>ToSocketAddrs\<close> argument resolves to are given as a value.
\<close>

record TcpListener =
  tl_inner :: i32
  tl_io :: MultishotIoState

record TcpStream =
  ts_inner :: i32

definition mk_sock :: "'w os_api \<Rightarrow> SocketAddr \<Rightarrow> 'w \<Rightarrow> i32 io_result \<times> 'w" where
  "mk_sock X a w =
     (let family = (if is_ipv4 a then AF_INET else AF_INET6);
          (sock, w1) = sys_socket X family SOCK_STREAM 0 w
      in if sock = - 1 then (Inl (last_os_error X w1), w1) else (Inr sock, w1))"

subsection \<open>TcpListener\<close>

fun bind_loop :: "'w os_api \<Rightarrow> SocketAddr list \<Rightarrow> io_error \<Rightarrow> 'w \<Rightarrow> (TcpListener io_result \<times> 'w) rs" where
  "bind_loop X [] last_err w = Inr (Inl last_err, w)"
| "bind_loop X (a # addrs) last_err w = (case mk_sock X a w of
     (Inl e, w1) \<Rightarrow> Inr (Inl e, w1)
   | (Inr sock, w1) \<Rightarrow>
       (let caddr = csock_from (little_endian X) a;
            (b, w2) = sys_bind X sock (addr caddr) (usize_as_u32 (len caddr)) w1
        in if b = - 1 then bind_loop X addrs (last_os_error X w2) (sys_close X sock w2)
           else (let (l, w3) = sys_listen X sock 1024 w2
                 in if l = - 1 then bind_loop X addrs (last_os_error X w3) (sys_close X sock w3)
                    else if l = 0 then Inr (Inr \<lparr>tl_inner = sock, tl_io = multishot_io_new\<rparr>, w3)
                    else Inl (PanicMsg ''listen() cannot return a value other than 0 or -1''))))"

definition tcp_bind :: "'w os_api \<Rightarrow> SocketAddr list io_result \<Rightarrow> 'w \<Rightarrow> (TcpListener io_result \<times> 'w) rs" where
  "tcp_bind X addrs w = (case addrs of
     Inl e \<Rightarrow> Inr (Inl e, w)
   | Inr as \<Rightarrow> bind_loop X as (SimpleError NotFound) w)"

definition accept_entry :: "TcpListener \<Rightarrow> Entry" where
  "accept_entry this = build (Op_AcceptMulti (tl_inner this))"

definition listener_poll_next ::
    "('u, 'ps, 'os, 'ms, 'rb, 't) deps \<Rightarrow> 't \<Rightarrow> TcpListener \<Rightarrow> ('u, 'ps, 'os, 'ms) inner \<Rightarrow>
     (TcpStream io_result option Poll \<times> TcpListener \<times> ('u, 'ps, 'os, 'ms) inner) rs" where
  "listener_poll_next D waker this i =
     rbind (multishot_submit_or_get_result D (\<lambda>this. Inr ((accept_entry this, waker), this)) (tl_io this) i this)
       (\<lambda>(x, io', i', this').
     Inr (map_poll (map_option (map_io (\<lambda>fd. \<lparr>ts_inner = fd\<rparr>))) x, this'\<lparr>tl_io := io'\<rparr>, i'))"

text \<open>Dropping a listener closes its socket and drops its handle.\<close>

definition listener_drop :: "('u, 'ps, 'os, 'ms, 'rb, 't) deps \<Rightarrow> 'w os_api \<Rightarrow> TcpListener \<Rightarrow>
    ('u, 'ps, 'os, 'ms) inner \<Rightarrow> 'w \<Rightarrow> (('u, 'ps, 'os, 'ms) inner \<times> 'w) rs" where
  "listener_drop D X this i w =
     (let w1 = sys_close X (tl_inner this) w
      in rbind (multishot_io_drop D (tl_io this) i) (\<lambda>i1. Inr (i1, w1)))"

subsection \<open>TcpStream\<close>

record SockConnect =
  sc_fd :: i32
  sc_io :: OneshotIoState
  sc_addr :: SocketAddr

text \<open>The C form of the address is a local variable of \<open>poll\<close>, and the entry points to it.\<close>

definition connect_entry :: "bool \<Rightarrow> SockConnect \<Rightarrow> Entry" where
  "connect_entry le this = (let caddr = csock_from le (sc_addr this)
     in build (Op_Connect (sc_fd this) (OnStack ''addr'') (usize_as_u32 (len caddr))))"

definition sock_connect_poll ::
    "('u, 'ps, 'os, 'ms, 'rb, 't) deps \<Rightarrow> bool \<Rightarrow> ('u, 'ps, 'os, 'ms, 't, SockConnect, unit io_result) fpoll" where
  "sock_connect_poll D le waker this i =
     (let entry = connect_entry le this
      in rbind (oneshot_submit_or_get_result D (\<lambda>this. Inr ((entry, waker), this)) (sc_io this) i this)
           (\<lambda>(x, io', i', this'). Inr (map_poll (map_io (\<lambda>_. ())) x, this'\<lparr>sc_io := io'\<rparr>, i')))"

text \<open>
  The states of \<open>connect\<close>: not started; awaiting the connection of \<open>sock\<close> with the addresses
  that are left and \<open>last_err\<close>; finished.
\<close>

datatype ConnectFut =
    CF_Start "SocketAddr list io_result"
  | CF_Await i32 SockConnect "SocketAddr list" io_error
  | CF_Done

type_synonym ('u, 'ps, 'os, 'ms, 'w) connect_out =
  "(TcpStream io_result Poll \<times> ConnectFut \<times> ('u, 'ps, 'os, 'ms) inner \<times> 'w) rs"

definition connect_await ::
    "('u, 'ps, 'os, 'ms, 'rb, 't) deps \<Rightarrow> 'w os_api \<Rightarrow> 't \<Rightarrow> i32 \<Rightarrow> SockConnect \<Rightarrow> SocketAddr list \<Rightarrow> io_error \<Rightarrow>
     (io_error \<Rightarrow> ('u, 'ps, 'os, 'ms) inner \<Rightarrow> 'w \<Rightarrow> ('u, 'ps, 'os, 'ms, 'w) connect_out) \<Rightarrow>
     ('u, 'ps, 'os, 'ms) inner \<Rightarrow> 'w \<Rightarrow> ('u, 'ps, 'os, 'ms, 'w) connect_out" where
  "connect_await D X waker sock conn rest last_err next_addr i w =
     rbind (sock_connect_poll D (little_endian X) waker conn i) (\<lambda>(p, conn', i1).
     case p of
       Poll_Pending \<Rightarrow> Inr (Poll_Pending, CF_Await sock conn' rest last_err, i1, w)
     | Poll_Ready (Inr _) \<Rightarrow>
         rbind (oneshot_io_drop D (sc_io conn') i1) (\<lambda>i2.
         Inr (Poll_Ready (Inr \<lparr>ts_inner = sock\<rparr>), CF_Done, i2, w))
     | Poll_Ready (Inl e) \<Rightarrow>
         rbind (oneshot_io_drop D (sc_io conn') i1) (\<lambda>i2. next_addr e i2 (sys_close X sock w)))"

fun connect_loop ::
    "('u, 'ps, 'os, 'ms, 'rb, 't) deps \<Rightarrow> 'w os_api \<Rightarrow> 't \<Rightarrow> SocketAddr list \<Rightarrow> io_error \<Rightarrow>
     ('u, 'ps, 'os, 'ms) inner \<Rightarrow> 'w \<Rightarrow> ('u, 'ps, 'os, 'ms, 'w) connect_out" where
  "connect_loop D X waker [] last_err i w = Inr (Poll_Ready (Inl last_err), CF_Done, i, w)"
| "connect_loop D X waker (a # addrs) last_err i w = (case mk_sock X a w of
     (Inl e, w1) \<Rightarrow> Inr (Poll_Ready (Inl e), CF_Done, i, w1)
   | (Inr sock, w1) \<Rightarrow>
       connect_await D X waker sock \<lparr>sc_fd = sock, sc_io = oneshot_io_new, sc_addr = a\<rparr> addrs last_err
         (\<lambda>e i' w'. connect_loop D X waker addrs e i' w') i w1)"

definition connect_poll ::
    "('u, 'ps, 'os, 'ms, 'rb, 't) deps \<Rightarrow> 'w os_api \<Rightarrow> 't \<Rightarrow> ConnectFut \<Rightarrow>
     ('u, 'ps, 'os, 'ms) inner \<Rightarrow> 'w \<Rightarrow> ('u, 'ps, 'os, 'ms, 'w) connect_out" where
  "connect_poll D X waker f i w = (case f of
     CF_Start (Inl e) \<Rightarrow> Inr (Poll_Ready (Inl e), CF_Done, i, w)
   | CF_Start (Inr addrs) \<Rightarrow> connect_loop D X waker addrs (SimpleError InvalidData) i w
   | CF_Await sock conn rest last_err \<Rightarrow>
       connect_await D X waker sock conn rest last_err
         (\<lambda>e i' w'. connect_loop D X waker rest e i' w') i w
   | CF_Done \<Rightarrow> Inl (PanicMsg ''async fn resumed after completion''))"

definition tcp_read :: "TcpStream \<Rightarrow> u8 list \<Rightarrow> AsyncReader" where
  "tcp_read self buf = \<lparr>ar_fd = ts_inner self, ar_io = oneshot_io_new, ar_buf = buf, ar_seekable = False\<rparr>"

definition tcp_write :: "TcpStream \<Rightarrow> u8 list \<Rightarrow> AsyncWriter" where
  "tcp_write self buf = \<lparr>aw_fd = ts_inner self, aw_io = oneshot_io_new, aw_buf = buf, aw_seekable = False\<rparr>"

text \<open>The entry does not depend on when it is built.\<close>

lemma sock_connect_poll_closure:
  "sock_connect_poll D le waker this i =
     rbind (oneshot_submit_or_get_result D (\<lambda>this. Inr ((connect_entry le this, waker), this)) (sc_io this) i this)
       (\<lambda>(x, io', i', this'). Inr (map_poll (map_io (\<lambda>_. ())) x, this'\<lparr>sc_io := io'\<rparr>, i'))"
  unfolding sock_connect_poll_def Let_def
  by (subst oneshot_closure_cong [where g = "\<lambda>this. Inr ((connect_entry le this, waker), this)"]) simp_all

sublocale reactor_deps \<subseteq> connector: oneshot_future D "sock_connect_poll D le" sc_io
    "\<lambda>f. Inr (connect_entry le f, f)" "\<lambda>_. map_io (\<lambda>_. ())" for le
  by (rule oneshot_futureI [where upd = "\<lambda>_ st f. f\<lparr>sc_io := st\<rparr>"]) (simp_all add: sock_connect_poll_closure)

context reactor_deps
begin

lemmas connector_delivers = connector.delivers

end

subsection \<open>Lemmas\<close>

text \<open>One attempt to listen on an address, and the run of attempts that all fail.\<close>

definition bind_fails :: "'w os_api \<Rightarrow> SocketAddr \<Rightarrow> 'w \<Rightarrow> (io_error \<times> 'w) option" where
  "bind_fails X a w = (case mk_sock X a w of
     (Inl e, w1) \<Rightarrow> None
   | (Inr sock, w1) \<Rightarrow>
       (let (b, w2) = sys_bind X sock (addr (csock_from (little_endian X) a))
              (usize_as_u32 (len (csock_from (little_endian X) a))) w1;
            (l, w3) = sys_listen X sock 1024 w2
        in if b = - 1 then Some (last_os_error X w2, sys_close X sock w2)
           else if l = - 1 then Some (last_os_error X w3, sys_close X sock w3) else None))"

fun all_fail :: "'w os_api \<Rightarrow> SocketAddr list \<Rightarrow> io_error \<Rightarrow> 'w \<Rightarrow> (io_error \<times> 'w) option" where
  "all_fail X [] e w = Some (e, w)"
| "all_fail X (a # as) e w = (case bind_fails X a w of None \<Rightarrow> None | Some (e', w') \<Rightarrow> all_fail X as e' w')"

text \<open>An attempt that succeeds with \<open>sock\<close>.\<close>

definition bind_opens :: "'w os_api \<Rightarrow> SocketAddr \<Rightarrow> 'w \<Rightarrow> i32 \<Rightarrow> 'w \<Rightarrow> bool" where
  "bind_opens X a w sock w' \<longleftrightarrow> (\<exists>w1 b w2. mk_sock X a w = (Inr sock, w1)
     \<and> sys_bind X sock (addr (csock_from (little_endian X) a))
         (usize_as_u32 (len (csock_from (little_endian X) a))) w1 = (b, w2)
     \<and> b \<noteq> - 1 \<and> sys_listen X sock 1024 w2 = (0, w'))"

text \<open>
  What \<open>bind\<close> promises for the addresses \<open>as\<close>: the first one that can be listened on, else an
  error.
\<close>

definition bind_spec :: "'w os_api \<Rightarrow> SocketAddr list \<Rightarrow> io_error \<Rightarrow> 'w \<Rightarrow> TcpListener io_result \<Rightarrow> 'w \<Rightarrow> bool" where
  "bind_spec X as e0 w res w' \<longleftrightarrow> (case res of
      Inr l \<Rightarrow> \<exists>as1 a as2 e1 w1. as = as1 @ a # as2 \<and> all_fail X as1 e0 w = Some (e1, w1)
                 \<and> bind_opens X a w1 (tl_inner l) w' \<and> tl_io l = MS_New
    | Inl e \<Rightarrow> all_fail X as e0 w = Some (e, w')
         \<or> (\<exists>as1 a as2 e1 w1. as = as1 @ a # as2 \<and> all_fail X as1 e0 w = Some (e1, w1)
              \<and> mk_sock X a w1 = (Inl e, w')))"

lemma bind_spec_here:
  "mk_sock X a w = (Inl e, w') \<Longrightarrow> bind_spec X (a # as) e0 w (Inl e) w'"
  "bind_opens X a w sock w' \<Longrightarrow> bind_spec X (a # as) e0 w (Inr \<lparr>tl_inner = sock, tl_io = MS_New\<rparr>) w'"
proof -
  have nil: "all_fail X [] e0 w = Some (e0, w)" by simp
  show "mk_sock X a w = (Inl e, w') \<Longrightarrow> bind_spec X (a # as) e0 w (Inl e) w'"
    unfolding bind_spec_def sum.case using nil by (metis append_Nil)
  show "bind_opens X a w sock w' \<Longrightarrow> bind_spec X (a # as) e0 w (Inr \<lparr>tl_inner = sock, tl_io = MS_New\<rparr>) w'"
    unfolding bind_spec_def sum.case using nil by (metis append_Nil TcpListener.select_convs)
qed

lemma bind_spec_next:
  assumes "bind_fails X a w = Some (e, w1)" "bind_spec X as e w1 res w'"
  shows "bind_spec X (a # as) e0 w res w'"
proof -
  have more: "all_fail X as1 e w1 = all_fail X (a # as1) e0 w" for as1 using assms(1) by simp
  from assms(2) show ?thesis
    unfolding bind_spec_def more by (cases res) (simp del: all_fail.simps, metis append_Cons)+
qed

lemma bind_loop_step:
  assumes "\<And>fd n w. fst (sys_listen X fd n w) \<in> {0, - 1}"
  shows "(\<exists>e w1. mk_sock X a w = (Inl e, w1) \<and> bind_loop X (a # as) last0 w = Inr (Inl e, w1))
    \<or> (\<exists>e w1. bind_fails X a w = Some (e, w1) \<and> bind_loop X (a # as) last0 w = bind_loop X as e w1)
    \<or> (\<exists>sock w1. bind_opens X a w sock w1
         \<and> bind_loop X (a # as) last0 w = Inr (Inr \<lparr>tl_inner = sock, tl_io = MS_New\<rparr>, w1))"
proof (cases "mk_sock X a w")
  case (Pair r w1)
  show ?thesis
  proof (cases r)
    case (Inr sock)
    obtain b w2 where b: "sys_bind X sock (addr (csock_from (little_endian X) a))
        (usize_as_u32 (len (csock_from (little_endian X) a))) w1 = (b, w2)" by fastforce
    obtain l w3 where l: "sys_listen X sock 1024 w2 = (l, w3)" by fastforce
    have "l = 0 \<or> l = - 1" using assms [of sock 1024 w2] l by auto
    with Pair Inr b l show ?thesis
      by (auto simp: bind_fails_def bind_opens_def multishot_io_new_def Let_def)
  qed (use Pair in simp)
qed

lemma bind_loop_result:
  assumes "\<And>fd n w. fst (sys_listen X fd n w) \<in> {0, - 1}"
  shows "\<exists>res w'. bind_loop X as e0 w = Inr (res, w') \<and> bind_spec X as e0 w res w'"
proof (induction as arbitrary: e0 w)
  case (Cons a as)
  from bind_loop_step [OF assms, of a w as e0] show ?case
  proof (elim disjE exE conjE)
    fix e w1 assume "bind_fails X a w = Some (e, w1)" "bind_loop X (a # as) e0 w = bind_loop X as e w1"
    with Cons.IH [of e w1] bind_spec_next show ?thesis by metis
  qed (use bind_spec_here in metis)+
qed (simp add: bind_spec_def)

text \<open>Several polls of a listener, one after the other.\<close>

fun listener_polls :: "('u, 'ps, 'os, 'ms, 'rb, 't) deps \<Rightarrow> 't \<Rightarrow> nat \<Rightarrow> TcpListener \<Rightarrow>
    ('u, 'ps, 'os, 'ms) inner \<Rightarrow>
    (TcpStream io_result option Poll list \<times> TcpListener \<times> ('u, 'ps, 'os, 'ms) inner) rs" where
  "listener_polls D w 0 l i = Inr ([], l, i)"
| "listener_polls D w (Suc n) l i =
     rbind (listener_poll_next D w l i) (\<lambda>(p, l1, i1).
     rbind (listener_polls D w n l1 i1) (\<lambda>(ps, l2, i2). Inr (p # ps, l2, i2)))"

abbreviation accepted :: "i32 io_result option Poll \<Rightarrow> TcpStream io_result option Poll" where
  "accepted \<equiv> map_poll (map_option (map_io (\<lambda>fd. \<lparr>ts_inner = fd\<rparr>)))"

lemma listener_poll_later:
  assumes "poll_multishot D h e ob s = Inr (p, s1)" "multis s h = Some (tl_io l)" "tl_io l \<noteq> MS_New"
  shows "listener_poll_next D w l (ri s) = Inr (accepted p, l, ri s1) \<and> multis s1 h = Some (tl_io l)"
  using assms
  by (cases "tl_io l")
     (auto simp: poll_multishot_def listener_poll_next_def multishot_submit_or_get_result_def rbind_eq_Inr)

lemma listener_polls_later:
  "poll_times D h e ob n s = Inr (ps, s1) \<Longrightarrow> multis s h = Some (tl_io l) \<Longrightarrow> tl_io l \<noteq> MS_New \<Longrightarrow>
     listener_polls D w n l (ri s) = Inr (map accepted ps, l, ri s1)"
proof (induction n arbitrary: s ps)
  case (Suc n)
  from Suc.prems(1) obtain p s' ps' where
    1: "poll_multishot D h e ob s = Inr (p, s')" "poll_times D h e ob n s' = Inr (ps', s1)" "ps = p # ps'"
    by (auto simp: rbind_eq_Inr)
  note 2 = listener_poll_later [OF 1(1) Suc.prems(2,3)]
  from Suc.IH [OF 1(2) _ Suc.prems(3)] 2 1(3) show ?case by simp
qed simp

lemma connect_await_ready:
  assumes "sock_connect_poll D (little_endian X) waker conn i = Inr (Poll_Ready r, conn', i1)"
  shows "connect_await D X waker sock conn rest e0 k i w = (case r of
     Inr _ \<Rightarrow> Inr (Poll_Ready (Inr \<lparr>ts_inner = sock\<rparr>), CF_Done, i1, w)
   | Inl e \<Rightarrow> k e i1 (sys_close X sock w))"
proof -
  from assms obtain x io' c where
    "oneshot_submit_or_get_result D (\<lambda>this. Inr ((connect_entry (little_endian X) conn, waker), this))
       (sc_io conn) i conn = Inr (x, io', i1, c)"
    "map_poll (map_io (\<lambda>_. ())) x = Poll_Ready r" "conn' = c\<lparr>sc_io := io'\<rparr>"
    by (auto simp: sock_connect_poll_def Let_def rbind_eq_Inr)
  then obtain v where "sc_io conn' = OS_Finished v"
    by (cases x) (auto dest!: oneshot_ready_finished)
  with assms show ?thesis
    by (cases r) (auto simp: connect_await_def oneshot_io_drop_def)
qed

lemma connect_loop_pending:
  assumes "connect_loop D X waker (a # rest) e0 i w = Inr (p, f, i1, w1)" "mk_sock X a w = (Inr sock, w0)"
  shows "p = Poll_Pending \<and> (\<exists>k. f = CF_Await sock \<lparr>sc_fd = sock, sc_io = OS_Submitted k, sc_addr = a\<rparr> rest e0)
    \<and> w1 = w0"
  using assms
  by (auto simp: connect_await_def rbind_eq_Inr sock_connect_poll_def oneshot_io_new_def oneshot_first)

subsection \<open>Properties\<close>

text \<open>
  C20. \<open>TcpListener::bind\<close> on the addresses \<open>addrs\<close> never panics. It succeeds with a socket
  that is bound to one of them and listening, when every address before that one got a socket
  but could not be bound or listened on, and had its socket closed. Otherwise the error is
  the one of the last address, or \<open>NotFound\<close> if there is none, when all failed in that way,
  or the error of the first address that got no socket at all.
\<close>

theorem tcp_bind_result:
  assumes "\<And>fd n w. fst (sys_listen X fd n w) \<in> {0, - 1}"
  shows "\<exists>res w'. tcp_bind X (Inr addrs) w = Inr (res, w')
    \<and> bind_spec X addrs (SimpleError NotFound) w res w'"
  using bind_loop_result [OF assms, of addrs "SimpleError NotFound" w] by (simp add: tcp_bind_def)

theorem tcp_bind_result_witness:
  "\<exists>l w'. tcp_bind sim_os (Inr [V4 1 80]) sim0 = Inr (Inr l, w') \<and> tl_inner l = 3
     \<and> bind_spec sim_os [V4 1 80] (SimpleError NotFound) sim0 (Inr l) w'"
proof -
  have "fst (sys_listen sim_os fd n w) \<in> {0, - 1}" for fd n w by (simp add: sim_eval)
  note spec = tcp_bind_result [OF this, of "[V4 1 80]" sim0]
  obtain l w' where run: "tcp_bind sim_os (Inr [V4 1 80]) sim0 = Inr (Inr l, w')" "tl_inner l = 3"
    by (simp add: tcp_bind_def mk_sock_def sim_eval Let_def)
  from spec [unfolded run(1)] run show ?thesis by (elim exE conjE) auto
qed

text \<open>
  An address for which the system has no socket ends the search, in \<open>bind\<close> and in
  \<open>connect\<close>, also when a later address would have succeeded.
\<close>

lemma no_socket_aborts:
  assumes "mk_sock X a w = (Inl e, w1)"
  shows "tcp_bind X (Inr (a # addrs)) w = Inr (Inl e, w1)
    \<and> connect_poll D X waker (CF_Start (Inr (a # addrs))) i w = Inr (Poll_Ready (Inl e), CF_Done, i, w1)"
  using assms by (simp add: tcp_bind_def connect_poll_def)

lemma no_socket_aborts_instance:
  "\<exists>w1 w2 l. tcp_bind sim_os (Inr [V6 1 80 0 0, V4 1 80]) (sim0\<lparr>s_noinet6 := True\<rparr>) = Inr (Inl (OsError 97), w1)
     \<and> tcp_bind sim_os (Inr [V4 1 80]) (sim0\<lparr>s_noinet6 := True\<rparr>) = Inr (Inr l, w2)"
proof -
  obtain w1 where "mk_sock sim_os (V6 1 80 0 0) (sim0\<lparr>s_noinet6 := True\<rparr>) = (Inl (OsError 97), w1)"
    by (simp add: mk_sock_def sim_eval)
  from conjunct1 [OF no_socket_aborts [OF this, of "[V4 1 80]" ring0 7 "ri fresh"]]
  have "\<exists>w1. tcp_bind sim_os (Inr [V6 1 80 0 0, V4 1 80]) (sim0\<lparr>s_noinet6 := True\<rparr>) = Inr (Inl (OsError 97), w1)"
    by blast
  moreover have "\<exists>l w2. tcp_bind sim_os (Inr [V4 1 80]) (sim0\<lparr>s_noinet6 := True\<rparr>) = Inr (Inr l, w2)"
    by (simp add: tcp_bind_def mk_sock_def sim_eval Let_def)
  ultimately show ?thesis by blast
qed

text \<open>
  A listener delivers: when completions arrive for its accept operation, polls of the
  listener return the connections on the descriptors they carried, or their errors, in the
  order of arrival, as long as no more than 1024 are waiting.
\<close>

lemma listener_accepts:
  assumes "reactor_deps D" "reachable D s" "multis s h = Some (tl_io l)" "tl_io l = MS_Submitted k ud"
    and "inflight s ud = Some Multi" "cs \<noteq> []"
    and "\<forall>c\<in>set cs. cqe_user_data c = ud \<and> cqueue_more (ur D) (cqe_flags c)"
    and "buffered D s k = []" "length cs \<le> ring_capacity"
  shows "\<exists>s1 i2. complete_all D cs s = Inr s1
    \<and> listener_polls D w (length cs) l (ri s1)
      = Inr (map (\<lambda>c. Poll_Ready (Some (map_io (\<lambda>fd. \<lparr>ts_inner = fd\<rparr>)
                      (reactor_value_to_result (cqe_result c))))) cs, l, i2)"
proof -
  note inv = reactor_deps.reachable_inv [OF assms(1,2)]
  have h: "multis s h = Some (MS_Submitted k ud)" using assms(3,4) by simp
  have "flight D Multi s ud = Some k"
    using reactor_deps.reachable_multi_link [OF assms(1,2) h] assms(5) by (auto simp: flight_def)
  from reactor_deps.complete_all_buffered [OF assms(1) inv this h assms(7,6)] obtain s1 where
    s1: "complete_all D cs s = Inr s1" "rsteps D s (map Complete cs) s1" "multis s1 h = Some (MS_Submitted k ud)"
      "buffered D s1 k = map cqe_result cs" using assms(8,9) by auto
  note inv1 = reactor_deps.rsteps_inv [OF assms(1) s1(2) inv]
  from reactor_deps.poll_times_all [OF assms(1) inv1 s1(3)] s1(4) obtain s2 where
    "poll_times D h undefined undefined (length cs) s1 = Inr (map stream_item (map cqe_result cs), s2)" by auto
  from listener_polls_later [OF this, of l w] s1(3) assms(4) s1(1) show ?thesis
    by (simp add: stream_item_def comp_def)
qed

lemma listener_accepts_instance:
  "\<exists>s s1 i2. complete_all ring0 [cqe0 5 2, cqe0 6 2] s = Inr s1
    \<and> listener_polls ring0 7 2 \<lparr>tl_inner = 4, tl_io = MS_Submitted 0 0\<rparr> (ri s1)
      = Inr ([Poll_Ready (Some (Inr \<lparr>ts_inner = 5\<rparr>)), Poll_Ready (Some (Inr \<lparr>ts_inner = 6\<rparr>))],
             \<lparr>tl_inner = 4, tl_io = MS_Submitted 0 0\<rparr>, i2)"
proof -
  let ?l = "\<lparr>tl_inner = 4, tl_io = MS_Submitted 0 0\<rparr>" and ?cs = "[cqe0 5 2, cqe0 6 2]"
  obtain s where s: "rrun_init ring0 [NewMultishot 0, PollMultishot 0 entry0 7] = Inr s"
      "multis s 0 = Some (tl_io ?l)" "inflight s 0 = Some Multi" "buffered ring0 s 0 = []"
    by (simp add: reactor_eval buffered_def)
  have more: "\<forall>c\<in>set ?cs. cqe_user_data c = 0 \<and> cqueue_more (ur ring0) (cqe_flags c)"
    by (simp add: script_uring_def)
  from listener_accepts [OF ring0_deps rrun_init_reachable [OF s(1)] s(2) _ s(3) _ more s(4), of 7]
  show ?thesis by (auto simp: reactor_value_to_result_def numeral_2_eq_2)
qed

text \<open>
  C29. How \<open>connect\<close> goes on when the connection it awaits is decided. On success it returns
  the stream on that socket. On an error it closes the socket and, if no address is left,
  returns that error; otherwise it turns to the next address: if there is a socket for it,
  the poll is pending on the connection to it, with the rest of the addresses left.
\<close>

theorem connect_resumes:
  assumes "sock_connect_poll D (little_endian X) waker conn i = Inr (Poll_Ready r, conn', i1)"
  shows "(r = Inr () \<longrightarrow> connect_poll D X waker (CF_Await sock conn rest e0) i w
            = Inr (Poll_Ready (Inr \<lparr>ts_inner = sock\<rparr>), CF_Done, i1, w))
    \<and> (r = Inl e \<and> rest = [] \<longrightarrow> connect_poll D X waker (CF_Await sock conn rest e0) i w
            = Inr (Poll_Ready (Inl e), CF_Done, i1, sys_close X sock w))
    \<and> (r = Inl e \<and> rest = a # rest' \<and> mk_sock X a (sys_close X sock w) = (Inr sock', w1)
         \<and> connect_poll D X waker (CF_Await sock conn rest e0) i w = Inr (p, f, i2, w2) \<longrightarrow>
            p = Poll_Pending \<and> w2 = w1
            \<and> (\<exists>k. f = CF_Await sock' \<lparr>sc_fd = sock', sc_io = OS_Submitted k, sc_addr = a\<rparr> rest' e))"
proof -
  note resume = connect_poll_def ConnectFut.case connect_await_ready [OF assms]
  have "p = Poll_Pending \<and> w2 = w1
      \<and> (\<exists>k. f = CF_Await sock' \<lparr>sc_fd = sock', sc_io = OS_Submitted k, sc_addr = a\<rparr> rest' e)"
    if "r = Inl e" "rest = a # rest'" "mk_sock X a (sys_close X sock w) = (Inr sock', w1)"
      "connect_poll D X waker (CF_Await sock conn rest e0) i w = Inr (p, f, i2, w2)"
  proof -
    have "connect_loop D X waker (a # rest') e i1 (sys_close X sock w) = Inr (p, f, i2, w2)"
      using that(1,2,4) by (simp add: resume del: connect_loop.simps)
    from connect_loop_pending [OF this that(3)] show ?thesis by blast
  qed
  then show ?thesis by (auto simp: resume)
qed

theorem connect_resumes_witness:
  "\<exists>i1. connect_poll ring0 sim_os 7
      (CF_Await 3 \<lparr>sc_fd = 3, sc_io = OS_Finished (- 111), sc_addr = V4 1 80\<rparr> [] (SimpleError InvalidData)) (ri fresh) sim0
    = Inr (Poll_Ready (Inl (OsError 111)), CF_Done, i1, sim0\<lparr>s_closed := [3]\<rparr>)"
proof -
  let ?c = "\<lparr>sc_fd = 3, sc_io = OS_Finished (- 111), sc_addr = V4 1 80\<rparr>"
  have "sock_connect_poll ring0 (little_endian sim_os) 7 ?c (ri fresh)
      = Inr (Poll_Ready (Inl (OsError 111)), ?c, ri fresh)"
    by (simp add: sock_connect_poll_def futures_eval i32_abs_def)
  from connect_resumes [OF this, of 3 "[]" "SimpleError InvalidData" sim0 "OsError 111"] show ?thesis
    by (auto simp: sim_eval)
qed

end
