(* ===== verification/Fs.thy ===== *)
theory Fs
  imports ReadWrite SimOs
begin

text \<open>
  Files, \<open>src/src/futures/fs.rs\<close>: opening, creating, making a directory, reading, writing
  and seeking. A path is its encoded bytes; a \<open>CString\<close> is the bytes before its terminator.
\<close>

unbundle bit_operations_syntax

record File =
  f_inner :: i32

record Mkdir =
  mk_io :: OneshotIoState
  mk_path :: "u8 list"

record FileOpen =
  fo_path :: "u8 list"
  fo_flags :: i32
  fo_io :: OneshotIoState

text \<open>\<open>CString::new(..).unwrap()\<close>: a path with a zero byte inside is refused.\<close>

definition cstring_new :: "u8 list \<Rightarrow> u8 list rs" where
  "cstring_new bs = (if 0 \<in> set bs then Inl UnwrapErr else Inr bs)"

definition file_open :: "u8 list \<Rightarrow> FileOpen rs" where
  "file_open path = rbind (cstring_new path) (\<lambda>p.
     Inr \<lparr>fo_path = p, fo_flags = O_RDWR, fo_io = oneshot_io_new\<rparr>)"

definition file_create :: "u8 list \<Rightarrow> FileOpen rs" where
  "file_create path = rbind (cstring_new path) (\<lambda>p.
     Inr \<lparr>fo_path = p, fo_flags = O_RDWR OR O_CREAT, fo_io = oneshot_io_new\<rparr>)"

definition file_mkdir :: "u8 list \<Rightarrow> Mkdir rs" where
  "file_mkdir path = rbind (cstring_new path) (\<lambda>p.
     Inr \<lparr>mk_io = oneshot_io_new, mk_path = p\<rparr>)"

definition file_open_entry :: "FileOpen \<Rightarrow> Entry" where
  "file_open_entry this = build (Op_OpenAt AT_FDCWD (InFuture ''path'') (fo_flags this) 511)"

definition file_open_poll ::
    "('u, 'ps, 'os, 'ms, 'rb, 't) deps \<Rightarrow> ('u, 'ps, 'os, 'ms, 't, FileOpen, File io_result) fpoll" where
  "file_open_poll D waker this i =
     rbind (oneshot_submit_or_get_result D (\<lambda>this. Inr ((file_open_entry this, waker), this)) (fo_io this) i this)
       (\<lambda>(x, io', i', this').
     Inr (map_poll (map_io (\<lambda>x. \<lparr>f_inner = x\<rparr>)) x, this'\<lparr>fo_io := io'\<rparr>, i'))"

definition mkdir_entry :: "Mkdir \<Rightarrow> Entry" where
  "mkdir_entry this = build (Op_MkDirAt AT_FDCWD (InFuture ''path'') 511)"

definition mkdir_poll ::
    "('u, 'ps, 'os, 'ms, 'rb, 't) deps \<Rightarrow> ('u, 'ps, 'os, 'ms, 't, Mkdir, unit io_result) fpoll" where
  "mkdir_poll D waker this i =
     rbind (oneshot_submit_or_get_result D (\<lambda>this. Inr ((mkdir_entry this, waker), this)) (mk_io this) i this)
       (\<lambda>(x, io', i', this'). Inr (map_poll (map_io (\<lambda>_. ())) x, this'\<lparr>mk_io := io'\<rparr>, i'))"

definition file_read :: "File \<Rightarrow> u8 list \<Rightarrow> AsyncReader" where
  "file_read self buf = \<lparr>ar_fd = f_inner self, ar_io = oneshot_io_new, ar_buf = buf, ar_seekable = True\<rparr>"

definition file_write :: "File \<Rightarrow> u8 list \<Rightarrow> AsyncWriter" where
  "file_write self buf = \<lparr>aw_fd = f_inner self, aw_io = oneshot_io_new, aw_buf = buf, aw_seekable = True\<rparr>"

datatype SeekFrom = Start u64 | End i64 | Current i64

definition file_seek :: "'w os_api \<Rightarrow> File \<Rightarrow> SeekFrom \<Rightarrow> 'w \<Rightarrow> u64 io_result \<times> 'w" where
  "file_seek X self pos w =
     (let (off, whence) = (case pos of
            Start off \<Rightarrow> (off :: i64, SEEK_SET)
          | End off \<Rightarrow> (off, SEEK_END)
          | Current off \<Rightarrow> (off, SEEK_CUR));
          (res, w1) = sys_lseek X (f_inner self) off whence w
      in if res = - 1 then (Inl (last_os_error X w1), w1) else (Inr res, w1))"

sublocale reactor_deps \<subseteq> opener: oneshot_future D "file_open_poll D" fo_io
    "\<lambda>f. Inr (file_open_entry f, f)" "\<lambda>_. map_io (\<lambda>x. \<lparr>f_inner = x\<rparr>)"
  by (rule oneshot_futureI [where upd = "\<lambda>_ st f. f\<lparr>fo_io := st\<rparr>"]) (simp_all add: file_open_poll_def)

sublocale reactor_deps \<subseteq> mkdirs: oneshot_future D "mkdir_poll D" mk_io
    "\<lambda>f. Inr (mkdir_entry f, f)" "\<lambda>_. map_io (\<lambda>_. ())"
  by (rule oneshot_futureI [where upd = "\<lambda>_ st f. f\<lparr>mk_io := st\<rparr>"]) (simp_all add: mkdir_poll_def)

context reactor_deps
begin

lemmas opener_delivers = opener.delivers
lemmas mkdirs_delivers = mkdirs.delivers

end

subsection \<open>Properties\<close>

text \<open>
  \<open>open\<close> and \<open>create\<close> panic exactly on a path with a zero byte; otherwise both ask for
  read and write access to the given path, with permissions 0777, and only \<open>create\<close> asks for
  the file to be created. \<open>mkdir\<close> panics on the same paths.
\<close>

lemma open_create_flags:
  "(0 \<in> set path \<longleftrightarrow> file_open path = Inl UnwrapErr) \<and> (0 \<in> set path \<longleftrightarrow> file_create path = Inl UnwrapErr)
   \<and> (0 \<in> set path \<longleftrightarrow> file_mkdir path = Inl UnwrapErr)
   \<and> (file_open path = Inr f \<longrightarrow> fo_path f = path \<and>
        entry_op (file_open_entry f) = Op_OpenAt AT_FDCWD (InFuture ''path'') O_RDWR 511)
   \<and> (file_create path = Inr f \<longrightarrow> fo_path f = path \<and>
        entry_op (file_open_entry f) = Op_OpenAt AT_FDCWD (InFuture ''path'') (O_RDWR OR O_CREAT) 511)"
  by (auto simp: file_open_def file_create_def file_mkdir_def cstring_new_def file_open_entry_def build_def)

lemma open_create_flags_instance:
  "\<exists>f. file_create [120] = Inr f \<and> entry_op (file_open_entry f) = Op_OpenAt AT_FDCWD (InFuture ''path'') 66 511"
proof -
  obtain f where f: "file_create [120] = Inr f" by (simp add: file_create_def cstring_new_def)
  with open_create_flags [of "[120]" f] show ?thesis by simp
qed

text \<open>
  Seeking asks for the offset of its argument with the matching origin and returns the
  new position, or the error of the call. A start offset of 2^63 or more is passed on as the
  negative number with the same bits.
\<close>

lemma seek_result:
  assumes "pos = Start off \<and> whence = SEEK_SET \<or> pos = End off \<and> whence = SEEK_END
      \<or> pos = Current off \<and> whence = SEEK_CUR"
    and "sys_lseek X (f_inner f) off whence w = (res, w')"
  shows "file_seek X f pos w = (if res = - 1 then (Inl (OsError (errno X w')), w') else (Inr res, w'))
    \<and> (pos = Start off \<and> 2 ^ 63 \<le> uint off \<longrightarrow> sint off = uint off - 2 ^ 64)"
proof -
  have "sint off = uint off - 2 ^ 64" if "2 ^ 63 \<le> uint off"
  proof -
    have "sint off = (uint off + 2 ^ 63) mod 2 ^ 64 - 2 ^ 63"
      by (simp add: sint_uint signed_take_bit_eq_take_bit_shift take_bit_eq_mod)
    also have "(uint off + 2 ^ 63) mod 2 ^ 64 = (uint off + 2 ^ 63 - 2 ^ 64) mod 2 ^ 64"
      by (rule minus_mod_self2 [symmetric])
    also have "\<dots> = uint off - 2 ^ 63"
      using that uint_bounded [of off] by (intro mod_pos_pos_trivial [THEN trans]) simp_all
    finally show ?thesis by simp
  qed
  with assms show ?thesis by (auto simp: file_seek_def last_os_error_def)
qed

lemma seek_result_instance:
  "file_seek sim_os \<lparr>f_inner = 3\<rparr> (Start (2 ^ 63 + 5)) sim0 = (Inl (OsError 22), sim0\<lparr>s_errno := 22\<rparr>)
   \<and> sint (2 ^ 63 + 5 :: i64) = uint (2 ^ 63 + 5 :: i64) - 2 ^ 64"
  using seek_result [of "Start (2 ^ 63 + 5)" "2 ^ 63 + 5" SEEK_SET sim_os "\<lparr>f_inner = 3\<rparr>" sim0 "- 1"
      "sim0\<lparr>s_errno := 22\<rparr>"]
  by (simp add: sim_eval)

end
