(* ===== verification/Await.thy ===== *)
theory Await
  imports Tcp Fs
begin

text \<open>
  Awaiting a future inside an \<open>async fn\<close>. The programs of \<open>src/examples/\<close> are sequences of
  awaits; here they are read in direct style, where \<open>await_fut\<close> is the future polled until it
  is ready. What the kernel does with an operation is a parameter: given the operation and the
  contents of the memory it points to, it gives the result of the completion and the contents
  it leaves, or \<open>None\<close> if the operation never completes.

  \<open>await_equiv\<close> connects this with the polls of the earlier theories.
\<close>

record 'w kernel =
  k_run :: "Opcode \<Rightarrow> u8 list \<Rightarrow> 'w \<Rightarrow> (i32 \<times> u8 list \<times> 'w) option"

definition await_fut :: "'w kernel \<Rightarrow> ('f \<Rightarrow> Entry) \<Rightarrow> ('f \<Rightarrow> u8 list) \<Rightarrow> (i32 io_result \<Rightarrow> 'r) \<Rightarrow> 'f \<Rightarrow> 'w \<Rightarrow>
    ('r \<times> u8 list \<times> 'w) option" where
  "await_fut K entry mem out f w = (case k_run K (entry_op (entry f)) (mem f) w of
     None \<Rightarrow> None
   | Some (r, m, w') \<Rightarrow> Some (out (reactor_value_to_result r), m, w'))"

definition await_read :: "'w kernel \<Rightarrow> AsyncReader \<Rightarrow> 'w \<Rightarrow> (usize io_result \<times> u8 list \<times> 'w) option" where
  "await_read K = await_fut K reader_entry ar_buf (map_io i32_as_usize)"

definition await_write :: "'w kernel \<Rightarrow> AsyncWriter \<Rightarrow> 'w \<Rightarrow> (usize io_result \<times> u8 list \<times> 'w) option" where
  "await_write K = await_fut K writer_entry aw_buf (map_io i32_as_usize)"

definition await_open :: "'w kernel \<Rightarrow> FileOpen \<Rightarrow> 'w \<Rightarrow> (File io_result \<times> u8 list \<times> 'w) option" where
  "await_open K = await_fut K file_open_entry fo_path (map_io (\<lambda>x. \<lparr>f_inner = x\<rparr>))"

lemmas await_defs = await_read_def await_write_def await_open_def

text \<open>
  \<open>awaits_as\<close>: the await of a future gives what its polls give. For every result the kernel can
  give to the operation, the await returns that value with which the future is ready once the
  operation, submitted by its first poll, has completed with that result.
\<close>

definition awaits_as :: "('u, 'ps, 'os, 'ms, 'rb, 't) deps \<Rightarrow> ('u, 'ps, 'os, 'ms, 't, 'f, 'r) fpoll \<Rightarrow>
    ('f \<Rightarrow> OneshotIoState) \<Rightarrow> ('f \<Rightarrow> Entry) \<Rightarrow> ('f \<Rightarrow> u8 list) \<Rightarrow> 'w kernel \<Rightarrow> ('f \<Rightarrow> 'w \<Rightarrow> ('r \<times> u8 list \<times> 'w) option) \<Rightarrow> bool" where
  "awaits_as D poll io entry mem K await \<longleftrightarrow>
     (\<forall>s h f w p f1 i1 k r m k' fl. reachable D s \<longrightarrow> ones s h = Some OS_New \<longrightarrow> io f = OS_New \<longrightarrow>
        poll w f (ri s) = Inr (p, f1, i1) \<longrightarrow> k_run K (entry_op (entry f)) (mem f) k = Some (r, m, k') \<longrightarrow>
        p = Poll_Pending \<and> (\<exists>x s1 s3 f3 i5. await f k = Some (x, m, k')
          \<and> rstep D (PollOneshot h (entry f) w) s = Inr s1 \<and> ri s1 = i1
          \<and> complete_cqe D \<lparr>cqe_user_data = next_ud D s, cqe_result = r, cqe_flags = fl\<rparr> s1 = Inr (w, s3)
          \<and> poll w f1 (ri s3) = Inr (Poll_Ready x, f3, i5)))"

lemma await_polls:
  assumes "future_delivers D poll io (\<lambda>f. Inr (entry f, f)) (\<lambda>_. out)"
  shows "awaits_as D poll io entry mem K (await_fut K entry mem out)"
proof (unfold awaits_as_def, intro allI impI, goal_cases)
  case (1 s h f w p f1 i1 k r m k' fl)
  have "await_fut K entry mem out f k = Some (out (reactor_value_to_result r), m, k')" by (simp add: await_fut_def 1(5))
  with delivers_run [OF assms 1(1-4), of r fl] show ?case by blast
qed

lemma awaits_asD:
  assumes "awaits_as D poll io entry mem K await" "reachable D s" "ones s h = Some OS_New" "io f = OS_New"
    and "poll w f (ri s) = Inr (p, f1, i1)" "k_run K (entry_op (entry f)) (mem f) k = Some (r, m, k')"
  obtains x i3 f3 i5 where "p = Poll_Pending" "await f k = Some (x, m, k')" "poll w f1 i3 = Inr (Poll_Ready x, f3, i5)"
  using assms(1) [unfolded awaits_as_def, rule_format, OF assms(2-6), where fl = 0] by (elim exE conjE) (rule that)

subsection \<open>Byte streams\<close>

text \<open>
  What the programs rely on. \<open>incoming w fd\<close> are the pieces the next reads of \<open>fd\<close> will return,
  after which the stream is at its end and reads return 0; a read takes at most the buffer.
  \<open>sent w fd\<close> are the bytes written to \<open>fd\<close>. A write sends the first bytes of the buffer, as many
  as it reports, which may be fewer than the buffer has; or it fails and sends nothing.
\<close>

locale streams =
  fixes K :: "'w kernel" and incoming :: "'w \<Rightarrow> i32 \<Rightarrow> u8 list list" and sent :: "'w \<Rightarrow> i32 \<Rightarrow> u8 list"
  assumes stream_read: "incoming w fd = c # cs \<Longrightarrow> c \<noteq> [] \<Longrightarrow> length c \<le> length buf \<Longrightarrow> length buf < 2 ^ 31 \<Longrightarrow>
      \<exists>w'. k_run K (Op_Read fd b (usize_as_u32 (length buf)) off) buf w = Some (of_nat (length c), c @ drop (length c) buf, w')
        \<and> incoming w' = (incoming w)(fd := cs) \<and> sent w' = sent w"
    and stream_eof: "incoming w fd = [] \<Longrightarrow>
      \<exists>w'. k_run K (Op_Read fd b n off) buf w = Some (0, buf, w') \<and> incoming w' = incoming w \<and> sent w' = sent w"
    and stream_write: "length buf < 2 ^ 31 \<Longrightarrow>
      (\<exists>n m w'. n \<le> length buf \<and> k_run K (Op_Write fd b (usize_as_u32 (length buf)) off) buf w = Some (of_nat n, m, w')
        \<and> incoming w' = incoming w \<and> sent w' = (sent w)(fd := sent w fd @ take n buf))
      \<or> (\<exists>e m w'. 0 < sint e \<and> k_run K (Op_Write fd b (usize_as_u32 (length buf)) off) buf w = Some (- e, m, w')
        \<and> incoming w' = incoming w \<and> sent w' = sent w)"

lemma kernel_count:
  assumes "n < 2 ^ 31"
  shows "reactor_value_to_result (of_nat n) = Inr (of_nat n)" "i32_as_usize (of_nat n) = n"
proof -
  have "sint (of_nat n :: i32) = int n" using assms by (simp add: signed_of_nat signed_take_bit_int_eq_self)
  then show "reactor_value_to_result (of_nat n) = Inr (of_nat n)" "i32_as_usize (of_nat n) = n"
    using assms by (simp_all add: reactor_value_to_result_def i32_as_usize_def)
qed

lemma sint_uminus_pos:
  fixes v :: i32
  assumes "0 < sint v"
  shows "sint (- v) = - sint v"
proof -
  have "sint v < 2 ^ 31" using sint_less [of v] by simp
  have "sint (- v) = signed_take_bit 31 (- sint v)" using sint_sbintrunc' [of "- sint v", where 'a = 32] by simp
  with assms \<open>sint v < 2 ^ 31\<close> show ?thesis by (simp add: signed_take_bit_int_eq_self)
qed

lemma kernel_error:
  assumes "0 < sint e"
  shows "reactor_value_to_result (- e) = Inl (OsError e)"
  using assms sint_uminus_pos [OF assms] by (simp add: reactor_value_to_result_def i32_abs_def)

text \<open>
  \<open>sends bs r out\<close>: the buffers \<open>bs\<close> are written one after the other, \<open>out\<close> are the bytes that get out, and
  \<open>r\<close> is the result. Of each buffer some first bytes get out, and the rest is not tried again; a
  write that fails ends it with its error.
\<close>

fun sends :: "u8 list list \<Rightarrow> unit io_result \<Rightarrow> u8 list \<Rightarrow> bool" where
  "sends [] r out \<longleftrightarrow> r = Inr () \<and> out = []"
| "sends (b # bs) r out \<longleftrightarrow> (\<exists>n\<le>length b. \<exists>out'. out = take n b @ out' \<and> sends bs r out')
     \<or> (\<exists>e. 0 < sint e \<and> r = Inl (OsError e) \<and> out = [])"

text \<open>If no byte is lost, the bytes are those of the buffers.\<close>

lemma sends_all:
  assumes "sends bs r out"
  shows "length out \<le> length (concat bs)"
    "length out = length (concat bs) \<Longrightarrow> out = concat bs" "length out = length (concat bs) \<Longrightarrow> [] \<notin> set bs \<Longrightarrow> r = Inr ()"
  using assms
proof (induction bs arbitrary: out)
  case (Cons b bs)
  { case 1 with Cons(1) show ?case by (fastforce simp del: length_concat) }
  { case 2
    from 2(2) show ?case
    proof (unfold sends.simps, elim disjE exE conjE)
      fix n out' assume o: "n \<le> length b" "out = take n b @ out'" "sends bs r out'"
      with 2(1) Cons(1) [OF o(3)] have "n = length b" "length out' = length (concat bs)" by (simp_all del: length_concat)
      with o Cons(2) show ?thesis by simp
    qed (use 2(1) in \<open>simp del: length_concat\<close>) }
  { case 3
    from 3(3) show ?case
    proof (unfold sends.simps, elim disjE exE conjE)
      fix n out' assume o: "n \<le> length b" "out = take n b @ out'" "sends bs r out'"
      with 3(1) Cons(1) [OF o(3)] have "length out' = length (concat bs)" by (simp del: length_concat)
      with o Cons(3) 3(2) show ?thesis by simp
    qed (use 3(1,2) in \<open>simp del: length_concat\<close>) }
qed simp_all

context streams
begin

lemma await_read_piece:
  assumes "incoming w (ar_fd f) = c # cs" "c \<noteq> []" "length c \<le> length (ar_buf f)" "length (ar_buf f) < 2 ^ 31"
  obtains w' where "await_read K f w = Some (Inr (length c), c @ drop (length c) (ar_buf f), w')"
    "incoming w' = (incoming w)(ar_fd f := cs)" "sent w' = sent w"
proof -
  from stream_read [OF assms, of "Borrowed ''buf''" "Some (if ar_seekable f then - 1 else 0)"] obtain w' where
    "k_run K (entry_op (reader_entry f)) (ar_buf f) w = Some (of_nat (length c), c @ drop (length c) (ar_buf f), w')"
    "incoming w' = (incoming w)(ar_fd f := cs)" "sent w' = sent w" by (auto simp: reader_entry_def build_def)
  with kernel_count [of "length c"] assms(3,4) show thesis
    by (intro that [of w']) (simp_all add: await_read_def await_fut_def map_io_def)
qed

lemma await_read_end:
  assumes "incoming w (ar_fd f) = []"
  obtains w' where "await_read K f w = Some (Inr 0, ar_buf f, w')" "incoming w' = incoming w" "sent w' = sent w"
proof -
  from stream_eof [OF assms, of "Borrowed ''buf''" "usize_as_u32 (length (ar_buf f))"
      "Some (if ar_seekable f then - 1 else 0)" "ar_buf f"] obtain w' where
    "k_run K (entry_op (reader_entry f)) (ar_buf f) w = Some (0, ar_buf f, w')" "incoming w' = incoming w" "sent w' = sent w"
    by (auto simp: reader_entry_def build_def)
  with kernel_count [of 0] show thesis by (intro that [of w']) (simp_all add: await_read_def await_fut_def map_io_def)
qed

lemma await_write_some:
  assumes "length (aw_buf f) < 2 ^ 31"
  obtains (sent) n m w' where "await_write K f w = Some (Inr n, m, w')" "n \<le> length (aw_buf f)"
    "incoming w' = incoming w" "sent w' = (sent w)(aw_fd f := sent w (aw_fd f) @ take n (aw_buf f))"
  | (fails) e m w' where "await_write K f w = Some (Inl (OsError e), m, w')" "0 < sint e" "incoming w' = incoming w" "sent w' = sent w"
proof -
  let ?off = "Some (if aw_seekable f then - 1 else 0)"
  have op: "entry_op (writer_entry f) = Op_Write (aw_fd f) (Borrowed ''buf'') (usize_as_u32 (length (aw_buf f))) ?off"
    by (simp add: writer_entry_def build_def)
  from stream_write [OF assms, of "aw_fd f" "Borrowed ''buf''" ?off w, folded op] show thesis
  proof (elim disjE exE conjE)
    fix n m w'
    assume n: "n \<le> length (aw_buf f)" "k_run K (entry_op (writer_entry f)) (aw_buf f) w = Some (of_nat n, m, w')"
      "incoming w' = incoming w" "sent w' = (sent w)(aw_fd f := sent w (aw_fd f) @ take n (aw_buf f))"
    with kernel_count [of n] assms show thesis
      by (intro sent [of n m w']) (simp_all add: await_write_def await_fut_def map_io_def)
  next
    fix e m w'
    assume "0 < sint e" "k_run K (entry_op (writer_entry f)) (aw_buf f) w = Some (- e, m, w')"
      "incoming w' = incoming w" "sent w' = sent w"
    then show thesis by (intro fails [of e m w']) (simp_all add: await_write_def await_fut_def map_io_def kernel_error)
  qed
qed

end

subsection \<open>A simulated kernel\<close>

text \<open>
  Streams are lists of pieces. A write takes what there is room for. Opening a listed path gives the descriptor with that number, or
  is refused if that is negative; any other path does not exist. Seeking to the start of a
  file makes its pieces the next ones to be read.
\<close>

record simnet =
  n_in :: "i32 \<Rightarrow> u8 list list"
  n_out :: "i32 \<Rightarrow> u8 list"
  n_files :: "(u8 list \<times> i32) list"
  n_data :: "i32 \<Rightarrow> u8 list list"
  n_closed :: "i32 list"
  n_room :: "i32 \<Rightarrow> nat"

fun sim_run :: "Opcode \<Rightarrow> u8 list \<Rightarrow> simnet \<Rightarrow> (i32 \<times> u8 list \<times> simnet) option" where
  "sim_run (Op_Read fd b n off) mem w = (case n_in w fd of
     [] \<Rightarrow> Some (0, mem, w)
   | c # cs \<Rightarrow> if length c \<le> length mem
       then Some (of_nat (length c), c @ drop (length c) mem, w\<lparr>n_in := (n_in w)(fd := cs)\<rparr>)
       else Some (of_nat (length mem), take (length mem) c, w\<lparr>n_in := (n_in w)(fd := drop (length mem) c # cs)\<rparr>))"
| "sim_run (Op_Write fd b n off) mem w = 
     (let n = min (length mem) (n_room w fd)
      in Some (of_nat n, mem, w\<lparr>n_out := (n_out w)(fd := n_out w fd @ take n mem)\<rparr>))"
| "sim_run (Op_OpenAt d b fl md) mem w = (case map_of (n_files w) mem of
     None \<Rightarrow> Some (- 2, mem, w)
   | Some fd \<Rightarrow> Some (if sint fd < 0 then - 13 else fd, mem, w))"
| "sim_run _ mem w = None"

definition sim_kernel :: "simnet kernel" where
  "sim_kernel = \<lparr>k_run = sim_run\<rparr>"

interpretation simst: streams sim_kernel n_in n_out
  by unfold_locales (auto simp: sim_kernel_def Let_def intro: min.cobounded1)

subsection \<open>Properties\<close>

text \<open>
  Awaiting a read, a write or the opening of a file in direct style is the same as polling
  it: the await returns the value with which the future is ready after its first poll has
  submitted the operation and the operation has completed with the result of the kernel.
\<close>

lemma await_equiv:
  assumes "reactor_deps D"
  shows "awaits_as D (async_reader_poll D) ar_io reader_entry ar_buf K (await_read K)
    \<and> awaits_as D (async_writer_poll D) aw_io writer_entry aw_buf K (await_write K)
    \<and> awaits_as D (file_open_poll D) fo_io file_open_entry fo_path K (await_open K)"
  unfolding await_defs
  by (intro conjI await_polls reactor_deps.reader_delivers reactor_deps.writer_delivers reactor_deps.opener_delivers assms)

lemma await_equiv_instance:
  "\<exists>f1 i1 i3 f3 i5 x m k. async_reader_poll ring0 7 \<lparr>ar_fd = 5, ar_io = OS_New, ar_buf = [0, 0], ar_seekable = False\<rparr> (ri fresh)
      = Inr (Poll_Pending, f1, i1)
    \<and> await_read sim_kernel \<lparr>ar_fd = 5, ar_io = OS_New, ar_buf = [0, 0], ar_seekable = False\<rparr>
        \<lparr>n_in = (\<lambda>_. [[104, 105]]), n_out = \<lambda>_. [], n_files = [], n_data = \<lambda>_. [], n_closed = [], n_room = \<lambda>_. 9999\<rparr> = Some (x, m, k)
    \<and> x = Inr 2 \<and> m = [104, 105] \<and> async_reader_poll ring0 7 f1 i3 = Inr (Poll_Ready x, f3, i5)"
proof -
  let ?f = "\<lparr>ar_fd = 5, ar_io = OS_New, ar_buf = [0, 0], ar_seekable = False\<rparr>"
  let ?w = "\<lparr>n_in = (\<lambda>_. [[104, 105]]), n_out = \<lambda>_. [], n_files = [], n_data = \<lambda>_. [], n_closed = [], n_room = \<lambda>_. 9999\<rparr>"
  obtain p f1 i1 where p: "async_reader_poll ring0 7 ?f (ri fresh) = Inr (p, f1, i1)"
    by (simp add: async_reader_poll_def reader_entry_def futures_eval)
  obtain k' where run: "k_run sim_kernel (entry_op (reader_entry ?f)) (ar_buf ?f) ?w = Some (2, [104, 105], k')"
    by (simp add: reader_entry_def build_def sim_kernel_def)
  have "await_read sim_kernel ?f ?w = Some (Inr 2, [104, 105], k')"
    using run by (simp add: await_read_def await_fut_def map_io_def reactor_value_to_result_def i32_as_usize_def)
  moreover obtain x i3 f3 i5 where "p = Poll_Pending" "await_read sim_kernel ?f ?w = Some (x, [104, 105], k')"
      "async_reader_poll ring0 7 f1 i3 = Inr (Poll_Ready x, f3, i5)"
    by (rule awaits_asD [OF conjunct1 [OF await_equiv [OF ring0_deps]] fresh_reachable fresh_new _ p run]) simp
  ultimately show ?thesis using p
    by (intro exI [of _ f1] exI [of _ i1] exI [of _ i3] exI [of _ f3] exI [of _ i5] exI [of _ x] exI [of _ "[104, 105]"] exI [of _ k']) simp
qed

end
