(* ===== verification/WebServer.thy ===== *)
theory WebServer
  imports HttpText Await
begin

text \<open>
  The web server of \<open>src/examples/web_server.rs\<close>: reading a request, the file it names, and the
  response. An \<open>async fn\<close> is read in direct style over the awaits of its futures. It returns
  \<open>None\<close> where it never ends, a panic, or its \<open>Result\<close>; the errors of \<open>anyhow\<close> are the errors they wrap.
  Logging is left out.
\<close>

datatype Response = R_NotImplemented | R_ServerError | R_Ok | R_NotFound

fun response_code :: "Response \<Rightarrow> u32" where
  "response_code R_NotImplemented = 501"
| "response_code R_ServerError = 500"
| "response_code R_Ok = 200"
| "response_code R_NotFound = 404"

fun response_text :: "Response \<Rightarrow> u8 list" where
  "response_text R_NotImplemented = bytes ''Not Implemented''"
| "response_text R_ServerError = bytes ''Internal Server Error''"
| "response_text R_Ok = bytes ''OK''"
| "response_text R_NotFound = bytes ''Not Found''"

record Args =
  arg_port :: u16
  arg_webroot :: "u8 list"

type_synonym 'w result = "(unit io_result \<times> 'w) rs option"

abbreviation (input) CRLF :: "u8 list" where "CRLF \<equiv> [13, 10]"

definition response_hdr :: "Response \<Rightarrow> usize \<Rightarrow> u8 list" where
  "response_hdr code content_length =
     bytes ''HTTP/1.1 '' @ decimal (unat (response_code code)) @ [32] @ response_text code @ CRLF
     @ bytes ''Server: tws'' @ CRLF @ bytes ''Content-Length: '' @ decimal content_length @ CRLF @ CRLF"

definition send_response_hdr :: "'w kernel \<Rightarrow> TcpStream \<Rightarrow> Response \<Rightarrow> usize \<Rightarrow> 'w \<Rightarrow> (unit io_result \<times> 'w) option" where
  "send_response_hdr K conn code content_length w =
     (case await_write K (tcp_write conn (response_hdr code content_length)) w of
        None \<Rightarrow> None
      | Some (r, _, w1) \<Rightarrow> Some (map_io (\<lambda>_. ()) r, w1))"

text \<open>The loop of \<open>send_file\<close>: each turn has a buffer of its own.\<close>

partial_function (option) send_body :: "'w kernel \<Rightarrow> TcpStream \<Rightarrow> File \<Rightarrow> 'w \<Rightarrow> (unit io_result \<times> 'w) option" where
  "send_body K conn f w = (case await_read K (file_read f (replicate 4096 0)) w of
     None \<Rightarrow> None
   | Some (r, buf, w1) \<Rightarrow> (case r of
       Inl e \<Rightarrow> Some (Inl e, w1)
     | Inr count \<Rightarrow> if count = 0 then Some (Inr (), w1)
         else (case await_write K (tcp_write conn buf) w1 of
           None \<Rightarrow> None
         | Some (r, _, w2) \<Rightarrow> (case r of Inl e \<Rightarrow> Some (Inl e, w2) | Inr _ \<Rightarrow> send_body K conn f w2))))"

text \<open>\<open>io::Error::kind\<close> is \<open>NotFound\<close> for the error number \<open>ENOENT\<close>.\<close>

fun is_not_found :: "io_error \<Rightarrow> bool" where
  "is_not_found (OsError e) \<longleftrightarrow> e = 2"
| "is_not_found (SimpleError kd) \<longleftrightarrow> kd = NotFound"
| "is_not_found (CustomError kd _) \<longleftrightarrow> kd = NotFound"

text \<open>The branch of \<open>send_file\<close> for a file that could be opened.\<close>

definition send_open_file :: "'w kernel \<Rightarrow> 'w os_api \<Rightarrow> TcpStream \<Rightarrow> File \<Rightarrow> 'w \<Rightarrow> (unit io_result \<times> 'w) option" where
  "send_open_file K X conn f w = (case file_seek X f (End 0) w of
     (Inl e, w1) \<Rightarrow> Some (Inl e, w1)
   | (Inr n, w1) \<Rightarrow>
       (let count = u64_as_usize n
        in case file_seek X f (Start 0) w1 of
          (Inl e, w2) \<Rightarrow> Some (Inl e, w2)
        | (Inr _, w2) \<Rightarrow> (case send_response_hdr K conn R_Ok count w2 of
            None \<Rightarrow> None
          | Some (r, w3) \<Rightarrow> (case r of Inl e \<Rightarrow> Some (Inl e, w3) | Inr _ \<Rightarrow> send_body K conn f w3))))"

text \<open>\<open>send_file\<close> owns the connection: it is closed when it returns, after the file.\<close>

definition send_file :: "'w kernel \<Rightarrow> 'w os_api \<Rightarrow> TcpStream \<Rightarrow> u8 list \<Rightarrow> 'w \<Rightarrow> 'w result" where
  "send_file K X conn path w = (case file_open path of
     Inl p \<Rightarrow> Some (Inl p)
   | Inr fo \<Rightarrow> map_option (\<lambda>(r, w'). Inr (r, sys_close X (ts_inner conn) w'))
       (case await_open K fo w of
          None \<Rightarrow> None
        | Some (Inr f, _, w1) \<Rightarrow> map_option (\<lambda>(r, w'). (r, sys_close X (f_inner f) w')) (send_open_file K X conn f w1)
        | Some (Inl e, _, w1) \<Rightarrow>
            send_response_hdr K conn (if is_not_found e then R_NotFound else R_ServerError) 0 w1))"

text \<open>The loop that reads the request, with the buffer it reuses.\<close>

partial_function (option) read_request :: "'w kernel \<Rightarrow> TcpStream \<Rightarrow> u8 list \<Rightarrow> u8 list \<Rightarrow> 'w \<Rightarrow>
    (u8 list io_result \<times> 'w) rs option" where
  "read_request K conn buf request w = (if contains_sub (CRLF @ CRLF) request then Some (Inr (Inr request, w))
     else case await_read K (tcp_read conn buf) w of
       None \<Rightarrow> None
     | Some (r, buf', w1) \<Rightarrow> (case r of
         Inl e \<Rightarrow> Some (Inr (Inl e, w1))
       | Inr count \<Rightarrow> if length buf' < count then Some (Inl (PanicMsg ''slice index out of range''))
           else (case from_utf8 (take count buf') of
             None \<Rightarrow> Some (Inl UnwrapErr)
           | Some s \<Rightarrow> read_request K conn buf' (request @ s) w1)))"

text \<open>The method and the path of the request line: \<open>parts[0]\<close> and \<open>parts[1]\<close>.\<close>

definition request_line :: "u8 list \<Rightarrow> (u8 list \<times> u8 list) rs" where
  "request_line request =
     (let req_hdr = trim (hd (split_on 10 request));
          parts = split_on 32 req_hdr
      in if length parts < 2 then Inl (PanicMsg ''index out of bounds'') else Inr (parts ! 0, parts ! 1))"

text \<open>The file a path names, or \<open>None\<close> for a path that is not absolute.\<close>

definition served_file :: "u8 list \<Rightarrow> u8 list \<Rightarrow> u8 list option" where
  "served_file webroot path =
     (if components path = components [SEP] then Some (path_join webroot (bytes ''index.html''))
      else map_option (path_join webroot) (strip_root path))"

definition handle_connection :: "Args \<Rightarrow> 'w kernel \<Rightarrow> 'w os_api \<Rightarrow> TcpStream \<Rightarrow> 'w \<Rightarrow> 'w result" where
  "handle_connection args K X conn w = (case read_request K conn (replicate 1024 0) [] w of
     None \<Rightarrow> None
   | Some (Inl p) \<Rightarrow> Some (Inl p)
   | Some (Inr (Inl e, w1)) \<Rightarrow> Some (Inr (Inl e, sys_close X (ts_inner conn) w1))
   | Some (Inr (Inr request, w1)) \<Rightarrow> (case request_line request of
       Inl p \<Rightarrow> Some (Inl p)
     | Inr (method, path) \<Rightarrow>
         (let respond = (\<lambda>code. map_option (\<lambda>(r, w'). Inr (r, sys_close X (ts_inner conn) w')) (send_response_hdr K conn code 0 w1))
          in if \<not> lowercase_is ''get'' method then respond R_NotImplemented
             else (case served_file (arg_webroot args) path of
               None \<Rightarrow> respond R_NotFound
             | Some file \<Rightarrow> send_file K X conn file w1))))"

end
