(* ===== verification/WebServerThms.thy ===== *)
theory WebServerThms
  imports WebServer
begin

text \<open>
  What the web server does with a request: reading it, the file it serves, and the bytes it
  sends. The kernel's streams are those of the locale \<open>streams\<close>; \<open>web_files\<close> adds what the code
  relies on of files, whose contents are given as the pieces reads from the start return.
\<close>

subsection \<open>Reading the request\<close>

abbreviation complete :: "u8 list \<Rightarrow> bool" where "complete \<equiv> contains_sub ([13, 10] @ [13, 10])"

text \<open>
  Pieces a read of the request can return. \<open>early cs req\<close> says that the pieces \<open>cs\<close> are strings
  and that the request is not complete before the last of them.
\<close>

definition piece :: "nat \<Rightarrow> u8 list \<Rightarrow> bool" where
  "piece n c \<longleftrightarrow> c \<noteq> [] \<and> length c \<le> n"

fun early :: "u8 list list \<Rightarrow> u8 list \<Rightarrow> bool" where
  "early [] req \<longleftrightarrow> True"
| "early (c # cs) req \<longleftrightarrow> \<not> complete req \<and> utf8 c \<and> early cs (req @ c)"

context streams
begin

lemma read_request_piece:
  assumes "incoming w (ts_inner conn) = c # cs" "piece (length buf) c" "length buf < 2 ^ 31" "\<not> complete req"
  obtains buf' w' where "length buf' = length buf" "incoming w' = (incoming w)(ts_inner conn := cs)" "sent w' = sent w"
    "read_request K conn buf req w = (if utf8 c then read_request K conn buf' (req @ c) w' else Some (Inl UnwrapErr))"
proof -
  have f: "ar_fd (tcp_read conn buf) = ts_inner conn" "ar_buf (tcp_read conn buf) = buf" by (simp_all add: tcp_read_def)
  from assms(1-3) obtain w' where w': "await_read K (tcp_read conn buf) w = Some (Inr (length c), c @ drop (length c) buf, w')"
      "incoming w' = (incoming w)(ts_inner conn := cs)" "sent w' = sent w"
    by (auto simp: piece_def f intro: await_read_piece [of w "tcp_read conn buf" c cs])
  have "read_request K conn buf req w =
      (if utf8 c then read_request K conn (c @ drop (length c) buf) (req @ c) w' else Some (Inl UnwrapErr))"
    using assms(4) w'(1) by (subst read_request.simps) (simp add: from_utf8_def)
  with that [of "c @ drop (length c) buf" w'] w' assms(2) show thesis by (simp add: piece_def)
qed

text \<open>The pieces before the request is complete are read one after the other.\<close>

lemma read_request_pieces:
  assumes "incoming w (ts_inner conn) = cs @ rest" "\<forall>c\<in>set cs. piece (length buf) c" "length buf < 2 ^ 31" "early cs req"
  shows "\<exists>buf' w'. length buf' = length buf \<and> incoming w' = (incoming w)(ts_inner conn := rest) \<and> sent w' = sent w
    \<and> read_request K conn buf req w = read_request K conn buf' (req @ concat cs) w'"
  using assms
proof (induction cs arbitrary: w buf req)
  case Nil
  then have "(incoming w)(ts_inner conn := rest) = incoming w" by (simp add: fun_upd_idem)
  then show ?case by auto
next
  case (Cons c cs)
  from Cons.prems obtain buf1 w1 where 1: "length buf1 = length buf" "incoming w1 = (incoming w)(ts_inner conn := cs @ rest)"
      "sent w1 = sent w" "read_request K conn buf req w = read_request K conn buf1 (req @ c) w1"
    by (auto intro: read_request_piece [of w conn c "cs @ rest" buf req])
  have "\<exists>buf' w'. length buf' = length buf1 \<and> incoming w' = (incoming w1)(ts_inner conn := rest) \<and> sent w' = sent w1
      \<and> read_request K conn buf1 (req @ c) w1 = read_request K conn buf' ((req @ c) @ concat cs) w'"
    by (rule Cons.IH) (use Cons.prems 1 in simp_all)
  moreover have "(incoming w1)(ts_inner conn := rest) = (incoming w)(ts_inner conn := rest)" by (simp add: 1(2))
  ultimately show ?case by (simp only: 1(1,3,4) concat.simps append_assoc)
qed

lemma read_request_complete:
  assumes "incoming w (ts_inner conn) = cs @ rest" "\<forall>c\<in>set cs. piece (length buf) c" "length buf < 2 ^ 31" "early cs []"
    "complete (concat cs)"
  obtains w' where "read_request K conn buf [] w = Some (Inr (Inr (concat cs), w'))"
    "incoming w' = (incoming w)(ts_inner conn := rest)" "sent w' = sent w"
proof -
  from read_request_pieces [OF assms(1-4)] obtain buf' w' where
    "incoming w' = (incoming w)(ts_inner conn := rest)" "sent w' = sent w"
    "read_request K conn buf [] w = read_request K conn buf' (concat cs) w'" by auto
  moreover have "read_request K conn buf' (concat cs) w' = Some (Inr (Inr (concat cs), w'))"
    using assms(5) by (subst read_request.simps) simp
  ultimately show thesis by (simp add: that)
qed

text \<open>At the end of the stream every read returns nothing, and the loop goes on for ever.\<close>

lemma read_request_stuck:
  assumes "incoming w (ts_inner conn) = []" "\<not> complete req"
  shows "read_request K conn buf req w = None"
proof -
  have "K' = K \<longrightarrow> incoming v (ts_inner cn) = [] \<longrightarrow> complete rq" if "read_request K' cn b rq v = Some y" for K' cn b rq v y
  proof (rule read_request.raw_induct [OF _ that], goal_cases)
    case (1 loop K' cn b rq v y)
    show ?case
    proof (intro impI, rule ccontr)
      assume K: "K' = K" and st: "incoming v (ts_inner cn) = []" and rq: "\<not> complete rq"
      have f: "ar_fd (tcp_read cn b) = ts_inner cn" "ar_buf (tcp_read cn b) = b" by (simp_all add: tcp_read_def)
      obtain v' where v': "await_read K (tcp_read cn b) v = Some (Inr 0, b, v')" "incoming v' = incoming v"
        using await_read_end [of v "tcp_read cn b"] st unfolding f by blast
      from 1(2) have "loop K' cn b rq v' = Some y" using v'(1) rq by (simp add: K from_utf8_def)
      from 1(1) [OF this] K st v'(2) rq show False by simp
    qed
  qed
  from this [of K conn buf req w] assms show ?thesis by (cases "read_request K conn buf req w") auto
qed

lemma read_request_eof:
  assumes "incoming w (ts_inner conn) = cs" "\<forall>c\<in>set cs. piece (length buf) c" "length buf < 2 ^ 31" "early cs []"
    "\<not> complete (concat cs)"
  shows "read_request K conn buf [] w = None"
proof -
  from assms(1) have "incoming w (ts_inner conn) = cs @ []" by simp
  from read_request_pieces [OF this assms(2-4)] obtain buf' w' where
    1: "incoming w' = (incoming w)(ts_inner conn := [])" "read_request K conn buf [] w = read_request K conn buf' ([] @ concat cs) w'"
    by (elim exE conjE) (rule that)
  from 1(1) have "incoming w' (ts_inner conn) = []" by simp
  from read_request_stuck [OF this, of "concat cs" buf'] assms(5) 1(2) show ?thesis by simp
qed

lemma read_request_invalid:
  assumes "incoming w (ts_inner conn) = cs @ c # rest" "\<forall>c'\<in>set (cs @ [c]). piece (length buf) c'" "length buf < 2 ^ 31" "early cs []"
    "\<not> complete (concat cs)" "\<not> utf8 c"
  shows "read_request K conn buf [] w = Some (Inl UnwrapErr)"
proof -
  from assms(2) have p: "\<forall>c'\<in>set cs. piece (length buf) c'" "piece (length buf) c" by simp_all
  from read_request_pieces [OF assms(1) p(1) assms(3,4)] obtain buf' w' where
    1: "length buf' = length buf" "incoming w' = (incoming w)(ts_inner conn := c # rest)"
      "read_request K conn buf [] w = read_request K conn buf' ([] @ concat cs) w'"
    by (elim exE conjE) (rule that)
  from 1(1,2) p(2) assms(3) have i: "incoming w' (ts_inner conn) = c # rest" "piece (length buf') c" "length buf' < 2 ^ 31"
    by simp_all
  obtain b v where "read_request K conn buf' (concat cs) w' =
      (if utf8 c then read_request K conn b (concat cs @ c) v else Some (Inl UnwrapErr))"
    by (rule read_request_piece [OF i assms(5)])
  with assms(6) have "read_request K conn buf' (concat cs) w' = Some (Inl UnwrapErr)" by simp
  with 1(3) show ?thesis by simp
qed

end

text \<open>
  What the reads of a connection return, whatever the kernel does: \<open>received K conn buf w cs w'\<close> says
  that the next reads return \<open>cs\<close> and lead to \<open>w'\<close>.
\<close>

fun received :: "'w kernel \<Rightarrow> TcpStream \<Rightarrow> u8 list \<Rightarrow> 'w \<Rightarrow> u8 list list \<Rightarrow> 'w \<Rightarrow> bool" where
  "received K conn buf w [] w' \<longleftrightarrow> w' = w"
| "received K conn buf w (c # cs) w' \<longleftrightarrow> (\<exists>n buf' w1. await_read K (tcp_read conn buf) w = Some (Inr n, buf', w1)
     \<and> n \<le> length buf' \<and> c = take n buf' \<and> received K conn buf' w1 cs w')"

lemma read_request_received:
  assumes "read_request K conn buf req w = Some (Inr (Inr request, w'))"
  shows "\<exists>cs. received K conn buf w cs w' \<and> request = req @ concat cs \<and> early cs req \<and> complete request"
proof -
  have "\<forall>request w'. y = Inr (Inr request, w') \<longrightarrow>
      (\<exists>cs. received K conn buf w cs w' \<and> request = req @ concat cs \<and> early cs req \<and> complete request)"
    if "read_request K conn buf req w = Some y" for y
    using that
  proof (induct rule: read_request.raw_induct [rotated, consumes 1])
    case (1 loop K conn buf req w y)
    show ?case
    proof (intro allI impI)
      fix request w' assume y: "y = Inr (Inr request, w')"
      show "\<exists>cs. received K conn buf w cs w' \<and> request = req @ concat cs \<and> early cs req \<and> complete request"
      proof (cases "complete req")
        case True
        with 1(2) y show ?thesis by (intro exI [of _ "[]"]) simp
      next
        case False
        with 1(2) y obtain n buf' w1 where rd: "await_read K (tcp_read conn buf) w = Some (Inr n, buf', w1)" "n \<le> length buf'"
            "utf8 (take n buf')" "loop K conn buf' (req @ take n buf') w1 = Some (Inr (Inr request, w'))"
          by (auto simp: from_utf8_def split: option.splits sum.splits if_splits)
        from 1(1) [OF rd(4)] obtain cs where "received K conn buf' w1 cs w'" "request = (req @ take n buf') @ concat cs"
          "early cs (req @ take n buf')" "complete request" by blast
        with rd(1-3) False show ?thesis by (intro exI [of _ "take n buf' # cs"]) auto
      qed
    qed
  qed
  with assms show ?thesis by blast
qed

lemma received_read_request:
  assumes "received K conn buf w cs w'" "early cs req" "complete (req @ concat cs)"
  shows "read_request K conn buf req w = Some (Inr (Inr (req @ concat cs), w'))"
  using assms
proof (induction cs arbitrary: buf w req)
  case Nil
  then show ?case by (subst read_request.simps) simp
next
  case (Cons c cs)
  from Cons.prems(1) obtain n buf' w1 where rd: "await_read K (tcp_read conn buf) w = Some (Inr n, buf', w1)" "n \<le> length buf'"
      "c = take n buf'" "received K conn buf' w1 cs w'" by auto
  have "read_request K conn buf' (req @ c) w1 = Some (Inr (Inr ((req @ c) @ concat cs), w'))"
    by (rule Cons.IH) (use Cons.prems rd in simp_all)
  with rd Cons.prems(2) show ?case by (subst read_request.simps) (simp add: from_utf8_def)
qed

text \<open>\<open>early\<close> in terms of the request after each piece.\<close>

lemma early_iff: "early cs req \<longleftrightarrow> (\<forall>c\<in>set cs. utf8 c) \<and> (\<forall>k<length cs. \<not> complete (req @ concat (take k cs)))"
proof (induction cs arbitrary: req)
  case (Cons c cs)
  have "(\<forall>k<length (c # cs). \<not> complete (req @ concat (take k (c # cs)))) \<longleftrightarrow>
      \<not> complete req \<and> (\<forall>k<length cs. \<not> complete ((req @ c) @ concat (take k cs)))"
    by (simp add: All_less_Suc2)
  with Cons show ?case by auto
qed simp

subsection \<open>The bytes sent\<close>

lemma decimal_length: "n < 10 ^ Suc k \<Longrightarrow> length (decimal n) \<le> Suc k"
proof (induction k arbitrary: n)
  case 0
  then show ?case by (simp add: decimal.simps)
next
  case (Suc k)
  then have "n div 10 < 10 ^ Suc k" by (simp add: less_mult_imp_div_less)
  with Suc.IH show ?case by (subst decimal.simps) simp
qed

lemma response_hdr_length: "n < 10 ^ 20 \<Longrightarrow> length (response_hdr code n) < 2 ^ 31"
  using decimal_length [of n 19]
  by (cases code) (simp_all add: response_hdr_def bytes_def decimal.simps)

text \<open>
  The header of a response, byte by byte, and the buffers of the body: the whole buffer is written
  for each piece of the file, whatever the length of the piece.
\<close>

definition answer :: "string \<Rightarrow> usize \<Rightarrow> u8 list" where
  "answer status n = bytes ''HTTP/1.1 '' @ bytes status @ [13, 10] @ bytes ''Server: tws'' @ [13, 10]
     @ bytes ''Content-Length: '' @ decimal n @ [13, 10, 13, 10]"

definition padded :: "u8 list \<Rightarrow> u8 list" where
  "padded c = c @ replicate (4096 - length c) 0"

fun status :: "Response \<Rightarrow> string" where
  "status R_NotImplemented = ''501 Not Implemented''"
| "status R_ServerError = ''500 Internal Server Error''"
| "status R_Ok = ''200 OK''"
| "status R_NotFound = ''404 Not Found''"

lemma response_hdr_answer: "response_hdr code n = answer (status code) n"
  by (cases code) (simp_all add: response_hdr_def answer_def bytes_def decimal.simps)

lemma sends_cons:
  "sends [b] (Inr ()) out1 \<Longrightarrow> sends bs r out2 \<Longrightarrow> sends (b # bs) r (out1 @ out2)"
  "sends [b] (Inl e) out \<Longrightarrow> sends (b # bs) (Inl e) out"
  by auto

context streams
begin

lemma write_sends:
  assumes "length buf < 2 ^ 31"
  obtains r m w' out where "await_write K (tcp_write conn buf) w = Some (r, m, w')" "incoming w' = incoming w"
    "sent w' = (sent w)(ts_inner conn := sent w (ts_inner conn) @ out)" "sends [buf] (map_io (\<lambda>_. ()) r) out"
proof -
  have f: "aw_fd (tcp_write conn buf) = ts_inner conn" "aw_buf (tcp_write conn buf) = buf" by (simp_all add: tcp_write_def)
  from assms have len: "length (aw_buf (tcp_write conn buf)) < 2 ^ 31" by (simp add: f)
  show thesis
  proof (cases rule: await_write_some [OF len, of w])
    case (1 n m w')
    then show thesis by (intro that [of "Inr n" m w' "take n buf"]) (auto simp: f map_io_def)
  next
    case (2 e m w')
    then show thesis by (intro that [of "Inl (OsError e)" m w' "[]"]) (auto simp: map_io_def)
  qed
qed

lemma send_response_hdr_sends:
  assumes "n < 10 ^ 20"
  obtains r w' out where "send_response_hdr K conn code n w = Some (r, w')" "incoming w' = incoming w"
    "sent w' = (sent w)(ts_inner conn := sent w (ts_inner conn) @ out)" "sends [answer (status code) n] r out"
proof -
  obtain r m w' out where "await_write K (tcp_write conn (response_hdr code n)) w = Some (r, m, w')" "incoming w' = incoming w"
    "sent w' = (sent w)(ts_inner conn := sent w (ts_inner conn) @ out)" "sends [response_hdr code n] (map_io (\<lambda>_. ()) r) out"
    by (rule write_sends [OF response_hdr_length [OF assms], of conn code w])
  then show thesis by (intro that [of "map_io (\<lambda>_. ()) r" w' out]) (simp_all add: send_response_hdr_def response_hdr_answer)
qed

lemma send_body_sends:
  assumes "incoming w (f_inner f) = ps" "\<forall>c\<in>set ps. piece 4096 c"
  shows "\<exists>r w' out. send_body K conn f w = Some (r, w')
    \<and> sent w' = (sent w)(ts_inner conn := sent w (ts_inner conn) @ out) \<and> sends (map padded ps) r out"
  using assms
proof (induction ps arbitrary: w)
  case Nil
  have r: "ar_fd (file_read f (replicate 4096 0)) = f_inner f" "ar_buf (file_read f (replicate 4096 0)) = replicate 4096 0"
    by (simp_all add: file_read_def)
  obtain w' where w': "await_read K (file_read f (replicate 4096 0)) w = Some (Inr 0, replicate 4096 0, w')" "sent w' = sent w"
    by (rule await_read_end [of w "file_read f (replicate 4096 0)", unfolded r, OF Nil(1)])
  from w'(1) have "send_body K conn f w = Some (Inr (), w')" by (subst send_body.simps) simp
  with w'(2) show ?case by (intro exI [of _ "Inr ()"] exI [of _ w'] exI [of _ "[]"]) (simp add: fun_upd_idem)
next
  case (Cons c cs)
  let ?rd = "file_read f (replicate 4096 0)"
  have r: "ar_fd ?rd = f_inner f" "ar_buf ?rd = replicate 4096 0" by (simp_all add: file_read_def)
  have c: "c \<noteq> []" "length c \<le> length (replicate 4096 (0 :: u8))" "length (replicate 4096 (0 :: u8)) < 2 ^ 31"
    using Cons.prems(2) by (simp_all add: piece_def)
  obtain w1 where w1: "await_read K ?rd w = Some (Inr (length c), padded c, w1)"
      "incoming w1 = (incoming w)(f_inner f := cs)" "sent w1 = sent w"
    by (rule await_read_piece [of w ?rd, unfolded r, OF Cons.prems(1) c]) (simp add: padded_def)
  have len: "length (padded c) < 2 ^ 31" using c(2) by (simp add: padded_def)
  obtain r m w2 out where w2: "await_write K (tcp_write conn (padded c)) w1 = Some (r, m, w2)" "incoming w2 = incoming w1"
      "sent w2 = (sent w1)(ts_inner conn := sent w1 (ts_inner conn) @ out)" "sends [padded c] (map_io (\<lambda>_. ()) r) out"
    by (rule write_sends [OF len])
  show ?case
  proof (cases r)
    case (Inl e)
    then have "send_body K conn f w = Some (Inl e, w2)" by (subst send_body.simps) (simp add: w1(1) w2(1) c(1))
    moreover have "sends (map padded (c # cs)) (Inl e) out" using w2(4) sends_cons(2) by (simp add: Inl map_io_def)
    ultimately show ?thesis using w2(3) unfolding w1(3) by blast
  next
    case (Inr n)
    have "\<exists>r w' out. send_body K conn f w2 = Some (r, w')
        \<and> sent w' = (sent w2)(ts_inner conn := sent w2 (ts_inner conn) @ out) \<and> sends (map padded cs) r out"
      by (rule Cons.IH) (use Cons.prems(2) w1(2) w2(2) in simp_all)
    then obtain r' w' out' where w': "send_body K conn f w2 = Some (r', w')"
        "sent w' = (sent w2)(ts_inner conn := sent w2 (ts_inner conn) @ out')" "sends (map padded cs) r' out'" by blast
    have "send_body K conn f w = Some (r', w')"
      by (subst send_body.simps) (simp add: w1(1) w2(1) c(1) Inr w'(1))
    moreover have "sends (map padded (c # cs)) r' (out @ out')"
      using sends_cons(1) [OF _ w'(3)] w2(4) Inr by (simp add: map_io_def)
    ultimately show ?thesis using w'(2) w2(3) w1(3) by (intro exI [of _ r'] exI [of _ w'] exI [of _ "out @ out'"]) simp
  qed
qed

end

subsection \<open>The response\<close>

text \<open>
  What the server relies on of the file system. \<open>lookup w path\<close> is the error of opening \<open>path\<close> for
  reading and writing, or the pieces in which its contents are read from the start; \<open>opened w fd\<close> are those of an open file.
\<close>

locale web_files = streams K incoming sent
  for K :: "'w kernel" and incoming :: "'w \<Rightarrow> i32 \<Rightarrow> u8 list list" and sent :: "'w \<Rightarrow> i32 \<Rightarrow> u8 list" +
  fixes X :: "'w os_api" and lookup :: "'w \<Rightarrow> u8 list \<Rightarrow> i32 + u8 list list" and opened :: "'w \<Rightarrow> i32 \<Rightarrow> u8 list list option"
  assumes close_keeps: "sent (sys_close X fd w) = sent w"
    and read_keeps: "k_run K (Op_Read fd b n off) m w = Some (r, m', w') \<Longrightarrow> lookup w' = lookup w"
    and open_found: "lookup w path = Inr ps \<Longrightarrow>
      \<exists>fd m w'. k_run K (Op_OpenAt AT_FDCWD b O_RDWR md) path w = Some (fd, m, w') \<and> 0 \<le> sint fd \<and> opened w' fd = Some ps \<and> sent w' = sent w"
    and open_fails: "lookup w path = Inl e \<Longrightarrow>
      0 < sint e \<and> (\<exists>m w'. k_run K (Op_OpenAt AT_FDCWD b O_RDWR md) path w = Some (- e, m, w') \<and> sent w' = sent w)"
    and seek_end: "opened w fd = Some ps \<Longrightarrow>
      \<exists>w'. sys_lseek X fd 0 SEEK_END w = (of_nat (length (concat ps)), w') \<and> opened w' fd = Some ps \<and> sent w' = sent w"
    and seek_start: "opened w fd = Some ps \<Longrightarrow>
      \<exists>w'. sys_lseek X fd 0 SEEK_SET w = (0, w') \<and> incoming w' fd = ps \<and> sent w' = sent w"

text \<open>
  The response to a request: the buffers that are written, for the method and the file of the
  request, and the components of that file.
\<close>

definition get_method :: "u8 list \<Rightarrow> bool" where
  "get_method m \<longleftrightarrow> (\<exists>g\<in>{71, 103}. \<exists>e\<in>{69, 101}. \<exists>t\<in>{84, 116}. m = [g, e, t])"

definition response :: "(u8 list \<Rightarrow> i32 + u8 list list) \<Rightarrow> u8 list \<Rightarrow> u8 list option \<Rightarrow> u8 list list" where
  "response look method dest =
     (if \<not> get_method method then [answer ''501 Not Implemented'' 0]
      else case dest of
        None \<Rightarrow> [answer ''404 Not Found'' 0]
      | Some file \<Rightarrow> (case look file of
          Inl e \<Rightarrow> [answer (if e = 2 then ''404 Not Found'' else ''500 Internal Server Error'') 0]
        | Inr ps \<Rightarrow> answer ''200 OK'' (length (concat ps)) # map padded ps))"

definition target :: "u8 list \<Rightarrow> u8 list \<Rightarrow> Component list option" where
  "target webroot path = (if path \<noteq> [] \<and> hd path = 47
     then Some (components webroot @ (if body path = [] then [Normal (bytes ''index.html'')] else body path))
     else None)"

lemma ascii_lower_iff: "97 \<le> c \<Longrightarrow> c \<le> 122 \<Longrightarrow> ascii_lower b = c \<longleftrightarrow> b = c \<or> b = c - 32"
proof -
  assume "97 \<le> c" "c \<le> 122"
  then have "unat c \<in> {97..122}" by (simp add: word_le_nat_alt)
  then have c: "unat (c - 32) = unat c - 32" by (subst unat_sub) (simp_all add: word_le_nat_alt)
  show ?thesis using \<open>97 \<le> c\<close> \<open>c \<le> 122\<close> c
    by (auto simp: ascii_lower_def word_le_nat_alt)
qed

lemma lowercase_get: "lowercase_is ''get'' m \<longleftrightarrow> get_method m"
proof -
  have l: "ascii_lower b = 103 \<longleftrightarrow> b \<in> {71, 103}" "ascii_lower b = 101 \<longleftrightarrow> b \<in> {69, 101}" "ascii_lower b = 116 \<longleftrightarrow> b \<in> {84, 116}" for b
    using ascii_lower_iff [of 103 b] ascii_lower_iff [of 101 b] ascii_lower_iff [of 116 b] by auto
  have "bytes ''get'' = [103, 101, 116]" by code_simp
  then show ?thesis by (auto simp: lowercase_is_def get_method_def map_eq_Cons_conv l)
qed

lemma served_file_components:
  assumes "webroot \<noteq> []"
  shows "map_option components (served_file webroot path) =
    (if path \<noteq> [] \<and> hd path = 47
     then Some (components webroot @ (if body path = [] then [Normal (bytes ''index.html'')] else body path))
     else None)"
proof -
  have ix: "body (bytes ''index.html'') = [Normal (bytes ''index.html'')]" "hd (bytes ''index.html'') \<noteq> 47" by code_simp+
  have root: "components [47] = [RootDir]" by code_simp
  show ?thesis
  proof (cases "path \<noteq> [] \<and> hd path = 47")
    case abs: True
    then have c: "components path = RootDir # body path" by (simp add: components_def path_start_def)
    show ?thesis
    proof (cases "body path = []")
      case True
      with abs c root ix components_join [OF assms, of "bytes ''index.html''"] show ?thesis by (simp add: served_file_def)
    next
      case False
      obtain q where q: "strip_root path = Some q" using abs by (cases path) (auto simp: strip_root_def)
      from components_join [OF assms strip_root_relative(1) [OF q]] strip_root_relative(2) [OF q] False abs c root q
      show ?thesis by (simp add: served_file_def)
    qed
  next
    case False
    then have "RootDir \<notin> set (components path)" using body_no_root [of path] by (auto simp: components_def path_start_def)
    then have "components path \<noteq> [RootDir]" by auto
    moreover have "strip_root path = None" using False by (cases path) (auto simp: strip_root_def)
    ultimately show ?thesis using False by (simp add: served_file_def root)
  qed
qed

lemma served_file_bytes:
  assumes "served_file webroot path = Some f"
  shows "set f \<subseteq> insert 47 (set webroot \<union> set path \<union> set (bytes ''index.html''))"
proof -
  have "set (trim_left bs) \<subseteq> set bs" "set (trim_right bs) \<subseteq> set bs" for bs
    using trim_left_suffix [of bs] trim_right_prefix [of bs] by (metis Un_upper1 Un_upper2 set_append)+
  then have "set q \<subseteq> set path" if "strip_root path = Some q" for q
    using that by (auto simp: strip_root_def split: list.splits if_splits)
  with assms show ?thesis
    by (auto simp: served_file_def path_join_def split: if_splits)
qed

lemma unat_minus_one_64: "unat (- 1 :: u64) = 2 ^ 64 - 1"
  by (simp add: unsigned_minus_1_eq_mask mask_eq_exp_minus_1)

context web_files
begin

lemma send_open_file_sends:
  assumes "opened w (f_inner f) = Some ps" "\<forall>c\<in>set ps. piece 4096 c" "length (concat ps) < 2 ^ 63"
  shows "\<exists>r w' out. send_open_file K X conn f w = Some (r, w') \<and> sent w' = (sent w)(ts_inner conn := sent w (ts_inner conn) @ out)
    \<and> sends (answer ''200 OK'' (length (concat ps)) # map padded ps) r out"
proof -
  let ?n = "length (concat ps)"
  obtain w1 where w1: "sys_lseek X (f_inner f) 0 SEEK_END w = (of_nat ?n, w1)" "opened w1 (f_inner f) = Some ps" "sent w1 = sent w"
    using seek_end [OF assms(1)] by blast
  obtain w2 where w2: "sys_lseek X (f_inner f) 0 SEEK_SET w1 = (0, w2)" "incoming w2 (f_inner f) = ps" "sent w2 = sent w1"
    using seek_start [OF w1(2)] by blast
  have "unat (of_nat ?n :: u64) = ?n"
    using assms(3) by (simp add: unat_of_nat take_bit_nat_eq_self del: length_concat)
  then have sz: "(of_nat ?n :: u64) \<noteq> - 1" "u64_as_usize (of_nat ?n) = ?n"
    using assms(3) unat_minus_one_64 by (auto simp: u64_as_usize_def simp del: length_concat)
  obtain r w3 out where w3: "send_response_hdr K conn R_Ok ?n w2 = Some (r, w3)" "incoming w3 = incoming w2"
      "sent w3 = (sent w2)(ts_inner conn := sent w2 (ts_inner conn) @ out)" "sends [answer (status R_Ok) ?n] r out"
    by (rule send_response_hdr_sends) (rule less_trans [OF assms(3)], simp)
  have open_eq: "send_open_file K X conn f w = (case r of Inl e \<Rightarrow> Some (Inl e, w3) | Inr _ \<Rightarrow> send_body K conn f w3)"
    using w1(1) w2(1) w3(1) sz by (simp add: send_open_file_def file_seek_def del: length_concat)
  have sent3: "sent w3 = (sent w)(ts_inner conn := sent w (ts_inner conn) @ out)" using w3(3) w2(3) w1(3) by simp
  show ?thesis
  proof (cases r)
    case (Inl e)
    have "sends (answer ''200 OK'' ?n # map padded ps) (Inl e) out"
      by (rule sends_cons(2)) (use w3(4) in \<open>simp only: status.simps Inl\<close>)
    then show ?thesis unfolding open_eq Inl sum.case using sent3 by blast
  next
    case (Inr u)
    then have r: "r = Inr ()" by simp
    have "\<exists>r w' out. send_body K conn f w3 = Some (r, w')
        \<and> sent w' = (sent w3)(ts_inner conn := sent w3 (ts_inner conn) @ out) \<and> sends (map padded ps) r out"
      by (rule send_body_sends) (use w2(2) w3(2) assms(2) in simp_all)
    then obtain r' w' out' where w': "send_body K conn f w3 = Some (r', w')"
        "sent w' = (sent w3)(ts_inner conn := sent w3 (ts_inner conn) @ out')" "sends (map padded ps) r' out'" by blast
    have "sends (answer ''200 OK'' ?n # map padded ps) r' (out @ out')"
      by (rule sends_cons(1) [OF _ w'(3)]) (use w3(4) in \<open>simp only: status.simps r\<close>)
    moreover have "sent w' = (sent w)(ts_inner conn := sent w (ts_inner conn) @ out @ out')" using w'(2) sent3 by simp
    ultimately show ?thesis unfolding open_eq Inr sum.case using w'(1) by blast
  qed
qed

lemma await_open_found:
  assumes "lookup w path = Inr ps" "fo_path fo = path" "fo_flags fo = O_RDWR"
  obtains f m w' where "await_open K fo w = Some (Inr f, m, w')" "opened w' (f_inner f) = Some ps" "sent w' = sent w"
proof -
  from open_found [OF assms(1), of "InFuture ''path''" 511] obtain fd m w' where
    "k_run K (entry_op (file_open_entry fo)) path w = Some (fd, m, w')" "0 \<le> sint fd" "opened w' fd = Some ps" "sent w' = sent w"
    by (auto simp: file_open_entry_def build_def assms(3))
  then show thesis
    by (intro that [of "\<lparr>f_inner = fd\<rparr>" m w']) (simp_all add: await_open_def await_fut_def reactor_value_ok map_io_def assms(2))
qed

lemma await_open_fails:
  assumes "lookup w path = Inl e" "fo_path fo = path" "fo_flags fo = O_RDWR"
  obtains m w' where "await_open K fo w = Some (Inl (OsError e), m, w')" "sent w' = sent w"
proof -
  from open_fails [OF assms(1), of "InFuture ''path''" 511] obtain m w' where
    "k_run K (entry_op (file_open_entry fo)) path w = Some (- e, m, w')" "0 < sint e" "sent w' = sent w"
    by (auto simp: file_open_entry_def build_def assms(3))
  then show thesis
    by (intro that [of m w']) (simp_all add: await_open_def await_fut_def kernel_error map_io_def assms(2))
qed

lemma send_file_sends:
  assumes "0 \<notin> set path" "\<forall>ps. lookup w path = Inr ps \<longrightarrow> (\<forall>c\<in>set ps. piece 4096 c) \<and> length (concat ps) < 2 ^ 63"
  shows "\<exists>r w' out. send_file K X conn path w = Some (Inr (r, w')) \<and> sent w' = (sent w)(ts_inner conn := sent w (ts_inner conn) @ out)
    \<and> sends (case lookup w path of
        Inl e \<Rightarrow> [answer (if e = 2 then ''404 Not Found'' else ''500 Internal Server Error'') 0]
      | Inr ps \<Rightarrow> answer ''200 OK'' (length (concat ps)) # map padded ps) r out"
proof -
  let ?fo = "\<lparr>fo_path = path, fo_flags = O_RDWR, fo_io = oneshot_io_new\<rparr>"
  have fo: "file_open path = Inr ?fo" using assms(1) by (simp add: file_open_def cstring_new_def)
  show ?thesis
  proof (cases "lookup w path")
    case (Inl e)
    obtain m w1 where w1: "await_open K ?fo w = Some (Inl (OsError e), m, w1)" "sent w1 = sent w"
      by (rule await_open_fails [OF Inl, of ?fo]) simp_all
    obtain r w2 out where "send_response_hdr K conn (if e = 2 then R_NotFound else R_ServerError) 0 w1 = Some (r, w2)"
        "sent w2 = (sent w1)(ts_inner conn := sent w1 (ts_inner conn) @ out)"
        "sends [answer (status (if e = 2 then R_NotFound else R_ServerError)) 0] r out"
      by (rule send_response_hdr_sends) (rule zero_less_power, rule zero_less_numeral)
    then show ?thesis using w1
      by (intro exI [of _ r] exI [of _ "sys_close X (ts_inner conn) w2"] exI [of _ out])
         (auto simp: send_file_def fo Inl close_keeps split: if_splits)
  next
    case (Inr ps)
    with assms(2) have ps: "\<forall>c\<in>set ps. piece 4096 c" "length (concat ps) < 2 ^ 63" by simp_all
    obtain f m w1 where w1: "await_open K ?fo w = Some (Inr f, m, w1)" "opened w1 (f_inner f) = Some ps" "sent w1 = sent w"
      by (rule await_open_found [OF Inr, of ?fo]) simp_all
    obtain r w2 out where w2: "send_open_file K X conn f w1 = Some (r, w2)"
        "sent w2 = (sent w1)(ts_inner conn := sent w1 (ts_inner conn) @ out)"
        "sends (answer ''200 OK'' (length (concat ps)) # map padded ps) r out"
      using send_open_file_sends [OF w1(2) ps, of conn] by (elim exE conjE) (rule that)
    have "send_file K X conn path w = Some (Inr (r, sys_close X (ts_inner conn) (sys_close X (f_inner f) w2)))"
      using w1(1) w2(1) by (simp add: send_file_def fo)
    moreover have "sent (sys_close X (ts_inner conn) (sys_close X (f_inner f) w2)) = (sent w)(ts_inner conn := sent w (ts_inner conn) @ out)"
      using w2(2) w1(3) by (simp add: close_keeps)
    ultimately show ?thesis unfolding Inr sum.case using w2(3) by blast
  qed
qed

lemma await_read_lookup: "await_read K f w = Some (r, m, w') \<Longrightarrow> lookup w' = lookup w"
  by (auto simp: await_read_def await_fut_def reader_entry_def build_def split: option.splits dest: read_keeps)

lemma read_request_lookup:
  assumes "read_request K conn buf req w = Some (Inr (r, w'))"
  shows "lookup w' = lookup w"
proof -
  have "K' = K \<longrightarrow> (\<forall>r v'. y = Inr (r, v') \<longrightarrow> lookup v' = lookup v)"
    if "read_request K' cn b rq v = Some y" for K' cn b rq v y
  proof (rule read_request.raw_induct [OF _ that], goal_cases)
    case (1 loop K' cn b rq v y)
    then show ?case by (auto split: if_splits option.splits sum.splits dest: await_read_lookup)
  qed
  with assms show ?thesis by blast
qed

lemma handle_connection_response:
  assumes "incoming w (ts_inner conn) = cs @ rest" "\<forall>c\<in>set cs. piece 1024 c" "early cs []" "complete (concat cs)"
    "request_line (concat cs) = Inr (m, p)" "0 \<notin> set (arg_webroot args) \<union> set p"
    "\<forall>f ps. lookup w f = Inr ps \<longrightarrow> (\<forall>c\<in>set ps. piece 4096 c) \<and> length (concat ps) < 2 ^ 63"
  shows "\<exists>r w' out. handle_connection args K X conn w = Some (Inr (r, w'))
    \<and> sent w' = (sent w)(ts_inner conn := sent w (ts_inner conn) @ out)
    \<and> sends (response (lookup w) m (served_file (arg_webroot args) p)) r out"
proof -
  from assms(2) have "\<forall>c\<in>set cs. piece (length (replicate 1024 (0 :: u8))) c" "length (replicate 1024 (0 :: u8)) < 2 ^ 31" by simp_all
  note rd = read_request_complete [OF assms(1) this assms(3,4)]
  obtain w1 where w1: "read_request K conn (replicate 1024 0) [] w = Some (Inr (Inr (concat cs), w1))" "sent w1 = sent w"
    by (rule rd)
  have lk: "lookup w1 = lookup w" by (rule read_request_lookup [OF w1(1)])
  have hdr: "\<exists>r w' out. map_option (\<lambda>(r, w'). Inr (r, sys_close X (ts_inner conn) w')) (send_response_hdr K conn code 0 w1)
      = Some (Inr (r, w')) \<and> sent w' = (sent w)(ts_inner conn := sent w (ts_inner conn) @ out) \<and> sends [answer (status code) 0] r out" for code
  proof -
    obtain r w2 out where "send_response_hdr K conn code 0 w1 = Some (r, w2)"
        "sent w2 = (sent w1)(ts_inner conn := sent w1 (ts_inner conn) @ out)" "sends [answer (status code) 0] r out"
      by (rule send_response_hdr_sends) (rule zero_less_power, rule zero_less_numeral)
    then show ?thesis by (auto simp: close_keeps w1(2))
  qed
  show ?thesis
  proof (cases "get_method m \<and> served_file (arg_webroot args) p \<noteq> None")
    case False
    then show ?thesis using w1(1) assms(5) hdr [of R_NotImplemented] hdr [of R_NotFound]
      by (auto simp: handle_connection_def response_def lowercase_get)
  next
    case True
    then obtain f where f: "served_file (arg_webroot args) p = Some f" by auto
    have "0 \<notin> set (bytes ''index.html'')" by code_simp
    with served_file_bytes [OF f] assms(6) have z: "0 \<notin> set f" by auto
    have "\<forall>ps. lookup w1 f = Inr ps \<longrightarrow> (\<forall>c\<in>set ps. piece 4096 c) \<and> length (concat ps) < 2 ^ 63" unfolding lk using assms(7) by blast
    from send_file_sends [OF z this, of conn] show ?thesis using True f w1 assms(5)
      by (simp add: handle_connection_def response_def lk lowercase_get)
  qed
qed

end

subsection \<open>The simulated file system\<close>

definition net_os :: "simnet os_api" where
  "net_os = \<lparr>
     errno = (\<lambda>w. 0),
     sys_close = (\<lambda>fd w. w\<lparr>n_closed := n_closed w @ [fd]\<rparr>),
     sys_dup = (\<lambda>fd w. (Inl (OsError 24), w)),
     sys_eventfd = (\<lambda>n fl w. (- 1, w)),
     sys_write = (\<lambda>fd b w. (- 1, w)),
     sys_lseek = (\<lambda>fd off whence w. if whence = SEEK_END then (of_nat (length (concat (n_data w fd))), w)
        else (0, w\<lparr>n_in := (n_in w)(fd := n_data w fd)\<rparr>)),
     sys_timerfd_create = (\<lambda>clock fl w. (- 1, w)),
     sys_timerfd_settime = (\<lambda>fd fl sec nsec w. (- 1, w)),
     sys_now = (\<lambda>w. (0, w)),
     sys_socket = (\<lambda>family type proto w. (- 1, w)),
     sys_bind = (\<lambda>fd addr n w. (- 1, w)),
     sys_listen = (\<lambda>fd backlog w. (- 1, w)),
     sys_udp_bind = (\<lambda>addrs w. (Inl (OsError 24), w)),
     little_endian = True \<rparr>"

definition net_lookup :: "simnet \<Rightarrow> u8 list \<Rightarrow> i32 + u8 list list" where
  "net_lookup w path = (case map_of (n_files w) path of
     None \<Rightarrow> Inl 2 | Some fd \<Rightarrow> if sint fd < 0 then Inl 13 else Inr (n_data w fd))"

definition net_opened :: "simnet \<Rightarrow> i32 \<Rightarrow> u8 list list option" where
  "net_opened w fd = Some (n_data w fd)"

interpretation simweb: web_files sim_kernel n_in n_out net_os net_lookup net_opened
proof (unfold_locales, goal_cases)
  case (2 fd b n off m w r m' w')
  then show ?case by (auto simp: sim_kernel_def net_lookup_def fun_eq_iff split: list.splits if_splits option.splits)
qed (auto simp: sim_kernel_def net_os_def net_lookup_def net_opened_def split: option.splits if_splits)

end
