(* ===== verification/WebServerProps.thy ===== *)
theory WebServerProps
  imports WebServerThms
begin

text \<open>The properties of the web server, each with an instance on the simulated network.\<close>

subsection \<open>Bodies\<close>

lemma padded_length: "length c \<le> 4096 \<Longrightarrow> length (padded c) = 4096"
  by (simp add: padded_def)

lemma body_bounds:
  assumes "\<forall>c\<in>set ps. piece 4096 c"
  shows "length (concat (map padded ps)) = 4096 * length ps" "length (concat ps) \<le> 4096 * length ps"
    "length (concat ps) = 4096 * length ps \<longleftrightarrow> (\<forall>c\<in>set ps. length c = 4096)"
  using assms
proof (induction ps)
  case (Cons c ps)
  { case 1 with Cons show ?case by (simp add: padded_length piece_def) }
  { case 2 with Cons(2) show ?case by (simp add: piece_def) }
  { case 3
    with Cons(2) have le: "length (concat ps) \<le> 4096 * length ps" "length c \<le> 4096" by (simp_all add: piece_def)
    have "length (concat (c # ps)) = 4096 * length (c # ps) \<longleftrightarrow> length c = 4096 \<and> length (concat ps) = 4096 * length ps"
      using le by (simp del: length_concat) linarith
    with Cons(3) 3 show ?case by simp }
qed simp_all

lemma body_prefix:
  assumes "\<forall>c\<in>set (butlast ps). length c = 4096"
  shows "take (length (concat ps)) (concat (map padded ps)) = concat ps"
  using assms
proof (induction ps)
  case (Cons c ps)
  show ?case
  proof (cases "ps = []")
    case False
    with Cons.prems have "length c = 4096" by simp
    with Cons False show ?thesis by (simp add: padded_def)
  qed (simp add: padded_def)
qed simp

subsection \<open>The request line\<close>

text \<open>Bytes that neither start nor end a character of white space.\<close>

abbreviation (input) graphic :: "u8 \<Rightarrow> bool" where
  "graphic b \<equiv> 33 \<le> b \<and> b \<le> 126"

lemma drop_any_stop:
  assumes "bs \<noteq> []" "\<forall>w\<in>set ws. w \<noteq> [] \<and> hd w \<noteq> hd bs"
  shows "drop_any ws n bs = bs"
proof -
  have "List.find (\<lambda>w. take (length w) bs = w) ws = None"
    using assms by (auto simp: find_None_iff neq_Nil_conv)
  then show ?thesis by (cases n) simp_all
qed

lemma white_space_ends: "w \<in> set white_space \<Longrightarrow> w \<noteq> [] \<and> \<not> graphic (hd w) \<and> \<not> graphic (last w)"
  by (auto simp: white_space_def)

lemma trim_start_graphic: "bs \<noteq> [] \<Longrightarrow> graphic (hd bs) \<Longrightarrow> trim_start bs = bs"
  unfolding trim_start_def by (rule drop_any_stop) (auto dest: white_space_ends)

lemma trim_end_cr:
  assumes "bs \<noteq> []" "graphic (last bs)"
  shows "trim_end (bs @ [13]) = bs"
proof -
  have "drop_any (map rev white_space) (Suc (length bs)) (13 # rev bs) = drop_any (map rev white_space) (length bs) (rev bs)"
    by (simp add: white_space_def)
  also have "\<dots> = rev bs"
    by (rule drop_any_stop) (use assms in \<open>auto dest: white_space_ends simp: hd_rev\<close>)
  finally show ?thesis by (simp add: trim_end_def)
qed

text \<open>A well-formed request line is read back as its method and its path.\<close>

lemma request_line_roundtrip:
  assumes "m \<noteq> []" "v \<noteq> []" "graphic (hd m)" "graphic (last v)" "32 \<notin> set m \<union> set p \<union> set v" "10 \<notin> set m \<union> set p \<union> set v"
  shows "request_line (m @ [32] @ p @ [32] @ v @ CRLF @ rest) = Inr (m, p)"
proof -
  let ?l = "m @ 32 # p @ 32 # v"
  have "m @ [32] @ p @ [32] @ v @ CRLF @ rest = (?l @ [13]) @ 10 # rest" by simp
  then have "hd (split_on 10 (m @ [32] @ p @ [32] @ v @ CRLF @ rest)) = ?l @ [13]"
    using assms(6) by (simp only: split_on_append) (simp add: split_on_single)
  moreover have "trim (?l @ [13]) = ?l"
    using assms(1-4) trim_end_cr [of ?l] by (simp add: trim_def trim_start_graphic)
  moreover have "split_on 32 ?l = [m, p, v]"
    using assms(5) split_on_append [of 32 m "p @ 32 # v"] split_on_append [of 32 p v] by (simp add: split_on_single)
  ultimately show ?thesis by (simp add: request_line_def)
qed

subsection \<open>The response to a request\<close>

text \<open>A client that asks for the start page in two pieces.\<close>

definition get_root :: "u8 list list" where
  "get_root = [bytes ''GET / HT'', bytes ''TP/1.1'' @ CRLF @ CRLF]"

definition one_file :: "u8 list list \<Rightarrow> u8 list \<Rightarrow> u8 list list \<Rightarrow> simnet" where
  "one_file req path data = \<lparr>n_in = (\<lambda>_. [])(5 := req), n_out = \<lambda>_. [], n_files = [(path, 7)],
     n_data = (\<lambda>_. [])(7 := data), n_closed = [], n_room = \<lambda>_. 9999\<rparr>"

lemma get_root_ok: "early get_root []" "complete (concat get_root)" "\<forall>c\<in>set get_root. piece 1024 c"
  "concat get_root = bytes ''GET'' @ [32] @ bytes ''/'' @ [32] @ bytes ''HTTP/1.1'' @ CRLF @ CRLF"
  by code_simp+

lemma response_nonempty: "[] \<notin> set (response look m dest)"
  by (auto simp: response_def answer_def padded_def bytes_def split: option.splits sum.splits)



text \<open>
  C21. The file of a request lies below the web root as far as its components go: they are those
  of the web root, followed by those of the requested path (\<open>index.html\<close> for the root). A path
  without a leading separator is not served.
\<close>

theorem served_path:
  assumes "webroot \<noteq> []"
  shows "map_option components (served_file webroot path) =
    (if path \<noteq> [] \<and> hd path = 47
     then Some (components webroot @ (if body path = [] then [Normal (bytes ''index.html'')] else body path))
     else None)"
  by (rule served_file_components [OF assms])

theorem served_path_witness:
  "map_option components (served_file (bytes ''/srv'') (bytes ''/../etc/passwd'')) =
     Some [RootDir, Normal (bytes ''srv''), ParentDir, Normal (bytes ''etc''), Normal (bytes ''passwd'')]"
proof -
  have b: "body (bytes ''/../etc/passwd'') = [ParentDir, Normal (bytes ''etc''), Normal (bytes ''passwd'')]"
    "components (bytes ''/srv'') = [RootDir, Normal (bytes ''srv'')]" "hd (bytes ''/../etc/passwd'') = 47" by code_simp+
  have "bytes ''/srv'' \<noteq> []" "bytes ''/../etc/passwd'' \<noteq> []" by (simp_all add: bytes_def)
  with served_path [of "bytes ''/srv''" "bytes ''/../etc/passwd''"] b show ?thesis by simp
qed

text \<open>The number that decimal digits denote.\<close>

definition digits_value :: "u8 list \<Rightarrow> nat" where
  "digits_value ds = foldl (\<lambda>v d. 10 * v + (unat d - 48)) 0 ds"

lemma decimal_digits: "digits_value (decimal n) = n \<and> (\<forall>d\<in>set (decimal n). 48 \<le> d \<and> d \<le> 57)"
proof (induction n rule: decimal.induct)
  case (1 n)
  have d: "unat (48 + of_nat k :: u8) = 48 + k" "48 \<le> (48 + of_nat k :: u8)" "(48 + of_nat k :: u8) \<le> 57" if "k < 10" for k
  proof -
    have "unat (of_nat k :: u8) = k" using that by (simp add: unat_of_nat take_bit_nat_eq_self)
    then show "unat (48 + of_nat k :: u8) = 48 + k" using that by (subst unat_add_lem [THEN iffD1]) simp_all
    then show "48 \<le> (48 + of_nat k :: u8)" "(48 + of_nat k :: u8) \<le> 57" using that by (simp_all add: word_le_nat_alt)
  qed
  show ?case
  proof (cases "n < 10")
    case True
    then show ?thesis using d [of n] by (subst (1 2) decimal.simps) (simp add: digits_value_def)
  next
    case False
    then have "digits_value (decimal n) = 10 * digits_value (decimal (n div 10)) + n mod 10"
      using d [of "n mod 10"] by (subst decimal.simps) (simp add: digits_value_def)
    moreover have "set (decimal n) = insert (48 + of_nat (n mod 10)) (set (decimal (n div 10)))"
      using False by (subst decimal.simps) auto
    ultimately show ?thesis using 1 [OF False] d(2,3) [of "n mod 10"] by simp
  qed
qed



text \<open>A short write of the header: the client gets its first five bytes, and no error is reported.\<close>

lemma short_write_lost:
  "\<exists>w'. send_response_hdr sim_kernel \<lparr>ts_inner = 5\<rparr> R_NotFound 0 ((one_file [] [] [])\<lparr>n_room := \<lambda>_. 5\<rparr>) = Some (Inr (), w')
     \<and> n_out w' 5 = bytes ''HTTP/''"
proof -
  have "min (length (response_hdr R_NotFound 0)) 5 = 5" "take 5 (response_hdr R_NotFound 0) = bytes ''HTTP/''" by code_simp+
  then show ?thesis
    by (simp add: send_response_hdr_def await_write_def await_fut_def tcp_write_def writer_entry_def build_def sim_kernel_def one_file_def
        reactor_value_to_result_def i32_as_usize_def map_io_def)
qed

subsection \<open>Requests\<close>

text \<open>
  C23. The request is what the reads returned. Whatever the kernel does, the loop returns a request
  exactly when the next reads of the connection return pieces that are valid UTF-8, each by
  itself, and complete the request, and none but all of them does; the request is their
  concatenation, without any other byte of the buffer they are read into.
\<close>

theorem request_string:
  "read_request K conn buf [] w = Some (Inr (Inr request, w')) \<longleftrightarrow>
     (\<exists>cs. received K conn buf w cs w' \<and> request = concat cs \<and> (\<forall>c\<in>set cs. utf8 c)
        \<and> contains_sub ([13, 10] @ [13, 10]) request \<and> (\<forall>k<length cs. \<not> contains_sub ([13, 10] @ [13, 10]) (concat (take k cs))))"
  using read_request_received [of K conn buf "[]" w request w'] received_read_request [of K conn buf w _ w' "[]"]
  by (auto simp: early_iff)

theorem request_string_witness:
  "\<exists>w' cs. read_request sim_kernel \<lparr>ts_inner = 5\<rparr> (replicate 1024 0) [] (one_file get_root [] []) = Some (Inr (Inr (concat get_root), w'))
     \<and> received sim_kernel \<lparr>ts_inner = 5\<rparr> (replicate 1024 0) (one_file get_root [] []) cs w' \<and> concat cs = concat get_root"
proof -
  obtain w' where rd: "read_request sim_kernel \<lparr>ts_inner = 5\<rparr> (replicate 1024 0) [] (one_file get_root [] []) =
      Some (Inr (Inr (concat get_root), w'))"
    by (rule simst.read_request_complete [of "one_file get_root [] []" "\<lparr>ts_inner = 5\<rparr>" get_root "[]" "replicate 1024 0"])
       (use get_root_ok in \<open>simp_all add: one_file_def\<close>)
  from request_string [THEN iffD1, OF rd] rd show ?thesis by metis
qed

text \<open>
  C38. A client that closes the connection before the end of the header leaves the server in a
  loop for ever: each further read returns nothing.
\<close>

theorem truncated_request:
  assumes "streams K incoming sent"
    and "incoming w (ts_inner conn) = cs" "\<forall>c\<in>set cs. piece 1024 c" "early cs []"
      "\<not> contains_sub ([13, 10] @ [13, 10]) (concat cs)"
  shows "handle_connection args K X conn w = None"
proof -
  have "read_request K conn (replicate 1024 0) [] w = None"
    by (rule streams.read_request_eof [OF assms(1,2)]) (use assms(3-5) in simp_all)
  then show ?thesis by (simp add: handle_connection_def)
qed

theorem truncated_request_witness:
  "handle_connection \<lparr>arg_port = 80, arg_webroot = bytes ''w''\<rparr> sim_kernel net_os \<lparr>ts_inner = 5\<rparr>
     (one_file [bytes ''GET / HT''] [] []) = None"
proof -
  have "early [bytes ''GET / HT''] [] \<and> \<not> complete (concat [bytes ''GET / HT'']) \<and> (\<forall>c\<in>set [bytes ''GET / HT'']. piece 1024 c)"
    by code_simp
  then show ?thesis
    by (intro truncated_request [OF simst.streams_axioms, of _ _ "[bytes ''GET / HT'']"]) (simp_all add: one_file_def)
qed

text \<open>
  C39. Requests the server panics on: a piece that is not valid UTF-8 by itself, which includes a
  valid request in which a character is split between two reads; a request line without a
  space; a path with a zero byte.
\<close>

theorem malformed_request:
  assumes "streams K incoming sent" "incoming w (ts_inner conn) = cs @ rest" "\<forall>c\<in>set cs. piece 1024 c"
    and "(\<exists>cs' c. cs = cs' @ [c] \<and> early cs' [] \<and> \<not> contains_sub ([13, 10] @ [13, 10]) (concat cs') \<and> \<not> utf8 c)
      \<or> early cs [] \<and> contains_sub ([13, 10] @ [13, 10]) (concat cs) \<and>
          (32 \<notin> set (trim (takeWhile (\<lambda>b. b \<noteq> 10) (concat cs)))
         \<or> (\<exists>m p f. request_line (concat cs) = Inr (m, p) \<and> lowercase_is ''get'' m
              \<and> served_file (arg_webroot args) p = Some f \<and> 0 \<in> set f))"
  shows "\<exists>e. handle_connection args K X conn w = Some (Inl e)"
  using assms(4)
proof (elim disjE exE conjE)
  fix cs' c
  assume c: "cs = cs' @ [c]" "early cs' []" "\<not> contains_sub ([13, 10] @ [13, 10]) (concat cs')" "\<not> utf8 c"
  have "read_request K conn (replicate 1024 0) [] w = Some (Inl UnwrapErr)"
    by (rule streams.read_request_invalid [OF assms(1), of w conn cs' c rest]) (use assms(2,3) c in simp_all)
  then show ?thesis by (simp add: handle_connection_def)
next
  assume c: "early cs []" "contains_sub ([13, 10] @ [13, 10]) (concat cs)"
  have b: "\<forall>c\<in>set cs. piece (length (replicate 1024 (0 :: u8))) c" "length (replicate 1024 (0 :: u8)) < 2 ^ 31" using assms(3) by simp_all
  obtain w1 where w1: "read_request K conn (replicate 1024 0) [] w = Some (Inr (Inr (concat cs), w1))"
    by (rule streams.read_request_complete [OF assms(1,2) b c])
  { assume "32 \<notin> set (trim (takeWhile (\<lambda>b. b \<noteq> 10) (concat cs)))"
    then have "request_line (concat cs) = Inl (PanicMsg ''index out of bounds'')"
      by (simp add: request_line_def hd_split_on split_on_single Let_def)
    with w1 show ?thesis by (simp add: handle_connection_def) }
  { fix m p f
    assume "request_line (concat cs) = Inr (m, p)" "lowercase_is ''get'' m" "served_file (arg_webroot args) p = Some f" "0 \<in> set f"
    with w1 show ?thesis by (simp add: handle_connection_def send_file_def file_open_def cstring_new_def) }
qed

definition split_char :: "u8 list list" where
  "split_char = [bytes ''GET /'' @ [0xC3], [0xA9] @ bytes '' HTTP/1.1'' @ CRLF @ CRLF]"

theorem malformed_request_witness:
  "utf8 (concat split_char) \<and> (\<exists>e. handle_connection \<lparr>arg_port = 80, arg_webroot = bytes ''w''\<rparr> sim_kernel net_os \<lparr>ts_inner = 5\<rparr>
     (one_file split_char [] []) = Some (Inl e))"
proof
  show "utf8 (concat split_char)" by code_simp
  let ?c = "bytes ''GET /'' @ [0xC3 :: u8]"
  have c: "\<not> utf8 ?c \<and> piece 1024 ?c \<and> early [] [] \<and> \<not> complete (concat [])" by code_simp
  then have "\<exists>cs' c. [?c] = cs' @ [c] \<and> early cs' [] \<and> \<not> complete (concat cs') \<and> \<not> utf8 c"
    by (intro exI [of _ "[]"] exI [of _ ?c]) simp
  moreover have "n_in (one_file split_char [] []) 5 = [?c] @ tl split_char" by (simp add: one_file_def split_char_def)
  ultimately show "\<exists>e. handle_connection \<lparr>arg_port = 80, arg_webroot = bytes ''w''\<rparr> sim_kernel net_os \<lparr>ts_inner = 5\<rparr>
      (one_file split_char [] []) = Some (Inl e)"
    using c by (intro malformed_request [OF simst.streams_axioms, of _ _ "[?c]" "tl split_char"]) simp_all
qed

end
