(* ===== verification/AsyncBlock.thy ===== *)
theory AsyncBlock
  imports Await MutexThms
begin

text \<open>
  Async blocks. The compiler makes a state machine of an \<open>async\<close> block or function: a poll runs
  the code up to the next await whose future is pending and keeps that future. Here a block is
  given by its code between two awaits, \<open>step\<close>: from a point of the block and the system it
  returns a value, panics, or awaits a future, with the point where it goes on. \<open>block_poll\<close> is
  the poll of the state machine, \<open>direct_run\<close> the block read in direct style.
\<close>

subsection \<open>The futures that are awaited\<close>

datatype IoFut = F_Read AsyncReader | F_Write AsyncWriter | F_Open FileOpen

datatype io_out = O_Count (out_count: "usize io_result") | O_File (out_file: "File io_result")

fun iof_io :: "IoFut \<Rightarrow> OneshotIoState" where
  "iof_io (F_Read f) = ar_io f"
| "iof_io (F_Write f) = aw_io f"
| "iof_io (F_Open f) = fo_io f"

fun iof_set_io :: "OneshotIoState \<Rightarrow> IoFut \<Rightarrow> IoFut" where
  "iof_set_io st (F_Read f) = F_Read (f\<lparr>ar_io := st\<rparr>)"
| "iof_set_io st (F_Write f) = F_Write (f\<lparr>aw_io := st\<rparr>)"
| "iof_set_io st (F_Open f) = F_Open (f\<lparr>fo_io := st\<rparr>)"

text \<open>The memory the operation of a future points to, and what the kernel leaves there.\<close>

fun iof_mem :: "IoFut \<Rightarrow> u8 list" where
  "iof_mem (F_Read f) = ar_buf f"
| "iof_mem (F_Write f) = aw_buf f"
| "iof_mem (F_Open f) = fo_path f"

fun iof_set_mem :: "u8 list \<Rightarrow> IoFut \<Rightarrow> IoFut" where
  "iof_set_mem m (F_Read f) = F_Read (f\<lparr>ar_buf := m\<rparr>)"
| "iof_set_mem m (F_Write f) = F_Write (f\<lparr>aw_buf := m\<rparr>)"
| "iof_set_mem m (F_Open f) = F_Open (f\<lparr>fo_path := m\<rparr>)"

fun iof_entry :: "IoFut \<Rightarrow> Entry" where
  "iof_entry (F_Read f) = reader_entry f"
| "iof_entry (F_Write f) = writer_entry f"
| "iof_entry (F_Open f) = file_open_entry f"

fun iof_out :: "IoFut \<Rightarrow> i32 io_result \<Rightarrow> io_out" where
  "iof_out (F_Open f) r = O_File (map_io (\<lambda>x. \<lparr>f_inner = x\<rparr>) r)"
| "iof_out _ r = O_Count (map_io i32_as_usize r)"

definition iof_poll :: "('u, 'ps, 'os, 'ms, 'rb, 't) deps \<Rightarrow> ('u, 'ps, 'os, 'ms, 't, IoFut, io_out) fpoll" where
  "iof_poll D waker f i = (case f of
     F_Read r \<Rightarrow> rbind (async_reader_poll D waker r i) (\<lambda>(p, r', i'). Inr (map_poll O_Count p, F_Read r', i'))
   | F_Write r \<Rightarrow> rbind (async_writer_poll D waker r i) (\<lambda>(p, r', i'). Inr (map_poll O_Count p, F_Write r', i'))
   | F_Open r \<Rightarrow> rbind (file_open_poll D waker r i) (\<lambda>(p, r', i'). Inr (map_poll O_File p, F_Open r', i')))"

lemma iof_set_simps [simp]:
  "iof_io (iof_set_io st f) = st" "iof_mem (iof_set_io st f) = iof_mem f" "iof_io (iof_set_mem m f) = iof_io f"
  "iof_mem (iof_set_mem m f) = m" "iof_out (iof_set_io st f) = iof_out f" "iof_out (iof_set_mem m f) = iof_out f"
  "iof_entry (iof_set_io st f) = iof_entry f"
  by (cases f; simp add: reader_entry_def writer_entry_def file_open_entry_def fun_eq_iff)+

text \<open>All three are polled in the same way.\<close>

lemma submit_or_get_this:
  "oneshot_submit_or_get_result D (\<lambda>this. Inr ((e this, a), this)) st i x =
     rbind (oneshot_submit_or_get_result D (\<lambda>u. Inr ((e x, a), u)) st i ()) (\<lambda>(p, st', i', _). Inr (p, st', i', x))"
proof (cases st)
  case OS_New
  then show ?thesis by (cases "submit_io D i (e x) a Oneshot") (auto simp: oneshot_submit_or_get_result_def)
next
  case (OS_Submitted k)
  then show ?thesis by (cases "oneshot_get_result (one D) (get_oneshot i) k") (auto simp: oneshot_submit_or_get_result_def)
qed (simp add: oneshot_submit_or_get_result_def)

lemma iof_poll_eq:
  "iof_poll D w f i = rbind (oneshot_submit_or_get_result D (\<lambda>u. Inr ((iof_entry f, w), u)) (iof_io f) i ())
     (\<lambda>(x, io', i', _). Inr (map_poll (iof_out f) x, iof_set_io io' f, i'))"
proof -
  have out: "iof_out (F_Open g) = (\<lambda>r. O_File (map_io (\<lambda>x. \<lparr>f_inner = x\<rparr>) r))"
    "iof_out (F_Read g') = (\<lambda>r. O_Count (map_io i32_as_usize r))" "iof_out (F_Write g'') = (\<lambda>r. O_Count (map_io i32_as_usize r))" for g g' g''
    by (simp_all add: fun_eq_iff)
  have "map_poll k (map_poll g x) = map_poll (\<lambda>y. k (g y)) x" for k g x by (cases x) simp_all
  then show ?thesis
    by (cases f; cases "oneshot_submit_or_get_result D (\<lambda>u. Inr ((iof_entry f, w), u)) (iof_io f) i ()")
       (auto simp: iof_poll_def async_reader_poll_def async_writer_poll_def file_open_poll_def out
          submit_or_get_this [where e = reader_entry] submit_or_get_this [where e = writer_entry]
          submit_or_get_this [where e = file_open_entry])
qed

subsection \<open>Blocks\<close>

datatype ('q, 'r, 'w) act = A_Return 'r 'w | A_Panic panic | A_Await IoFut "io_out \<Rightarrow> u8 list \<Rightarrow> 'q" 'w

partial_function (option) direct_run :: "'w kernel \<Rightarrow> ('q \<Rightarrow> 'w \<Rightarrow> ('q, 'r, 'w) act) \<Rightarrow> 'q \<Rightarrow> 'w \<Rightarrow> ('r \<times> 'w) rs option" where
  "direct_run K step q w = (case step q w of
     A_Return r w1 \<Rightarrow> Some (Inr (r, w1))
   | A_Panic p \<Rightarrow> Some (Inl p)
   | A_Await f k w1 \<Rightarrow> (case k_run K (entry_op (iof_entry f)) (iof_mem f) w1 of
       None \<Rightarrow> None
     | Some (r, m, w2) \<Rightarrow> direct_run K step (k (iof_out f (reactor_value_to_result r)) m) w2))"

datatype 'q async_state = At 'q | Waiting IoFut "io_out \<Rightarrow> u8 list \<Rightarrow> 'q" | Ended

partial_function (option) block_advance :: "('u, 'ps, 'os, 'ms, 'rb, 't) deps \<Rightarrow> ('q \<Rightarrow> 'w \<Rightarrow> ('q, 'r, 'w) act) \<Rightarrow> 't \<Rightarrow> 'q \<Rightarrow>
    ('u, 'ps, 'os, 'ms) inner \<Rightarrow> 'w \<Rightarrow> ('r Poll \<times> 'q async_state \<times> ('u, 'ps, 'os, 'ms) inner \<times> 'w) rs option" where
  "block_advance D step a q i w = (case step q w of
     A_Return r w1 \<Rightarrow> Some (Inr (Poll_Ready r, Ended, i, w1))
   | A_Panic p \<Rightarrow> Some (Inl p)
   | A_Await f k w1 \<Rightarrow> (case iof_poll D a f i of
       Inl p \<Rightarrow> Some (Inl p)
     | Inr (p, f', i') \<Rightarrow> (case p of
         Poll_Pending \<Rightarrow> Some (Inr (Poll_Pending, Waiting f' k, i', w1))
       | Poll_Ready x \<Rightarrow> (case oneshot_io_drop D (iof_io f') i' of
           Inl p \<Rightarrow> Some (Inl p)
         | Inr i2 \<Rightarrow> block_advance D step a (k x (iof_mem f')) i2 w1))))"

definition block_poll :: "('u, 'ps, 'os, 'ms, 'rb, 't) deps \<Rightarrow> ('q \<Rightarrow> 'w \<Rightarrow> ('q, 'r, 'w) act) \<Rightarrow> 't \<Rightarrow> 'q async_state \<Rightarrow>
    ('u, 'ps, 'os, 'ms) inner \<Rightarrow> 'w \<Rightarrow> ('r Poll \<times> 'q async_state \<times> ('u, 'ps, 'os, 'ms) inner \<times> 'w) rs option" where
  "block_poll D step a st i w = (case st of
     At q \<Rightarrow> block_advance D step a q i w
   | Waiting f k \<Rightarrow> (case iof_poll D a f i of
       Inl p \<Rightarrow> Some (Inl p)
     | Inr (p, f', i') \<Rightarrow> (case p of
         Poll_Pending \<Rightarrow> Some (Inr (Poll_Pending, Waiting f' k, i', w))
       | Poll_Ready x \<Rightarrow> (case oneshot_io_drop D (iof_io f') i' of
           Inl p \<Rightarrow> Some (Inl p)
         | Inr i2 \<Rightarrow> block_advance D step a (k x (iof_mem f')) i2 w)))
   | Ended \<Rightarrow> Some (Inl (PanicMsg ''async fn resumed after completion'')))"

text \<open>
  The point of the block at which a poll goes on: where it stands, or behind the await whose
  future is ready. \<open>refuses\<close>: there it awaits a future whose operation the reactor does not take,
  since the slab or the submission queue is full, and the poll panics for that reason.
\<close>

definition goes_on :: "('u, 'ps, 'os, 'ms, 'rb, 't) deps \<Rightarrow> 't \<Rightarrow> 'q async_state \<Rightarrow> ('u, 'ps, 'os, 'ms) inner \<Rightarrow>
    ('q \<times> ('u, 'ps, 'os, 'ms) inner) option" where
  "goes_on D a st i = (case st of
     At q \<Rightarrow> Some (q, i)
   | Waiting f k \<Rightarrow> (case iof_poll D a f i of
       Inr (Poll_Ready x, f', i') \<Rightarrow> (case oneshot_io_drop D (iof_io f') i' of
         Inr i2 \<Rightarrow> Some (k x (iof_mem f'), i2) | Inl _ \<Rightarrow> None)
     | _ \<Rightarrow> None)
   | Ended \<Rightarrow> None)"

definition refuses :: "('u, 'ps, 'os, 'ms, 'rb, 't) deps \<Rightarrow> ('q \<Rightarrow> 'w \<Rightarrow> ('q, 'r, 'w) act) \<Rightarrow> 't \<Rightarrow> 'q async_state \<Rightarrow>
    ('u, 'ps, 'os, 'ms) inner \<Rightarrow> 'w \<Rightarrow> panic option" where
  "refuses D step a st i w = (case goes_on D a st i of
     None \<Rightarrow> None
   | Some (q, i0) \<Rightarrow> (case step q w of
       A_Await f k w1 \<Rightarrow> (case submit_io D i0 (iof_entry f) a Oneshot of Inl p \<Rightarrow> Some p | Inr _ \<Rightarrow> None)
     | _ \<Rightarrow> None))"

text \<open>
  A block driven to its end by polls with the waker \<open>a\<close>. After a poll that is pending, the
  reactor does other things, the kernel performs the operation, its completion is processed,
  and other things happen again, before the next poll. The handle of the block's futures is \<open>h\<close>.
  The block returns or panics by itself, or an operation of it is refused.
\<close>

datatype 'x driven = Done_With 'x | Refused panic

inductive drives :: "('u, 'ps, 'os, 'ms, 'rb, 't) deps \<Rightarrow> 'w kernel \<Rightarrow> ('q \<Rightarrow> 'w \<Rightarrow> ('q, 'r, 'w) act) \<Rightarrow> 't \<Rightarrow> nat \<Rightarrow>
    'q async_state \<Rightarrow> ('u, 'ps, 'os, 'ms) rsys \<Rightarrow> 'w \<Rightarrow> ('r \<times> 'w) rs driven \<Rightarrow> bool"
  for D K step a h where
  d_done: "block_poll D step a st (ri s) w = Some (Inr (Poll_Ready r, st', i', w')) \<Longrightarrow> drives D K step a h st s w (Done_With (Inr (r, w')))"
| d_panic: "block_poll D step a st (ri s) w = Some (Inl p) \<Longrightarrow> refuses D step a st (ri s) w = None \<Longrightarrow>
    drives D K step a h st s w (Done_With (Inl p))"
| d_refused: "block_poll D step a st (ri s) w = Some (Inl p) \<Longrightarrow> refuses D step a st (ri s) w = Some p \<Longrightarrow>
    drives D K step a h st s w (Refused p)"
| d_wait: "block_poll D step a st (ri s) w = Some (Inr (Poll_Pending, Waiting f k, i', w1)) \<Longrightarrow>
    rsteps D (s\<lparr>ri := i', ones := (ones s)(h \<mapsto> iof_io f), inflight := (inflight s)(next_ud D s \<mapsto> Oneshot)\<rparr>) evs s2 \<Longrightarrow>
    \<forall>ev\<in>set evs. \<not> uses_oneshot h ev \<and> \<not> completes (next_ud D s) ev \<Longrightarrow>
    k_run K (entry_op (iof_entry f)) (iof_mem f) w1 = Some (cqe_result c, m, w2) \<Longrightarrow> cqe_user_data c = next_ud D s \<Longrightarrow>
    complete_cqe D c s2 = Inr (b, s3) \<Longrightarrow> rsteps D s3 evs' s4 \<Longrightarrow> \<forall>ev\<in>set evs'. \<not> uses_oneshot h ev \<Longrightarrow>
    drives D K step a h (Waiting (iof_set_mem m f) k) s4 w2 out \<Longrightarrow> drives D K step a h st s w out"

subsection \<open>One poll\<close>

text \<open>What a block relies on: a future is new when it is awaited. Its first poll submits the operation, or panics.\<close>

locale async_block = reactor_deps D
  for D :: "('u, 'ps, 'os, 'ms, 'rb, 't) deps" +
  fixes step :: "'q \<Rightarrow> 'w \<Rightarrow> ('q, 'r, 'w) act"
  assumes fresh: "step q w = A_Await f k w1 \<Longrightarrow> iof_io f = OS_New"
begin

definition resumes :: "'q async_state \<Rightarrow> ('u, 'ps, 'os, 'ms) rsys \<Rightarrow> nat \<Rightarrow> 'q \<Rightarrow> bool" where
  "resumes st s h q \<longleftrightarrow> (case st of
     At q' \<Rightarrow> q' = q \<and> ones s h = None
   | Waiting f k \<Rightarrow> (\<exists>v. has_result s h v \<and> ones s h = Some (iof_io f) \<and> q = k (iof_out f (reactor_value_to_result v)) (iof_mem f))
   | Ended \<Rightarrow> False)"

lemma poll_resumes:
  assumes inv: "rinv D s" and st: "resumes st s h q"
  obtains s0 evs where "block_poll D step a st (ri s) w = block_advance D step a q (ri s0) w" "rsteps D s evs s0" "rinv D s0"
    "s0 = s\<lparr>ri := ri s0, ones := (ones s)(h := None)\<rparr>" "next_ud D s0 = next_ud D s" "goes_on D a st (ri s) = Some (q, ri s0)"
proof (cases st)
  case (At q')
  with st have "q' = q" "ones s h = None" by (simp_all add: resumes_def)
  with At inv that [of s "[]"] show thesis by (simp add: block_poll_def goes_on_def rsteps_simps fun_upd_idem)
next
  case (Waiting f k)
  with st obtain v where v: "has_result s h v" "ones s h = Some (iof_io f)"
    "q = k (iof_out f (reactor_value_to_result v)) (iof_mem f)" by (auto simp: resumes_def)
  from v(1,2) obtain n where n: "iof_io f = OS_Submitted n" "ones s h = Some (OS_Submitted n)"
    "slab_get (one D) (get_oneshot (ri s)) n = Some (RS_Set v)" by (auto simp: has_result_def)
  from os.get_set_result [OF n(3)] obtain o1 where o1: "oneshot_get_result (one D) (get_oneshot (ri s)) n = Inr (Some v, o1)" by blast
  let ?s0 = "s\<lparr>ri := set_oneshot o1 (ri s), ones := (ones s)(h := None)\<rparr>"
  have "block_poll D step a st (ri s) w = block_advance D step a q (ri ?s0) w"
    by (simp add: block_poll_def Waiting iof_poll_eq n(1) submit_or_get_ready [OF o1] oneshot_io_drop_def v(3))
  moreover have "goes_on D a st (ri s) = Some (q, ri ?s0)"
    by (simp add: goes_on_def Waiting iof_poll_eq n(1) submit_or_get_ready [OF o1] oneshot_io_drop_def v(3))
  moreover have run: "rsteps D s [PollOneshot h undefined undefined, DropOneshot h] ?s0"
    using n(2) by (simp add: rsteps_simps poll_oneshot_def submit_or_get_ready [OF o1] oneshot_io_drop_def)
  moreover have "next_ud D ?s0 = next_ud D s" by (simp add: next_ud_def)
  ultimately show thesis using that [of ?s0] rsteps_inv [OF run inv] by simp
qed (use st in \<open>simp add: resumes_def\<close>)

lemma poll_at:
  assumes "rinv D s" "resumes st s h q"
  obtains i0 where "block_poll D step a st (ri s) w = block_advance D step a q i0 w" "goes_on D a st (ri s) = Some (q, i0)"
  by (rule poll_resumes [OF assms])

lemma advance_await:
  assumes inv: "rinv D s" and h: "ones s h = None" and st: "step q w = A_Await f k w1"
  obtains (full) p where "submit_io D (ri s) (iof_entry f) a Oneshot = Inl p" "block_advance D step a q (ri s) w = Some (Inl p)"
  | (waits) n i where "block_advance D step a q (ri s) w = Some (Inr (Poll_Pending, Waiting (iof_set_io (OS_Submitted n) f) k, i, w1))"
    "rinv D (s\<lparr>ri := i, ones := (ones s)(h \<mapsto> OS_Submitted n), inflight := (inflight s)(next_ud D s \<mapsto> Oneshot)\<rparr>)"
    "awaits (s\<lparr>ri := i, ones := (ones s)(h \<mapsto> OS_Submitted n), inflight := (inflight s)(next_ud D s \<mapsto> Oneshot)\<rparr>) h (next_ud D s) a"
proof (cases "submit_io D (ri s) (iof_entry f) a Oneshot")
  case (Inl p)
  have "block_advance D step a q (ri s) w = Some (Inl p)"
    by (subst block_advance.simps) (simp add: st iof_poll_eq fresh [OF st] oneshot_submit_or_get_result_def Inl)
  with Inl show thesis by (rule full)
next
  case (Inr r)
  obtain ud n i where sub: "submit_io D (ri s) (iof_entry f) a Oneshot = Inr ((ud, n), i)"
    using Inr by (cases r; cases "fst r") auto
  let ?r = "s\<lparr>ones := (ones s)(h \<mapsto> OS_New)\<rparr>"
  let ?s1 = "s\<lparr>ri := i, ones := (ones s)(h \<mapsto> OS_Submitted n), inflight := (inflight s)(next_ud D s \<mapsto> Oneshot)\<rparr>"
  have inv1: "rinv D ?r" by (rule rstep_inv [OF inv, of "NewOneshot h"]) (simp_all add: h oneshot_io_new_def)
  have ud: "next_ud D ?r = next_ud D s" by (simp add: next_ud_def)
  have poll: "poll_oneshot D h (iof_entry f) a ?r = Inr (Poll_Pending, ?s1)"
    using sub by (simp add: poll_oneshot_new ud)
  have "block_advance D step a q (ri s) w = Some (Inr (Poll_Pending, Waiting (iof_set_io (OS_Submitted n) f) k, i, w1))"
    by (subst block_advance.simps)
       (simp add: st iof_poll_eq fresh [OF st] oneshot_submit_or_get_result_def sub poll_of_state_def)
  moreover have "rinv D ?s1" by (rule rstep_inv [OF inv1, of "PollOneshot h (iof_entry f) a"]) (simp_all add: poll)
  moreover have "awaits ?s1 h (next_ud D s) a" using submit_awaits [OF inv1 _ poll] by (simp add: ud)
  ultimately show thesis by (rule waits)
qed

subsection \<open>Polling and direct style\<close>

text \<open>One turn: a poll that waits, or panics as its operation cannot be submitted, and the state in which its result has come.\<close>

lemma turn:
  assumes inv: "rinv D s" and st: "resumes st s h q" and aw: "step q w = A_Await f k w1"
  obtains (full) p where "refuses D step a st (ri s) w = Some p" "block_poll D step a st (ri s) w = Some (Inl p)"
  | (waits) n i where "block_poll D step a st (ri s) w = Some (Inr (Poll_Pending, Waiting (iof_set_io (OS_Submitted n) f) k, i, w1))"
    "rinv D (s\<lparr>ri := i, ones := (ones s)(h \<mapsto> OS_Submitted n), inflight := (inflight s)(next_ud D s \<mapsto> Oneshot)\<rparr>)"
    "awaits (s\<lparr>ri := i, ones := (ones s)(h \<mapsto> OS_Submitted n), inflight := (inflight s)(next_ud D s \<mapsto> Oneshot)\<rparr>) h (next_ud D s) a"
proof -
  obtain s0 evs where s0: "block_poll D step a st (ri s) w = block_advance D step a q (ri s0) w" "rinv D s0"
    "s0 = s\<lparr>ri := ri s0, ones := (ones s)(h := None)\<rparr>" "next_ud D s0 = next_ud D s" "goes_on D a st (ri s) = Some (q, ri s0)"
    by (rule poll_resumes [OF inv st])
  have h: "ones s0 h = None" by (subst s0(3)) simp
  show thesis
  proof (cases rule: advance_await [OF s0(2) h aw, where a = a])
    case (1 p)
    with s0(1,5) aw show thesis by (intro full [of p]) (simp_all add: refuses_def)
  next
    case (2 n i)
    have "s0\<lparr>ri := i, ones := (ones s0)(h \<mapsto> OS_Submitted n), inflight := (inflight s0)(next_ud D s0 \<mapsto> Oneshot)\<rparr> =
        s\<lparr>ri := i, ones := (ones s)(h \<mapsto> OS_Submitted n), inflight := (inflight s)(next_ud D s \<mapsto> Oneshot)\<rparr>"
      unfolding s0(4) by (subst (1 2 3) s0(3)) simp
    with 2 s0 show thesis by (intro waits [of n i]) simp_all
  qed
qed

lemma completed_resumes:
  assumes inv: "rinv D s1" and aw: "awaits s1 h ud a" and o: "ones s1 h = Some (OS_Submitted n)"
    and run: "rsteps D s1 evs s2" "\<forall>ev\<in>set evs. \<not> uses_oneshot h ev \<and> \<not> completes ud ev"
    and c: "cqe_user_data c = ud" "complete_cqe D c s2 = Inr (b, s3)"
    and run': "rsteps D s3 evs' s4" "\<forall>ev\<in>set evs'. \<not> uses_oneshot h ev"
  shows "b = a" "rinv D s4"
    "resumes (Waiting (iof_set_mem m (iof_set_io (OS_Submitted n) f)) k) s4 h (k (iof_out f (reactor_value_to_result (cqe_result c))) m)"
proof -
  note inv2 = rsteps_inv [OF run(1) inv]
  have "awaits s2 h (cqe_user_data c) a" using rsteps_awaits [OF run(1) inv aw run(2)] c(1) by simp
  from complete_awaits [OF inv2 this] c(2) have s3: "b = a" "rinv D s3" "has_result s3 h (cqe_result c)" by auto
  have "ones s2 h = Some (OS_Submitted n)" by (rule rsteps_ones [OF run(1) _ o]) (use run(2) in blast)
  then have "ones s3 h = Some (OS_Submitted n)" using c(2) by (auto simp: complete_cqe_def rbind_eq_Inr)
  then have o4: "ones s4 h = Some (OS_Submitted n)" by (rule rsteps_ones [OF run'])
  show "b = a" by (rule s3(1))
  show "rinv D s4" by (rule rsteps_inv [OF run'(1) s3(2)])
  show "resumes (Waiting (iof_set_mem m (iof_set_io (OS_Submitted n) f)) k) s4 h (k (iof_out f (reactor_value_to_result (cqe_result c))) m)"
    using rsteps_has_result [OF run'(1) s3(2,3) run'(2)] o4 by (auto simp: resumes_def)
qed

text \<open>A point whose code returns or panics awaits nothing, and nothing is refused there.\<close>

lemma refuses_await: "goes_on D a st i = Some (q, i0) \<Longrightarrow> refuses D step a st i w = Some p \<Longrightarrow> \<exists>f k w1. step q w = A_Await f k w1"
  by (simp add: refuses_def split: act.splits)

lemma drives_direct:
  "drives D K step a h st s w res \<Longrightarrow> rinv D s \<Longrightarrow> resumes st s h q \<Longrightarrow> res = Done_With out \<Longrightarrow>
     direct_run K step q w = Some out"
proof (induction arbitrary: q rule: drives.induct)
  case (d_done st s w r st' i' w')
  obtain i0 where s0: "block_poll D step a st (ri s) w = block_advance D step a q i0 w"
    by (rule poll_at [OF d_done.prems(1,2)])
  show ?case
  proof (cases "step q w")
    case (A_Await f k w1)
    show ?thesis by (cases rule: turn [OF d_done.prems(1,2) A_Await, where a = a]) (use d_done.hyps in simp_all)
  qed (use d_done.hyps d_done.prems(3) s0 in \<open>simp_all add: block_advance.simps direct_run.simps\<close>)
next
  case (d_panic st s w p)
  obtain i0 where s0: "block_poll D step a st (ri s) w = block_advance D step a q i0 w"
    by (rule poll_at [OF d_panic.prems(1,2)])
  show ?case
  proof (cases "step q w")
    case (A_Await f k w1)
    show ?thesis by (cases rule: turn [OF d_panic.prems(1,2) A_Await, where a = a]) (use d_panic.hyps in simp_all)
  qed (use d_panic.hyps d_panic.prems(3) s0 in \<open>simp_all add: block_advance.simps direct_run.simps\<close>)
next
  case (d_wait st s w f k i' w1 evs s2 c m w2 b s3 evs' s4 res)
  obtain i0 where s0: "block_poll D step a st (ri s) w = block_advance D step a q i0 w"
    by (rule poll_at [OF d_wait.prems(1,2)])
  show ?case
  proof (cases "step q w")
    case (A_Await g j v1)
    show ?thesis
    proof (cases rule: turn [OF d_wait.prems(1,2) A_Await, where a = a])
      case 1
      with d_wait.hyps(1) show ?thesis by simp
    next
      case t: (2 n i)
      with d_wait.hyps(1) have f: "f = iof_set_io (OS_Submitted n) g" "k = j" "i' = i" "w1 = v1" by simp_all
      note C = completed_resumes [OF t(2,3) _ d_wait.hyps(2) [unfolded f iof_set_simps] d_wait.hyps(3,5-8)]
      have "direct_run K step (k (iof_out g (reactor_value_to_result (cqe_result c))) m) w2 = Some out"
        by (rule d_wait.IH [OF _ _ d_wait.prems(3)]) (unfold f, (rule C; simp)+)
      with A_Await d_wait.hyps(4) f show ?thesis by (subst direct_run.simps) simp
    qed
  qed (use d_wait.hyps(1) s0 in \<open>simp_all add: block_advance.simps\<close>)
qed simp

text \<open>Every run in direct style is one by polls, unless an operation is refused.\<close>

lemma direct_drives:
  assumes "direct_run K step q w = Some out" "rinv D s" "resumes st s h q"
  shows "drives D K step a h st s w (Done_With out) \<or> (\<exists>p. drives D K step a h st s w (Refused p))"
proof -
  have "K' = K \<longrightarrow> step' = step \<longrightarrow> (\<forall>st s. rinv D s \<longrightarrow> resumes st s h q \<longrightarrow>
      drives D K step a h st s w (Done_With out) \<or> (\<exists>p. drives D K step a h st s w (Refused p)))"
    if "direct_run K' step' q w = Some out" for K' step' q w out
  proof (rule direct_run.raw_induct [OF _ that], goal_cases)
    case (1 loop K' step' q w out)
    show ?case
    proof (intro impI allI)
      fix st s
      assume eq: "K' = K" "step' = step" and inv: "rinv D s" and st: "resumes st s h q"
      obtain i0 where s0: "block_poll D step a st (ri s) w = block_advance D step a q i0 w"
        and go: "goes_on D a st (ri s) = Some (q, i0)" by (rule poll_at [OF inv st])
      show "drives D K step a h st s w (Done_With out) \<or> (\<exists>p. drives D K step a h st s w (Refused p))"
      proof (cases "step q w")
        case (A_Return r w1)
        with 1(2) eq have out: "out = Inr (r, w1)" by simp
        have "block_poll D step a st (ri s) w = Some (Inr (Poll_Ready r, Ended, i0, w1))"
          unfolding s0 by (subst block_advance.simps) (simp add: A_Return)
        from d_done [OF this] show ?thesis unfolding out by blast
      next
        case (A_Panic p)
        with 1(2) eq have out: "out = Inl p" by simp
        have "block_poll D step a st (ri s) w = Some (Inl p)"
          unfolding s0 by (subst block_advance.simps) (simp add: A_Panic)
        moreover have "refuses D step a st (ri s) w = None"
          using refuses_await [OF go, of w] A_Panic by (cases "refuses D step a st (ri s) w") fastforce+
        ultimately show ?thesis unfolding out by (blast intro: d_panic)
      next
        case (A_Await f k w1)
        with 1(2) eq obtain r m w2 where run: "k_run K (entry_op (iof_entry f)) (iof_mem f) w1 = Some (r, m, w2)"
          and rest: "loop K' step' (k (iof_out f (reactor_value_to_result r)) m) w2 = Some out"
          by (auto split: option.splits)
        show ?thesis
        proof (cases rule: turn [OF inv st A_Await, where a = a])
          case (1 p)
          then show ?thesis by (blast intro: d_refused)
        next
          case t: (2 n i)
          let ?s1 = "s\<lparr>ri := i, ones := (ones s)(h \<mapsto> OS_Submitted n), inflight := (inflight s)(next_ud D s \<mapsto> Oneshot)\<rparr>"
          let ?f = "iof_set_mem m (iof_set_io (OS_Submitted n) f)"
          let ?c = "\<lparr>cqe_user_data = next_ud D s, cqe_result = r, cqe_flags = 0\<rparr>"
          from complete_awaits [OF t(2), of h ?c a] t(3) obtain s3 where s3: "complete_cqe D ?c ?s1 = Inr (a, s3)" by auto
          have "rinv D s3" by (rule completed_resumes(2) [OF t(2,3) _ rsteps_nil _ _ s3 rsteps_nil]) simp_all
          moreover have "resumes (Waiting ?f k) s3 h (k (iof_out f (reactor_value_to_result (cqe_result ?c))) m)"
            by (rule completed_resumes(3) [OF t(2,3) _ rsteps_nil _ _ s3 rsteps_nil]) simp_all
          ultimately have rest: "drives D K step a h (Waiting ?f k) s3 w2 (Done_With out) \<or>
              (\<exists>p. drives D K step a h (Waiting ?f k) s3 w2 (Refused p))"
            using 1(1) [OF rest] eq by auto
          have "drives D K step a h st s w res" if "drives D K step a h (Waiting ?f k) s3 w2 res" for res
            by (rule d_wait [OF t(1) _ _ _ _ s3 rsteps_nil _ that, where evs = "[]"]) (simp_all add: rsteps_simps run)
          with rest show ?thesis by blast
        qed
      qed
    qed
  qed
  with assms show ?thesis by blast
qed

text \<open>A block driven by polls from its start, and the block in direct style.\<close>

lemma drives_iff_direct:
  assumes "rinv D s" "ones s h = None"
  shows "(drives D K step a h (At q) s w (Done_With out) \<longrightarrow> direct_run K step q w = Some out)
    \<and> (direct_run K step q w = Some out \<longrightarrow>
        drives D K step a h (At q) s w (Done_With out) \<or> (\<exists>p. drives D K step a h (At q) s w (Refused p)))"
proof -
  have "resumes (At q) s h q" using assms(2) by (simp add: resumes_def)
  with drives_direct [of K a h "At q" s w "Done_With out" q out] direct_drives [of K q w out s "At q" h a] assms(1) show ?thesis by blast
qed

end

subsection \<open>A block and its meaning\<close>

text \<open>
  A function on the points of a block that is a solution of the equation of \<open>direct_run\<close> agrees with
  it wherever \<open>direct_run\<close> ends.
\<close>

definition act_run :: "'w kernel \<Rightarrow> ('q \<Rightarrow> 'w \<Rightarrow> ('r \<times> 'w) rs option) \<Rightarrow> ('q, 'r, 'w) act \<Rightarrow> ('r \<times> 'w) rs option" where
  "act_run K sem act = (case act of
     A_Return r w1 \<Rightarrow> Some (Inr (r, w1))
   | A_Panic p \<Rightarrow> Some (Inl p)
   | A_Await f k w1 \<Rightarrow> (case k_run K (entry_op (iof_entry f)) (iof_mem f) w1 of
       None \<Rightarrow> None
     | Some (r, m, w2) \<Rightarrow> sem (k (iof_out f (reactor_value_to_result r)) m) w2))"

lemma direct_run_act: "direct_run K step q w = act_run K (direct_run K step) (step q w)"
  by (subst direct_run.simps) (simp add: act_run_def)

lemma act_run_simps [simp]:
  "act_run K sem (A_Return r w) = Some (Inr (r, w))" "act_run K sem (A_Panic p) = Some (Inl p)"
  "act_run K sem (A_Await (F_Read rd) k w) = (case await_read K rd w of None \<Rightarrow> None | Some (x, m, w2) \<Rightarrow> sem (k (O_Count x) m) w2)"
  "act_run K sem (A_Await (F_Write wr) k w) = (case await_write K wr w of None \<Rightarrow> None | Some (x, m, w2) \<Rightarrow> sem (k (O_Count x) m) w2)"
  "act_run K sem (A_Await (F_Open op) k w) = (case await_open K op w of None \<Rightarrow> None | Some (x, m, w2) \<Rightarrow> sem (k (O_File x) m) w2)"
  by (simp_all add: act_run_def await_defs await_fut_def split: option.splits)

lemma direct_run_least:
  assumes "\<And>q w. sem q w = act_run K sem (step q w)" "direct_run K step q w = Some out"
  shows "sem q w = Some out"
proof -
  have "K' = K \<longrightarrow> step' = step \<longrightarrow> sem q w = Some out" if "direct_run K' step' q w = Some out" for K' step' q w out
    by (rule direct_run.raw_induct [OF _ that], subst assms(1)) (auto simp: act_run_def split: act.splits option.splits)
  with assms(2) show ?thesis by blast
qed


lemma option_agree:
  assumes "\<And>x. f = Some x \<Longrightarrow> g = Some x" "\<And>x. g = Some x \<Longrightarrow> f = Some x"
  shows "f = g"
  using assms by (cases f; cases g) auto

subsection \<open>Quiet runs\<close>

text \<open>A run in which nothing else happens between two polls, computed with fuel for the polls.\<close>

fun quiet_run :: "('u, 'ps, 'os, 'ms, 'rb, 't) deps \<Rightarrow> 'w kernel \<Rightarrow> ('q \<Rightarrow> 'w \<Rightarrow> ('q, 'r, 'w) act) \<Rightarrow> 't \<Rightarrow> nat \<Rightarrow> nat \<Rightarrow>
    'q async_state \<Rightarrow> ('u, 'ps, 'os, 'ms) rsys \<Rightarrow> 'w \<Rightarrow> ('r \<times> 'w) option" where
  "quiet_run D K step a h 0 st s w = None"
| "quiet_run D K step a h (Suc n) st s w = (case block_poll D step a st (ri s) w of
     Some (Inr (Poll_Ready r, st', i', w')) \<Rightarrow> Some (r, w')
   | Some (Inr (Poll_Pending, Waiting f k, i', w1)) \<Rightarrow>
       (case k_run K (entry_op (iof_entry f)) (iof_mem f) w1 of
          None \<Rightarrow> None
        | Some (v, m, w2) \<Rightarrow>
            (case complete_cqe D \<lparr>cqe_user_data = next_ud D s, cqe_result = v, cqe_flags = 0\<rparr>
                (s\<lparr>ri := i', ones := (ones s)(h \<mapsto> iof_io f), inflight := (inflight s)(next_ud D s \<mapsto> Oneshot)\<rparr>) of
               Inl p \<Rightarrow> None
             | Inr (b, s3) \<Rightarrow> quiet_run D K step a h n (Waiting (iof_set_mem m f) k) s3 w2))
   | _ \<Rightarrow> None)"

lemma quiet_run_drives: "quiet_run D K step a h n st s w = Some (r, w') \<Longrightarrow> drives D K step a h st s w (Done_With (Inr (r, w')))"
proof (induction D K step a h n st s w rule: quiet_run.induct)
  case (2 D K step a h n st s w)
  from "2.prems" consider (ready) st' i' where "block_poll D step a st (ri s) w = Some (Inr (Poll_Ready r, st', i', w'))"
    | (waits) f k i' w1 v m w2 b s3 where "block_poll D step a st (ri s) w = Some (Inr (Poll_Pending, Waiting f k, i', w1))"
      "k_run K (entry_op (iof_entry f)) (iof_mem f) w1 = Some (v, m, w2)"
      "complete_cqe D \<lparr>cqe_user_data = next_ud D s, cqe_result = v, cqe_flags = 0\<rparr>
         (s\<lparr>ri := i', ones := (ones s)(h \<mapsto> iof_io f), inflight := (inflight s)(next_ud D s \<mapsto> Oneshot)\<rparr>) = Inr (b, s3)"
      "quiet_run D K step a h n (Waiting (iof_set_mem m f) k) s3 w2 = Some (r, w')"
    by (auto split: option.splits sum.splits prod.splits Poll.splits async_state.splits)
  then show ?case
  proof cases
    case ready
    then show ?thesis by (rule d_done)
  next
    case waits
    have rest: "drives D K step a h (Waiting (iof_set_mem m f) k) s3 w2 (Done_With (Inr (r, w')))"
      by (rule "2.IH") (use waits in simp_all)
    show ?thesis
      by (rule d_wait [OF waits(1) _ _ _ _ waits(3) rsteps_nil _ rest, where evs = "[]"]) (simp_all add: rsteps_simps waits(2))
  qed
qed simp

lemmas block_eval = block_poll_def block_advance.simps iof_poll_eq map_io_def i32_as_usize_def sim_kernel_def
  tcp_read_def tcp_write_def reader_entry_def writer_entry_def reactor_eval

end
