(* ===== verification/WebConn.thy ===== *)
theory WebConn
  imports WebServerThms AsyncBlock
begin

text \<open>
  The state machine of \<open>handle_connection\<close> and of the functions it awaits, as the compiler makes it
  of \<open>src/examples/web_server.rs\<close>: one point for each await, with what is live after it. Driving it
  by polls gives what \<open>handle_connection\<close> gives in direct style.
\<close>

datatype conn_pt =
    C_Loop "u8 list" "u8 list"                      \<comment> \<open>the head of the loop, with \<open>buf\<close> and \<open>request\<close>\<close>
  | C_Got "usize io_result" "u8 list" "u8 list"     \<comment> \<open>after the read\<close>
  | C_Answered "usize io_result"                    \<comment> \<open>after a response without a body\<close>
  | C_Opened "File io_result"                       \<comment> \<open>after \<open>File::open\<close>\<close>
  | C_Header File "usize io_result"                 \<comment> \<open>after the header of a file\<close>
  | C_Body File "usize io_result" "u8 list"         \<comment> \<open>after a read of the file\<close>
  | C_Sent File "usize io_result"                   \<comment> \<open>after a write of the body\<close>

type_synonym 'w conn_act = "(conn_pt, unit io_result, 'w) act"

definition await_answer :: "TcpStream \<Rightarrow> Response \<Rightarrow> 'w \<Rightarrow> 'w conn_act" where
  "await_answer conn code w = A_Await (F_Write (tcp_write conn (response_hdr code 0))) (\<lambda>x _. C_Answered (out_count x)) w"

definition after_request :: "Args \<Rightarrow> TcpStream \<Rightarrow> u8 list \<Rightarrow> 'w \<Rightarrow> 'w conn_act" where
  "after_request args conn request w = (case request_line request of
     Inl p \<Rightarrow> A_Panic p
   | Inr (method, path) \<Rightarrow>
       if \<not> lowercase_is ''get'' method then await_answer conn R_NotImplemented w
       else (case served_file (arg_webroot args) path of
         None \<Rightarrow> await_answer conn R_NotFound w
       | Some file \<Rightarrow> (case file_open file of
           Inl p \<Rightarrow> A_Panic p
         | Inr fo \<Rightarrow> A_Await (F_Open fo) (\<lambda>x _. C_Opened (out_file x)) w)))"

definition loop_head :: "Args \<Rightarrow> TcpStream \<Rightarrow> u8 list \<Rightarrow> u8 list \<Rightarrow> 'w \<Rightarrow> 'w conn_act" where
  "loop_head args conn buf request w = (if contains_sub (CRLF @ CRLF) request then after_request args conn request w
     else A_Await (F_Read (tcp_read conn buf)) (\<lambda>x m. C_Got (out_count x) m request) w)"

definition await_body :: "File \<Rightarrow> 'w \<Rightarrow> 'w conn_act" where
  "await_body f w = A_Await (F_Read (file_read f (replicate 4096 0))) (\<lambda>x m. C_Body f (out_count x) m) w"

text \<open>The end of \<open>send_file\<close> closes the file, if it is open, and the connection.\<close>

fun conn_step :: "Args \<Rightarrow> 'w os_api \<Rightarrow> TcpStream \<Rightarrow> conn_pt \<Rightarrow> 'w \<Rightarrow> 'w conn_act" where
  "conn_step args X conn (C_Loop buf request) w = loop_head args conn buf request w"
| "conn_step args X conn (C_Got r buf request) w = (case r of
     Inl e \<Rightarrow> A_Return (Inl e) (sys_close X (ts_inner conn) w)
   | Inr count \<Rightarrow> if length buf < count then A_Panic (PanicMsg ''slice index out of range'')
       else (case from_utf8 (take count buf) of
         None \<Rightarrow> A_Panic UnwrapErr
       | Some s \<Rightarrow> loop_head args conn buf (request @ s) w))"
| "conn_step args X conn (C_Answered r) w = A_Return (map_io (\<lambda>_. ()) r) (sys_close X (ts_inner conn) w)"
| "conn_step args X conn (C_Opened r) w = (case r of
     Inl e \<Rightarrow> await_answer conn (if is_not_found e then R_NotFound else R_ServerError) w
   | Inr f \<Rightarrow> (case file_seek X f (End 0) w of
       (Inl e, w1) \<Rightarrow> A_Return (Inl e) (sys_close X (ts_inner conn) (sys_close X (f_inner f) w1))
     | (Inr n, w1) \<Rightarrow> (case file_seek X f (Start 0) w1 of
         (Inl e, w2) \<Rightarrow> A_Return (Inl e) (sys_close X (ts_inner conn) (sys_close X (f_inner f) w2))
       | (Inr _, w2) \<Rightarrow> A_Await (F_Write (tcp_write conn (response_hdr R_Ok (u64_as_usize n)))) (\<lambda>x _. C_Header f (out_count x)) w2)))"
| "conn_step args X conn (C_Header f r) w = (case r of
     Inl e \<Rightarrow> A_Return (Inl e) (sys_close X (ts_inner conn) (sys_close X (f_inner f) w))
   | Inr _ \<Rightarrow> await_body f w)"
| "conn_step args X conn (C_Body f r buf) w = (case r of
     Inl e \<Rightarrow> A_Return (Inl e) (sys_close X (ts_inner conn) (sys_close X (f_inner f) w))
   | Inr count \<Rightarrow> if count = 0 then A_Return (Inr ()) (sys_close X (ts_inner conn) (sys_close X (f_inner f) w))
       else A_Await (F_Write (tcp_write conn buf)) (\<lambda>x _. C_Sent f (out_count x)) w)"
| "conn_step args X conn (C_Sent f r) w = (case r of
     Inl e \<Rightarrow> A_Return (Inl e) (sys_close X (ts_inner conn) (sys_close X (f_inner f) w))
   | Inr _ \<Rightarrow> await_body f w)"

abbreviation conn_start :: conn_pt where
  "conn_start \<equiv> C_Loop (replicate 1024 0) []"

lemmas conn_defs = await_answer_def after_request_def loop_head_def await_body_def

subsection \<open>The points in direct style\<close>

abbreviation (input) file_end :: "'w os_api \<Rightarrow> TcpStream \<Rightarrow> File \<Rightarrow> (unit io_result \<times> 'w) option \<Rightarrow> 'w result" where
  "file_end X conn f \<equiv> map_option (\<lambda>(r, w). Inr (r, sys_close X (ts_inner conn) (sys_close X (f_inner f) w)))"

definition request_sem :: "Args \<Rightarrow> 'w kernel \<Rightarrow> 'w os_api \<Rightarrow> TcpStream \<Rightarrow> (u8 list io_result \<times> 'w) rs option \<Rightarrow> 'w result" where
  "request_sem args K X conn out = (case out of
     None \<Rightarrow> None
   | Some (Inl p) \<Rightarrow> Some (Inl p)
   | Some (Inr (Inl e, w1)) \<Rightarrow> Some (Inr (Inl e, sys_close X (ts_inner conn) w1))
   | Some (Inr (Inr request, w1)) \<Rightarrow> (case request_line request of
       Inl p \<Rightarrow> Some (Inl p)
     | Inr (method, path) \<Rightarrow>
         (let respond = (\<lambda>code. map_option (\<lambda>(r, w'). Inr (r, sys_close X (ts_inner conn) w')) (send_response_hdr K conn code 0 w1))
          in if \<not> lowercase_is ''get'' method then respond R_NotImplemented
             else (case served_file (arg_webroot args) path of
               None \<Rightarrow> respond R_NotFound
             | Some file \<Rightarrow> send_file K X conn file w1))))"

lemma handle_connection_sem: "handle_connection args K X conn w = request_sem args K X conn (read_request K conn (replicate 1024 0) [] w)"
  by (simp add: handle_connection_def request_sem_def)

fun conn_sem :: "Args \<Rightarrow> 'w kernel \<Rightarrow> 'w os_api \<Rightarrow> TcpStream \<Rightarrow> conn_pt \<Rightarrow> 'w \<Rightarrow> 'w result" where
  "conn_sem args K X conn (C_Loop buf request) w = request_sem args K X conn (read_request K conn buf request w)"
| "conn_sem args K X conn (C_Got r buf request) w = request_sem args K X conn (case r of
     Inl e \<Rightarrow> Some (Inr (Inl e, w))
   | Inr count \<Rightarrow> if length buf < count then Some (Inl (PanicMsg ''slice index out of range''))
       else (case from_utf8 (take count buf) of
         None \<Rightarrow> Some (Inl UnwrapErr)
       | Some s \<Rightarrow> read_request K conn buf (request @ s) w))"
| "conn_sem args K X conn (C_Answered r) w = Some (Inr (map_io (\<lambda>_. ()) r, sys_close X (ts_inner conn) w))"
| "conn_sem args K X conn (C_Opened r) w = (case r of
     Inl e \<Rightarrow> map_option (\<lambda>(r, w'). Inr (r, sys_close X (ts_inner conn) w'))
       (send_response_hdr K conn (if is_not_found e then R_NotFound else R_ServerError) 0 w)
   | Inr f \<Rightarrow> file_end X conn f (send_open_file K X conn f w))"
| "conn_sem args K X conn (C_Header f r) w = file_end X conn f (case r of Inl e \<Rightarrow> Some (Inl e, w) | Inr _ \<Rightarrow> send_body K conn f w)"
| "conn_sem args K X conn (C_Body f r buf) w = file_end X conn f (case r of
     Inl e \<Rightarrow> Some (Inl e, w)
   | Inr count \<Rightarrow> if count = 0 then Some (Inr (), w)
       else (case await_write K (tcp_write conn buf) w of
         None \<Rightarrow> None
       | Some (r, _, w2) \<Rightarrow> (case r of Inl e \<Rightarrow> Some (Inl e, w2) | Inr _ \<Rightarrow> send_body K conn f w2)))"
| "conn_sem args K X conn (C_Sent f r) w = file_end X conn f (case r of Inl e \<Rightarrow> Some (Inl e, w) | Inr _ \<Rightarrow> send_body K conn f w)"


lemma conn_sem_act: "conn_sem args K X conn q w = act_run K (conn_sem args K X conn) (conn_step args X conn q w)"
proof -
  have answer: "act_run K (conn_sem args K X conn) (await_answer conn code w) =
      map_option (\<lambda>(r, w'). Inr (r, sys_close X (ts_inner conn) w')) (send_response_hdr K conn code 0 w)" for code w
    by (simp add: await_answer_def send_response_hdr_def split: option.splits)
  have body: "act_run K (conn_sem args K X conn) (await_body f w) = file_end X conn f (send_body K conn f w)" for f w
    by (subst send_body.simps) (auto simp: await_body_def split: option.splits sum.splits)
  have two: "map_option (\<lambda>(r, w'). Inr (r, c w')) (map_option (\<lambda>(r, w'). (r, d w')) x) =
      map_option (\<lambda>(r, w'). Inr (r, c (d w'))) x" for c d :: "'a \<Rightarrow> 'a" and x :: "(unit io_result \<times> 'a) option"
    by (cases x) auto
  have request: "act_run K (conn_sem args K X conn) (after_request args conn request w) =
      request_sem args K X conn (Some (Inr (Inr request, w)))" for request w
    by (auto simp: after_request_def request_sem_def answer send_file_def two Let_def
        split: option.splits sum.splits prod.splits)
  have head: "act_run K (conn_sem args K X conn) (loop_head args conn buf request w) =
      request_sem args K X conn (read_request K conn buf request w)" for buf request w
    by (subst read_request.simps) (auto simp: loop_head_def request request_sem_def split: option.splits)
  show ?thesis
    by (cases q) (auto simp: answer body head request_sem_def send_open_file_def send_response_hdr_def map_io_def Let_def
        split: option.splits sum.splits prod.splits)
qed


text \<open>Where the functions in direct style end, the block does.\<close>

abbreviation conn_run :: "Args \<Rightarrow> 'w kernel \<Rightarrow> 'w os_api \<Rightarrow> TcpStream \<Rightarrow> conn_pt \<Rightarrow> 'w \<Rightarrow> 'w result" where
  "conn_run args K X conn \<equiv> direct_run K (conn_step args X conn)"

lemmas conn_run_act = direct_run_act [where step = "conn_step args X conn" for args X conn]

lemma conn_run_simps:
  "conn_run args K X conn (C_Body f r buf) w = (case r of
     Inl e \<Rightarrow> Some (Inr (Inl e, sys_close X (ts_inner conn) (sys_close X (f_inner f) w)))
   | Inr count \<Rightarrow> if count = 0 then Some (Inr (Inr (), sys_close X (ts_inner conn) (sys_close X (f_inner f) w)))
       else (case await_write K (tcp_write conn buf) w of None \<Rightarrow> None | Some (x, m, w2) \<Rightarrow> conn_run args K X conn (C_Sent f x) w2))"
  "conn_run args K X conn (C_Sent f r) w = (case r of
     Inl e \<Rightarrow> Some (Inr (Inl e, sys_close X (ts_inner conn) (sys_close X (f_inner f) w)))
   | Inr _ \<Rightarrow> act_run K (conn_run args K X conn) (await_body f w))"
  "conn_run args K X conn (C_Header f r) w = (case r of
     Inl e \<Rightarrow> Some (Inr (Inl e, sys_close X (ts_inner conn) (sys_close X (f_inner f) w)))
   | Inr _ \<Rightarrow> act_run K (conn_run args K X conn) (await_body f w))"
  "conn_run args K X conn (C_Got r buf request) w = (case r of
     Inl e \<Rightarrow> Some (Inr (Inl e, sys_close X (ts_inner conn) w))
   | Inr count \<Rightarrow> if length buf < count then Some (Inl (PanicMsg ''slice index out of range''))
       else (case from_utf8 (take count buf) of
         None \<Rightarrow> Some (Inl UnwrapErr)
       | Some s \<Rightarrow> act_run K (conn_run args K X conn) (loop_head args conn buf (request @ s) w)))"
  "conn_run args K X conn (C_Answered r) w = Some (Inr (map_io (\<lambda>_. ()) r, sys_close X (ts_inner conn) w))"
  by (subst conn_run_act; cases r; simp split: option.splits)+

lemma body_run:
  assumes "send_body K conn f w = Some (r, w')"
  shows "act_run K (conn_run args K X conn) (await_body f w) =
    Some (Inr (r, sys_close X (ts_inner conn) (sys_close X (f_inner f) w')))"
proof -
  have "K' = K \<longrightarrow> conn' = conn \<longrightarrow> (\<forall>r w'. y = (r, w') \<longrightarrow> act_run K (conn_run args K X conn) (await_body f w) =
      Some (Inr (r, sys_close X (ts_inner conn) (sys_close X (f_inner f) w'))))"
    if "send_body K' conn' f w = Some y" for K' conn' f w y
  proof (rule send_body.raw_induct [OF _ that], goal_cases)
    case (1 loop K' conn' f w y)
    then show ?case
      by (subst await_body_def) (auto simp: conn_run_simps split: option.splits sum.splits if_splits)
  qed
  with assms show ?thesis by blast
qed

lemma request_run:
  assumes "read_request K conn buf request w = Some x"
  shows "act_run K (conn_run args K X conn) (loop_head args conn buf request w) = (case x of
      Inl p \<Rightarrow> Some (Inl p)
    | Inr (Inl e, w1) \<Rightarrow> Some (Inr (Inl e, sys_close X (ts_inner conn) w1))
    | Inr (Inr request', w1) \<Rightarrow> act_run K (conn_run args K X conn) (after_request args conn request' w1))"
proof -
  have "K' = K \<longrightarrow> conn' = conn \<longrightarrow> act_run K (conn_run args K X conn) (loop_head args conn buf request w) = (case x of
      Inl p \<Rightarrow> Some (Inl p)
    | Inr (Inl e, w1) \<Rightarrow> Some (Inr (Inl e, sys_close X (ts_inner conn) w1))
    | Inr (Inr request', w1) \<Rightarrow> act_run K (conn_run args K X conn) (after_request args conn request' w1))"
    if "read_request K' conn' buf request w = Some x" for K' conn' buf request w x
  proof (rule read_request.raw_induct [OF _ that], goal_cases)
    case (1 loop K' conn' buf request w x)
    note IH = 1(1) and eq = 1(2)
    show ?case
      by (subst loop_head_def) (use eq IH in \<open>auto simp: conn_run_simps split: option.splits sum.splits if_splits\<close>)
  qed
  with assms show ?thesis by blast
qed


lemma answer_run:
  "act_run K (conn_run args K X conn) (await_answer conn code w) =
    map_option (\<lambda>(r, w'). Inr (r, sys_close X (ts_inner conn) w')) (send_response_hdr K conn code 0 w)"
  by (simp add: await_answer_def send_response_hdr_def conn_run_simps split: option.splits)

lemma opened_run:
  assumes "send_open_file K X conn f w = Some (r, w')"
  shows "conn_run args K X conn (C_Opened (Inr f)) w = Some (Inr (r, sys_close X (ts_inner conn) (sys_close X (f_inner f) w')))"
  by (subst conn_run_act) (use assms in \<open>auto simp: send_open_file_def send_response_hdr_def map_io_def conn_run_simps body_run
      Let_def split: option.splits sum.splits prod.splits\<close>)

lemma after_run:
  assumes "request_sem args K X conn (Some (Inr (Inr request, w))) = Some out"
  shows "act_run K (conn_run args K X conn) (after_request args conn request w) = Some out"
proof -
  have refused: "conn_run args K X conn (C_Opened (Inl e)) w = map_option (\<lambda>(r, w'). Inr (r, sys_close X (ts_inner conn) w'))
      (send_response_hdr K conn (if is_not_found e then R_NotFound else R_ServerError) 0 w)" for e w
    by (subst conn_run_act) (simp add: answer_run)
  show ?thesis
    using assms by (auto simp: after_request_def request_sem_def answer_run refused opened_run send_file_def Let_def
        split: option.splits sum.splits prod.splits if_splits)
qed

lemma conn_run_eq: "conn_run args K X conn conn_start w = handle_connection args K X conn w"
proof (rule option_agree)
  fix out
  assume "conn_run args K X conn conn_start w = Some out"
  from direct_run_least [where sem = "conn_sem args K X conn", OF conn_sem_act this]
  show "handle_connection args K X conn w = Some out" by (simp add: handle_connection_sem)
next
  fix out
  assume "handle_connection args K X conn w = Some out"
  then have sem: "request_sem args K X conn (read_request K conn (replicate 1024 0) [] w) = Some out" by (simp add: handle_connection_sem)
  then obtain x where x: "read_request K conn (replicate 1024 0) [] w = Some x" by (auto simp: request_sem_def split: option.splits)
  have "act_run K (conn_run args K X conn) (loop_head args conn (replicate 1024 0) [] w) = Some out"
    unfolding request_run [OF x] using sem unfolding x
    by (auto simp: after_run split: sum.splits prod.splits) (auto simp: request_sem_def)
  then show "conn_run args K X conn conn_start w = Some out" by (subst conn_run_act) simp
qed


lemma conn_step_fresh: "conn_step args X conn q w = A_Await f k w1 \<Longrightarrow> iof_io f = OS_New"
  by (cases q) (auto simp: conn_defs tcp_read_def tcp_write_def file_read_def file_open_def oneshot_io_new_def rbind_eq_Inr
      split: sum.splits option.splits prod.splits if_splits)

lemma conn_block: "reactor_deps D \<Longrightarrow> async_block D (conn_step args X conn)"
  by (simp add: async_block_def async_block_axioms_def conn_step_fresh)

interpretation simconn: async_block ring0 "conn_step args net_os conn" for args conn
  by (rule conn_block [OF ring0_deps])

subsection \<open>Properties\<close>

text \<open>
  C14. Polling the future of a connection is the same as running \<open>handle_connection\<close> in direct
  style, whatever else the reactor does between two polls. If the polls end, with a value or a
  panic of the block, so does \<open>handle_connection\<close>, with the same outcome and the same effects on the
  system. If \<open>handle_connection\<close> ends, then there are polls that end with its outcome, or polls of
  which the last one panics since the reactor refuses the operation of a future the block awaits.
\<close>

theorem conn_polled:
  assumes "reactor_deps D" "reachable D s" "ones s h = None"
  shows "(drives D K (conn_step args X conn) a h (At conn_start) s w (Done_With out) \<longrightarrow> handle_connection args K X conn w = Some out)
    \<and> (handle_connection args K X conn w = Some out \<longrightarrow>
        drives D K (conn_step args X conn) a h (At conn_start) s w (Done_With out)
        \<or> (\<exists>p. drives D K (conn_step args X conn) a h (At conn_start) s w (Refused p)))"
  unfolding conn_run_eq [symmetric]
  by (rule async_block.drives_iff_direct [OF conn_block [OF assms(1)] reactor_deps.reachable_inv [OF assms(1,2)] assms(3)])

definition put_root :: "u8 list" where
  "put_root = bytes ''PUT / HTTP/1.1'' @ CRLF @ CRLF"

lemma put_root_ok: "length put_root = 18" "utf8 put_root" "complete put_root" "\<not> complete []"
  "request_line put_root = Inr (bytes ''PUT'', bytes ''/'')" "\<not> lowercase_is ''get'' (bytes ''PUT'')"
  "length (answer ''501 Not Implemented'' 0) = 64"
  by code_simp+

abbreviation one_put :: simnet where
  "one_put \<equiv> \<lparr>n_in = (\<lambda>_. [])(5 := [put_root]), n_out = \<lambda>_. [], n_files = [], n_data = \<lambda>_. [], n_closed = [], n_room = \<lambda>_. 9999\<rparr>"

abbreviation put_args :: Args where "put_args \<equiv> \<lparr>arg_port = 80, arg_webroot = bytes ''w''\<rparr>"

lemma put_quiet:
  "\<exists>w. quiet_run ring0 sim_kernel (conn_step put_args net_os \<lparr>ts_inner = 5\<rparr>) 7 1 (Suc (Suc (Suc 0))) (At conn_start) fresh one_put
     = Some (Inr (), w) \<and> n_out w 5 = answer ''501 Not Implemented'' 0"
  using put_root_ok
  by (simp add: block_eval conn_defs net_os_def response_hdr_answer from_utf8_def)

theorem conn_polled_witness:
  "\<exists>w'. drives ring0 sim_kernel (conn_step put_args net_os \<lparr>ts_inner = 5\<rparr>) 7 1 (At conn_start) fresh one_put (Done_With (Inr (Inr (), w')))
    \<and> handle_connection put_args sim_kernel net_os \<lparr>ts_inner = 5\<rparr> one_put = Some (Inr (Inr (), w'))
    \<and> n_out w' 5 = answer ''501 Not Implemented'' 0"
proof -
  obtain w' where w': "drives ring0 sim_kernel (conn_step put_args net_os \<lparr>ts_inner = 5\<rparr>) 7 1 (At conn_start) fresh one_put
      (Done_With (Inr (Inr (), w')))" "n_out w' 5 = answer ''501 Not Implemented'' 0" 
    using put_quiet by (elim exE conjE) (rule that [OF quiet_run_drives])
  have "reachable ring0 fresh" "ones fresh 1 = None" by (rule fresh_reachable) simp
  from conjunct1 [OF conn_polled [OF ring0_deps this], rule_format, OF w'(1)] w' show ?thesis by blast
qed

end
