(* ===== verification/WebAccept.thy ===== *)
theory WebAccept
  imports WebServer TaskLoop
begin

text \<open>
  The main task of \<open>src/examples/web_server.rs\<close>: it takes connections from the listener and
  spawns a task for each. One poll of it runs until the listener is pending or at its end, when
  the listener, which the task owns, is dropped.
  The future of a connection, the async block around \<open>handle_connection\<close>, is made by \<open>handler\<close>;
  how it is polled is an argument of \<open>web_upoll\<close>.
\<close>

partial_function (option) serve_poll :: "('u, 'ps, 'os, 'ms, 'rb, nat) deps \<Rightarrow> 'w os_api \<Rightarrow> (TcpStream \<Rightarrow> 'g) \<Rightarrow> nat \<Rightarrow>
    TcpListener \<Rightarrow> ('ws, 'g, ('u, 'ps, 'os, 'ms) inner, 'w, unit) thread \<Rightarrow>
    (unit Poll \<times> TcpListener \<times> ('ws, 'g, ('u, 'ps, 'os, 'ms) inner, 'w, unit) thread) rs option" where
  "serve_poll D X handler a listener t = (case listener_poll_next D a listener (inner t) of
     Inl p \<Rightarrow> Some (Inl p)
   | Inr (p, listener', i') \<Rightarrow>
       (let t1 = t\<lparr>inner := i'\<rparr>
        in case p of
          Poll_Pending \<Rightarrow> Some (Inr (Poll_Pending, listener', t1))
        | Poll_Ready None \<Rightarrow> (case listener_drop D X listener' i' (world t1) of
            Inl p \<Rightarrow> Some (Inl p)
          | Inr (i2, w2) \<Rightarrow> Some (Inr (Poll_Ready (), listener', t1\<lparr>inner := i2, world := w2\<rparr>)))
        | Poll_Ready (Some (Inl e)) \<Rightarrow> serve_poll D X handler a listener' t1
        | Poll_Ready (Some (Inr conn)) \<Rightarrow> (case spawn X (handler conn) t1 of
            Inl p \<Rightarrow> Some (Inl p)
          | Inr (joiner, t2) \<Rightarrow> (case joiner_drop D X joiner t2 of
              Inl p \<Rightarrow> Some (Inl p)
            | Inr t3 \<Rightarrow> serve_poll D X handler a listener' t3))))"

text \<open>The futures of the program, and \<open>main\<close>.\<close>

datatype 'c web_fut = Serve TcpListener | Handle 'c

definition web_upoll :: "('u, 'ps, 'os, 'ms, 'rb, nat) deps \<Rightarrow> 'w os_api \<Rightarrow> (TcpStream \<Rightarrow> 'c) \<Rightarrow>
    ('c \<Rightarrow> nat \<Rightarrow> ('ws, 'c web_fut, ('u, 'ps, 'os, 'ms) inner, 'w, unit) thread \<Rightarrow>
      (unit Poll \<times> 'c \<times> ('ws, 'c web_fut, ('u, 'ps, 'os, 'ms) inner, 'w, unit) thread) rs option) \<Rightarrow>
    ('c web_fut, ('ws, 'c web_fut, ('u, 'ps, 'os, 'ms) inner, 'w, unit) thread, unit) upoll" where
  "web_upoll D X handler hpoll f a t = (case f of
     Serve l \<Rightarrow> obind (serve_poll D X (\<lambda>conn. Handle (handler conn)) a l t) (\<lambda>(p, l', t'). Some (Inr (p, Serve l', t')))
   | Handle c \<Rightarrow> obind (hpoll c a t) (\<lambda>(p, c', t'). Some (Inr (p, Handle c', t'))))"

definition web_main :: "('ws, 'c web_fut) task_slab \<Rightarrow> ('u, 'ps, 'os, 'ms, 'rb, nat) deps \<Rightarrow> 'w os_api \<Rightarrow> (TcpStream \<Rightarrow> 'c) \<Rightarrow>
    ('c \<Rightarrow> nat \<Rightarrow> ('ws, 'c web_fut, ('u, 'ps, 'os, 'ms) inner, 'w, unit) thread \<Rightarrow>
      (unit Poll \<times> 'c \<times> ('ws, 'c web_fut, ('u, 'ps, 'os, 'ms) inner, 'w, unit) thread) rs option) \<Rightarrow>
    Args \<Rightarrow> ('ws, 'c web_fut, ('u, 'ps, 'os, 'ms) inner, 'w, unit) thread \<Rightarrow>
    (unit io_result \<times> ('ws, 'c web_fut, ('u, 'ps, 'os, 'ms) inner, 'w, unit) thread) rs option" where
  "web_main S D X handler hpoll args t =
     obind (Some (tcp_bind X (Inr [V4 0 (arg_port args)]) (world t))) (\<lambda>(res, w).
     let t1 = t\<lparr>world := w\<rparr>
     in case res of
          Inl e \<Rightarrow> Some (Inr (Inl e, t1))
        | Inr listener \<Rightarrow> obind (block_on S D X (web_upoll D X handler hpoll) (Serve listener) t1) (\<lambda>(_, t2). Some (Inr (Inr (), t2))))"

subsection \<open>The connections of a poll\<close>

definition connections :: "i32 list \<Rightarrow> TcpStream list" where
  "connections vs = map (\<lambda>fd. \<lparr>ts_inner = fd\<rparr>) (filter (\<lambda>v. 0 \<le> sint v) vs)"

text \<open>
  What a poll does with a list of connections: it spawns a task for each and drops the joiner. An
  event needs two descriptors; \<open>no_event\<close> says that the system does not give them.
\<close>

fun accept_all :: "('u, 'ps, 'os, 'ms, 'rb, nat) deps \<Rightarrow> 'w os_api \<Rightarrow> (TcpStream \<Rightarrow> 'g) \<Rightarrow> TcpStream list \<Rightarrow>
    ('ws, 'g, ('u, 'ps, 'os, 'ms) inner, 'w, unit) thread \<Rightarrow> ('ws, 'g, ('u, 'ps, 'os, 'ms) inner, 'w, unit) thread rs" where
  "accept_all D X handler [] t = Inr t"
| "accept_all D X handler (c # cs) t = rbind (spawn X (handler c) t) (\<lambda>(j, t1).
     rbind (joiner_drop D X j t1) (\<lambda>t2. accept_all D X handler cs t2))"

definition no_event :: "'w os_api \<Rightarrow> 'w \<Rightarrow> bool" where
  "no_event X w \<longleftrightarrow> (case sys_eventfd X 0 (EFD_NONBLOCK OR EFD_SEMAPHORE) w of
     (fd, w1) \<Rightarrow> fd = - 1 \<or> (case sys_dup X fd w1 of (Inl _, _) \<Rightarrow> True | (Inr _, _) \<Rightarrow> False))"

lemma spawn_cases:
  obtains (no) "no_event X (world t)" "spawn X f t = Inl UnwrapErr"
  | (ok) j t1 t2 task where "\<not> no_event X (world t)" "spawn X f t = Inr (j, t1)" "joiner_drop D X j t1 = Inr t2" "inner t2 = inner t"
    "run_q t2 = run_q t @ [task]" "sf_fut (task_future task) = f" "waiting t2 = waiting t"
proof (cases "no_event X (world t)")
  case True
  then have "spawn X f t = Inl UnwrapErr"
    by (auto simp: no_event_def spawn_def event_new_def event_clone_def Let_def split: prod.splits sum.splits)
  with True show thesis by (rule no)
next
  case False
  then obtain fd w1 d w2 where e: "sys_eventfd X 0 (EFD_NONBLOCK OR EFD_SEMAPHORE) (world t) = (fd, w1)" "fd \<noteq> - 1"
      "sys_dup X fd w1 = (Inr d, w2)"
    by (auto simp: no_event_def split: prod.splits sum.splits)
  then obtain j t1 task where s: "spawn X f t = Inr (j, t1)" and t1: "run_q t1 = run_q t @ [task]"
    "sf_fut (task_future task) = f" "waiting t1 = waiting t" "inner t1 = inner t" "tj_finished j = event_wait (tj_evt j)"
    by (simp add: spawn_def event_new_def event_clone_def Let_def)
  obtain t2 where t2: "joiner_drop D X j t1 = Inr t2" "run_q t2 = run_q t1" "waiting t2 = waiting t1" "inner t2 = inner t1"
    using t1(5) by (simp add: joiner_drop_def event_waiter_drop_def event_wait_def oneshot_io_drop_def oneshot_io_new_def Let_def)
  show thesis by (rule ok [OF False s t2(1)]) (use t1 t2 in simp_all)
qed

lemma accept_all_tasks:
  "accept_all D X handler cs t = Inr t' \<Longrightarrow> inner t' = inner t \<and> waiting t' = waiting t
     \<and> (\<exists>ts. run_q t' = run_q t @ ts \<and> map (\<lambda>task. sf_fut (task_future task)) ts = map handler cs)"
proof (induction cs arbitrary: t)
  case (Cons c cs)
  show ?case
  proof (cases rule: spawn_cases [where X = X and t = t and f = "handler c" and D = D])
    case (ok j t1 t2 task)
    with Cons.prems have "accept_all D X handler cs t2 = Inr t'" by simp
    from Cons.IH [OF this] ok(4-7) obtain ts where "inner t' = inner t" "waiting t' = waiting t"
      "run_q t' = run_q t @ task # ts" "map (\<lambda>task. sf_fut (task_future task)) (task # ts) = map handler (c # cs)" by auto
    then show ?thesis by blast
  qed (use Cons.prems in simp)
qed simp

lemma accept_all_panics:
  "accept_all D X handler cs t = Inl p \<Longrightarrow>
     \<exists>pre c post t1. cs = pre @ c # post \<and> accept_all D X handler pre t = Inr t1 \<and> no_event X (world t1)"
proof (induction cs arbitrary: t)
  case (Cons c cs)
  show ?case
  proof (cases rule: spawn_cases [where X = X and t = t and f = "handler c" and D = D])
    case no
    then show ?thesis by (intro exI [of _ "[]"] exI [of _ c] exI [of _ cs] exI [of _ t]) simp
  next
    case (ok j t1 t2 task)
    with Cons.prems have "accept_all D X handler cs t2 = Inl p" by simp
    from Cons.IH [OF this] obtain pre c' post t3 where
      "cs = pre @ c' # post" "accept_all D X handler pre t2 = Inr t3" "no_event X (world t3)" by blast
    with ok(2,3) show ?thesis by (intro exI [of _ "c # pre"] exI [of _ c'] exI [of _ post] exI [of _ t3]) simp
  qed
qed simp

text \<open>The reactor a thread has makes no difference to it.\<close>

lemma accept_all_inner:
  "accept_all D X handler cs (t\<lparr>inner := i\<rparr>) = rbind (accept_all D X handler cs t) (\<lambda>t'. Inr (t'\<lparr>inner := i\<rparr>))"
proof (induction cs arbitrary: t)
  case (Cons c cs)
  show ?case
  proof (cases "spawn X (handler c) t")
    case (Inl p)
    then show ?thesis
      by (auto simp: spawn_def Let_def event_new_def event_clone_def split: prod.splits sum.splits if_splits)
  next
    case (Inr r)
    obtain j t1 where r: "r = (j, t1)" by (cases r)
    have s: "spawn X (handler c) (t\<lparr>inner := i\<rparr>) = Inr (j, t1\<lparr>inner := i\<rparr>)" "tj_finished j = event_wait (tj_evt j)"
      using Inr r by (auto simp: spawn_def Let_def rbind_eq_Inr split: prod.splits sum.splits)
    obtain t2 where t2: "joiner_drop D X j t1 = Inr t2" "joiner_drop D X j (t1\<lparr>inner := i\<rparr>) = Inr (t2\<lparr>inner := i\<rparr>)"
      using s(2) by (simp add: joiner_drop_def event_waiter_drop_def event_wait_def oneshot_io_drop_def oneshot_io_new_def Let_def)
    from Cons.IH [of t2] show ?thesis by (simp add: Inr r s(1) t2)
  qed
qed simp

text \<open>One poll of the listener: the next buffered result, or the end.\<close>

lemma listener_next:
  fixes s :: "('u, 'ps, 'os, 'ms) rsys"
  assumes "reactor_deps D" "multis s h = Some (MS_Submitted k ud)" "tl_io l = MS_Submitted k ud"
    and "slab_get (multi D) (get_multishot (ri s)) k = Some e"
  shows "\<exists>st b. listener_poll_next D a l (ri s) = Inr (accepted (case rb_to_vec (rb D) (ms_results e) of
         v # _ \<Rightarrow> Poll_Ready (Some (reactor_value_to_result v))
       | [] \<Rightarrow> if ms_finished e then Poll_Ready None else Poll_Pending), l, set_multishot st (ri s))
    \<and> slab_get (multi D) st = (slab_get (multi D) (get_multishot (ri s)))(k \<mapsto> e\<lparr>ms_results := b\<rparr>)
    \<and> rb_to_vec (rb D) b = tl (rb_to_vec (rb D) (ms_results e))"
proof -
  from reactor_deps.poll_multishot_submitted [OF assms(1,2,4), of "accept_entry l" a] obtain st b where
    st: "poll_multishot D h (accept_entry l) a s = Inr (case rb_to_vec (rb D) (ms_results e) of
         v # _ \<Rightarrow> Poll_Ready (Some (reactor_value_to_result v))
       | [] \<Rightarrow> if ms_finished e then Poll_Ready None else Poll_Pending, s\<lparr>ri := set_multishot st (ri s)\<rparr>)"
    "slab_get (multi D) st = (slab_get (multi D) (get_multishot (ri s)))(k \<mapsto> e\<lparr>ms_results := b\<rparr>)"
    "rb_to_vec (rb D) b = tl (rb_to_vec (rb D) (ms_results e))"
    by (elim exE conjE) (rule that)
  from listener_poll_later [OF st(1), of l a] assms(2,3) have
    "listener_poll_next D a l (ri s) = Inr (accepted (case rb_to_vec (rb D) (ms_results e) of
         v # _ \<Rightarrow> Poll_Ready (Some (reactor_value_to_result v))
       | [] \<Rightarrow> if ms_finished e then Poll_Ready None else Poll_Pending), l, set_multishot st (ri s))" by simp
  with st(2,3) show ?thesis by (intro exI conjI)
qed

text \<open>How a poll ends, once nothing is buffered.\<close>

definition serve_end :: "('u, 'ps, 'os, 'ms, 'rb, nat) deps \<Rightarrow> 'w os_api \<Rightarrow> TcpListener \<Rightarrow> bool \<Rightarrow>
    ('ws, 'g, ('u, 'ps, 'os, 'ms) inner, 'w, unit) thread \<Rightarrow>
    (unit Poll \<times> TcpListener \<times> ('ws, 'g, ('u, 'ps, 'os, 'ms) inner, 'w, unit) thread) rs option" where
  "serve_end D X l fin t = Some (if fin
     then rbind (listener_drop D X l (inner t) (world t)) (\<lambda>(i, w). Inr (Poll_Ready (), l, t\<lparr>inner := i, world := w\<rparr>))
     else Inr (Poll_Pending, l, t))"

lemma serve_poll_buffered:
  fixes s :: "('u, 'ps, 'os, 'ms) rsys"
  assumes "reactor_deps D" "multis s h = Some (MS_Submitted k ud)" "tl_io l = MS_Submitted k ud"
    and "slab_get (multi D) (get_multishot (ri s)) k = Some e" "inner t = ri s" "rb_to_vec (rb D) (ms_results e) = vs"
  shows "\<exists>i b. serve_poll D X handler a l t = (case accept_all D X handler (connections vs) t of
      Inl p \<Rightarrow> Some (Inl p) | Inr t' \<Rightarrow> serve_end D X l (ms_finished e) (t'\<lparr>inner := i\<rparr>))
    \<and> uring i = uring (ri s)
    \<and> slab_get (multi D) (get_multishot i) k = Some (e\<lparr>ms_results := b\<rparr>) \<and> rb_to_vec (rb D) b = []"
  using assms(2-)
proof (induction vs arbitrary: s t e)
  case Nil
  from listener_next [OF assms(1) Nil(1-3), of a] obtain st b where
    st: "listener_poll_next D a l (ri s) = Inr (if ms_finished e then Poll_Ready None else Poll_Pending, l, set_multishot st (ri s))"
      "slab_get (multi D) st k = Some (e\<lparr>ms_results := b\<rparr>)" "rb_to_vec (rb D) b = []"
    using Nil(5) by (auto split: if_splits)
  have "serve_poll D X handler a l t = serve_end D X l (ms_finished e) (t\<lparr>inner := set_multishot st (ri s)\<rparr>)"
    by (subst serve_poll.simps) (simp add: Nil(4) st(1) serve_end_def split: sum.splits)
  with st(2,3) show ?case
    by (intro exI [of _ "set_multishot st (ri s)"] exI [of _ b]) (simp add: connections_def)
next
  case (Cons v vs)
  from listener_next [OF assms(1) Cons.prems(1-3), of a] obtain st b where
    st: "listener_poll_next D a l (ri s) =
        Inr (Poll_Ready (Some (map_io (\<lambda>fd. \<lparr>ts_inner = fd\<rparr>) (reactor_value_to_result v))), l, set_multishot st (ri s))"
      "slab_get (multi D) st k = Some (e\<lparr>ms_results := b\<rparr>)" "rb_to_vec (rb D) b = vs"
    using Cons.prems(5) by auto
  let ?i = "set_multishot st (ri s)"
  let ?s = "s\<lparr>ri := ?i\<rparr>" and ?t = "t\<lparr>inner := ?i\<rparr>"
  have e: "slab_get (multi D) (get_multishot (ri ?s)) k = Some (e\<lparr>ms_results := b\<rparr>)" "multis ?s h = Some (MS_Submitted k ud)"
    "rb_to_vec (rb D) (ms_results (e\<lparr>ms_results := b\<rparr>)) = vs"
    using st Cons.prems(1) by simp_all
  have fin: "ms_finished (e\<lparr>ms_results := b\<rparr>) = ms_finished e" by simp
  note IH = Cons.IH [OF e(2) Cons.prems(2) e(1) _ e(3), unfolded fin]
  show ?case
  proof (cases "0 \<le> sint v")
    case True
    let ?c = "\<lparr>ts_inner = v\<rparr>"
    have cs: "connections (v # vs) = ?c # connections vs" using True by (simp add: connections_def)
    show ?thesis
    proof (cases rule: spawn_cases [where X = X and t = ?t and f = "handler ?c" and D = D])
      case no
      then have "serve_poll D X handler a l t = Some (Inl UnwrapErr)"
        by (subst serve_poll.simps) (simp add: Cons.prems(4) st(1) reactor_value_ok [OF True] map_io_def)
      moreover from no have "accept_all D X handler (connections (v # vs)) ?t = Inl UnwrapErr" by (simp add: cs)
      then have "accept_all D X handler (connections (v # vs)) t = Inl UnwrapErr"
        unfolding accept_all_inner by (cases "accept_all D X handler (connections (v # vs)) t") simp_all
      moreover from IH [of ?t] obtain i :: "('u, 'ps, 'os, 'ms) inner" and b' where "uring i = uring (ri s)"
        "slab_get (multi D) (get_multishot i) k = Some (e\<lparr>ms_results := b'\<rparr>)" "rb_to_vec (rb D) b' = []" by auto
      ultimately show ?thesis by (intro exI [of _ i] exI [of _ b']) simp
    next
      case (ok j t1 t2 task)
      have "serve_poll D X handler a l t = serve_poll D X handler a l t2"
        by (subst serve_poll.simps) (simp add: Cons.prems(4) st(1) reactor_value_ok [OF True] map_io_def ok(2,3))
      moreover from IH [of t2] ok(4) obtain i b' where
        i: "serve_poll D X handler a l t2 = (case accept_all D X handler (connections vs) t2 of
            Inl p \<Rightarrow> Some (Inl p) | Inr t' \<Rightarrow> serve_end D X l (ms_finished e) (t'\<lparr>inner := i\<rparr>))" "uring i = uring (ri s)"
          "slab_get (multi D) (get_multishot i) k = Some (e\<lparr>ms_results := b'\<rparr>)" "rb_to_vec (rb D) b' = []" by auto
      moreover have "accept_all D X handler (connections (v # vs)) ?t = accept_all D X handler (connections vs) t2"
        using ok(2,3) by (simp add: cs)
      then have "(case accept_all D X handler (connections (v # vs)) t of
            Inl p \<Rightarrow> Some (Inl p) | Inr t' \<Rightarrow> serve_end D X l (ms_finished e) (t'\<lparr>inner := i\<rparr>)) =
          (case accept_all D X handler (connections vs) t2 of
            Inl p \<Rightarrow> Some (Inl p) | Inr t' \<Rightarrow> serve_end D X l (ms_finished e) (t'\<lparr>inner := i\<rparr>))"
        unfolding accept_all_inner by (cases "accept_all D X handler (connections (v # vs)) t") (auto split: sum.splits)
      ultimately show ?thesis by (intro exI [of _ i] exI [of _ b']) simp
    qed
  next
    case False
    then obtain err where "reactor_value_to_result v = Inl err" by (simp add: reactor_value_to_result_def)
    then have "serve_poll D X handler a l t = serve_poll D X handler a l ?t"
      by (subst serve_poll.simps) (simp add: Cons.prems(4) st(1) map_io_def)
    moreover have "connections (v # vs) = connections vs" using False by (simp add: connections_def)
    moreover from IH [of ?t] obtain i b' where
      i: "serve_poll D X handler a l ?t = (case accept_all D X handler (connections vs) ?t of
          Inl p \<Rightarrow> Some (Inl p) | Inr t' \<Rightarrow> serve_end D X l (ms_finished e) (t'\<lparr>inner := i\<rparr>))" "uring i = uring (ri s)"
        "slab_get (multi D) (get_multishot i) k = Some (e\<lparr>ms_results := b'\<rparr>)" "rb_to_vec (rb D) b' = []" by auto
    ultimately show ?thesis unfolding accept_all_inner
      by (intro exI [of _ i] exI [of _ b']) (cases "accept_all D X handler (connections vs) t"; simp)
  qed
qed

subsection \<open>The contract of the executor\<close>

text \<open>
  The main task uses the executor as \<open>executor_env\<close> asks of user code: a poll of it spawns tasks,
  and changes the reactor, the system and the channels of its own joiners.
\<close>

lemma effects_inner_world:
  fixes t0 t :: "('ws, 'g, 'i, 'w, 'v) thread" and i :: 'i
  shows "effects S X {} t0 t \<Longrightarrow> effects S X {} t0 (t\<lparr>inner := i, world := w\<rparr>)"
  using eff_env [where S = S and X = X and priv = "{}" and t = t0 and ?t1.0 = t and cs = "chans t" and i = i and w = w] by simp

lemma effects_inner:
  fixes t0 t :: "('ws, 'g, 'i, 'w, 'v) thread" and i :: 'i
  shows "effects S X {} t0 t \<Longrightarrow> effects S X {} t0 (t\<lparr>inner := i\<rparr>)"
  using effects_inner_world [where S = S and X = X and ?t0.0 = t0 and t = t and i = i and w = "world t"] by simp

lemma effects_joiner_drop:
  assumes "effects S X {} t0 t" "joiner_drop D X j t = Inr t'"
  shows "effects S X {} t0 t'"
proof -
  let ?cs = "(chans t)[tj_rx j := (chans t ! tj_rx j)\<lparr>ch_buf := None, ch_rx := False\<rparr>]"
  from assms(2) obtain i where "t' = t\<lparr>chans := ?cs, world := event_drop X (tj_evt j) (world t), inner := i\<rparr>"
    by (auto simp: joiner_drop_def Let_def rbind_eq_Inr)
  then have "t' = t\<lparr>inner := i, world := event_drop X (tj_evt j) (world t), chans := ?cs\<rparr>" by (cases t) simp
  moreover have "effects S X {} t0 (t\<lparr>inner := i, world := event_drop X (tj_evt j) (world t), chans := ?cs\<rparr>)"
    by (rule eff_env [OF assms(1)]) simp_all
  ultimately show ?thesis by simp
qed

lemma serve_poll_effects:
  assumes "serve_poll D X handler a l t = Some (Inr (p, l', t'))"
  shows "effects S X {} t t'"
proof -
  have "\<forall>S t0 p l' t'. y = Inr (p, l', t') \<longrightarrow> effects S X {} t0 t \<longrightarrow> effects S X {} t0 t'"
    if "serve_poll D X handler a l t = Some y" for y
  proof (rule serve_poll.raw_induct [OF _ that], goal_cases)
    case (1 loop D X handler a l t y)
    show ?case
    proof (intro allI impI)
      fix S t0 p l' t'
      assume y: "y = Inr (p, l', t')" and eff: "effects S X {} t0 t"
      note IH = 1(1) [rule_format, OF _ refl]
      note one = 1(2) [unfolded y]
      show "effects S X {} t0 t'"
      proof (cases "listener_poll_next D a l (inner t)")
        case (Inr r)
        obtain q l1 i1 where r: "r = (q, l1, i1)" by (cases r)
        have eff1: "effects S X {} t0 (t\<lparr>inner := i1\<rparr>)" by (rule effects_inner [OF eff])
        consider "q = Poll_Pending" | "q = Poll_Ready None" | e where "q = Poll_Ready (Some (Inl e))" | c where "q = Poll_Ready (Some (Inr c))"
          by (metis Poll.exhaust option.exhaust sum.exhaust)
        then show ?thesis
        proof cases
          case 1 with one Inr r eff1 show ?thesis by simp
        next
          case 2 with one Inr r eff show ?thesis
            by (auto simp: Let_def effects_inner_world split: sum.splits)
        next
          case 3 with one Inr r have "loop D X handler a l1 (t\<lparr>inner := i1\<rparr>) = Some (Inr (p, l', t'))" by simp
          from IH [OF this eff1] show ?thesis .
        next
          case (4 c)
          with one Inr r obtain j t1 t2 where "spawn X (handler c) (t\<lparr>inner := i1\<rparr>) = Inr (j, t1)" "joiner_drop D X j t1 = Inr t2"
              "loop D X handler a l1 t2 = Some (Inr (p, l', t'))"
            by (auto simp: Let_def split: sum.splits)
          from IH [OF this(3) effects_joiner_drop [OF eff_spawn [OF eff1 this(1)] this(2)]] show ?thesis .
        qed
      qed (use one in simp)
    qed
  qed
  with assms eff_refl show ?thesis by blast
qed

locale web_env = sl: slab_laws S
  for S :: "('ws, 'c web_fut Task) slab_api" +
  fixes D :: "('u, 'ps, 'os, 'ms, 'rb, nat) deps" and X :: "'w os_api" and handler :: "TcpStream \<Rightarrow> 'c"
    and hpoll :: "'c \<Rightarrow> nat \<Rightarrow> ('ws, 'c web_fut, ('u, 'ps, 'os, 'ms) inner, 'w, unit) thread \<Rightarrow>
      (unit Poll \<times> 'c \<times> ('ws, 'c web_fut, ('u, 'ps, 'os, 'ms) inner, 'w, unit) thread) rs option"
  assumes handler_effects: "hpoll c a t = Some (Inr (p, c', t')) \<Longrightarrow> effects S X {} t t'"

sublocale web_env \<subseteq> executor_env S D X "{}" "web_upoll D X handler hpoll"
proof
  fix g a t p g' t'
  assume "web_upoll D X handler hpoll g a t = Some (Inr (p, g', t'))"
  then show "effects S X {} t t'"
    by (cases g) (auto simp: web_upoll_def obind_eq_ok intro: serve_poll_effects handler_effects)
qed

subsection \<open>Properties\<close>

text \<open>
  C15. A poll of the server's main task ends. It takes the connections that the listener has
  buffered in the order of their arrival, skips the errors, and spawns a task for each of them;
  then it is pending as long as the accept operation is in flight, the waiting tasks are as
  before, and no result is left behind. If the system has no descriptor for the event of a task,
  the poll panics there, having spawned the tasks of the connections before.
\<close>

theorem server_accepts:
  fixes s :: "('u, 'ps, 'os, 'ms) rsys"
  assumes "reactor_deps D" "reachable D s" "multis s h = Some (tl_io l)" "tl_io l = MS_Submitted k ud"
    and "inflight s ud \<noteq> None" "inner t = ri s"
  shows "case accept_all D X handler (connections (buffered D s k)) t of
      Inr t1 \<Rightarrow> (\<exists>i ts. serve_poll D X handler a l t = Some (Inr (Poll_Pending, l, t1\<lparr>inner := i\<rparr>))
        \<and> run_q t1 = run_q t @ ts \<and> map (\<lambda>task. sf_fut (task_future task)) ts = map handler (connections (buffered D s k))
        \<and> waiting t1 = waiting t \<and> buffered D (s\<lparr>ri := i\<rparr>) k = [])
    | Inl p \<Rightarrow> serve_poll D X handler a l t = Some (Inl p)
        \<and> (\<exists>pre c post t1. connections (buffered D s k) = pre @ c # post
             \<and> accept_all D X handler pre t = Inr t1 \<and> no_event X (world t1))"
proof -
  have h: "multis s h = Some (MS_Submitted k ud)" using assms(3,4) by simp
  obtain e where e: "slab_get (multi D) (get_multishot (ri s)) k = Some e"
    by (rule reactor_deps.multi_handle_entry [OF assms(1) reactor_deps.reachable_inv [OF assms(1,2)] h])
  have vs: "rb_to_vec (rb D) (ms_results e) = buffered D s k" by (simp add: buffered_def e)
  from serve_poll_buffered [OF assms(1) h assms(4) e assms(6) vs, of X handler a] obtain i b where
    i: "serve_poll D X handler a l t = (case accept_all D X handler (connections (buffered D s k)) t of
        Inl p \<Rightarrow> Some (Inl p) | Inr t' \<Rightarrow> serve_end D X l (ms_finished e) (t'\<lparr>inner := i\<rparr>))"
      "slab_get (multi D) (get_multishot i) k = Some (e\<lparr>ms_results := b\<rparr>)" "rb_to_vec (rb D) b = []"
    by (elim exE conjE) (rule that)
  have fin: "\<not> ms_finished e" using reactor_deps.finished_not_inflight [OF assms(1,2) h e] assms(5) by blast
  have empty: "buffered D (s\<lparr>ri := i\<rparr>) k = []" using i(2,3) by (simp add: buffered_def)
  show ?thesis
  proof (cases "accept_all D X handler (connections (buffered D s k)) t")
    case (Inl p)
    with i(1) accept_all_panics [OF Inl] show ?thesis by simp
  next
    case (Inr t1)
    from accept_all_tasks [OF Inr] obtain ts where ts: "run_q t1 = run_q t @ ts"
      "map (\<lambda>task. sf_fut (task_future task)) ts = map handler (connections (buffered D s k))" "waiting t1 = waiting t" by blast
    have "serve_poll D X handler a l t = Some (Inr (Poll_Pending, l, t1\<lparr>inner := i\<rparr>))"
      by (simp add: i(1) Inr serve_end_def fin)
    with ts empty show ?thesis unfolding Inr sum.case by blast
  qed
qed

abbreviation any_events :: "sim os_api" where
  "any_events \<equiv> sim_os\<lparr>sys_eventfd := \<lambda>n fl w. (7, w), sys_dup := \<lambda>fd w. (Inr 7, w)\<rparr>"

text \<open>With descriptors for the event of every task, a poll spawns all of them.\<close>

lemma accept_all_ok:
  assumes "\<And>w. \<not> no_event X w"
  obtains t' where "accept_all D X handler cs t = Inr t'"
  using accept_all_panics [of D X handler cs t] assms by (cases "accept_all D X handler cs t") blast+

text \<open>A system with the descriptors for one task: the poll spawns the first and panics at the second.\<close>

abbreviation one_event :: "sim os_api" where
  "one_event \<equiv> sim_os\<lparr>sys_eventfd := \<lambda>n fl w. (if s_next w = 3 then 7 else - 1, w\<lparr>s_next := s_next w + 1\<rparr>), sys_dup := \<lambda>fd w. (Inr 7, w)\<rparr>"

theorem server_accepts_witness:
  "\<exists>s. buffered ring0 s 0 = [5, - 24, 6]
    \<and> (\<exists>t' ts. serve_poll ring0 any_events (\<lambda>c. c) 7 \<lparr>tl_inner = 4, tl_io = MS_Submitted 0 0\<rparr>
          \<lparr>waiting = (), run_q = [], ids = (\<lambda>_. 0), next_id = 0, inner = ri s, world = sim0, chans = []\<rparr>
        = Some (Inr (Poll_Pending, \<lparr>tl_inner = 4, tl_io = MS_Submitted 0 0\<rparr>, t'))
      \<and> run_q t' = ts \<and> map (\<lambda>task. sf_fut (task_future task)) ts = [\<lparr>ts_inner = 5\<rparr>, \<lparr>ts_inner = 6\<rparr>])
    \<and> serve_poll ring0 one_event (\<lambda>c. c) 7 \<lparr>tl_inner = 4, tl_io = MS_Submitted 0 0\<rparr>
          \<lparr>waiting = (), run_q = [], ids = (\<lambda>_. 0), next_id = 0, inner = ri s, world = sim0, chans = []\<rparr> = Some (Inl UnwrapErr)"
proof -
  let ?l = "\<lparr>tl_inner = 4, tl_io = MS_Submitted 0 0\<rparr>"
  obtain s where s: "rrun_init ring0 [NewMultishot 0, PollMultishot 0 entry0 7, Complete (cqe0 5 2), Complete (cqe0 (- 24) 2),
        Complete (cqe0 6 2)] = Inr s"
      "multis s 0 = Some (tl_io ?l)" "inflight s 0 \<noteq> None" "buffered ring0 s 0 = [5, - 24, 6]"
    by (simp add: reactor_eval buffered_def)
  let ?t = "\<lparr>waiting = (), run_q = [], ids = (\<lambda>_. 0), next_id = 0, inner = ri s, world = sim0, chans = []\<rparr>"
  have c: "connections [5, - 24, 6] = [\<lparr>ts_inner = 5\<rparr>, \<lparr>ts_inner = 6\<rparr>]" by (simp add: connections_def)
  have l: "tl_io ?l = MS_Submitted 0 0" and t: "inner ?t = ri s" by simp_all
  note W = server_accepts [OF ring0_deps rrun_init_reachable [OF s(1)] s(2) l s(3) t, where handler = "\<lambda>c. c" and a = 7, unfolded s(4) c]
  obtain t' where "accept_all ring0 any_events (\<lambda>c. c) [\<lparr>ts_inner = 5\<rparr>, \<lparr>ts_inner = 6\<rparr>] ?t = Inr t'"
    by (rule accept_all_ok [of any_events]) (simp_all add: no_event_def del: accept_all.simps)
  with W [where X = any_events] have ok: "\<exists>t' ts. serve_poll ring0 any_events (\<lambda>c. c) 7 ?l ?t = Some (Inr (Poll_Pending, ?l, t'))
      \<and> run_q t' = ts \<and> map (\<lambda>task. sf_fut (task_future task)) ts = [\<lparr>ts_inner = 5\<rparr>, \<lparr>ts_inner = 6\<rparr>]" by auto
  have "accept_all ring0 one_event (\<lambda>c. c) [\<lparr>ts_inner = 5\<rparr>, \<lparr>ts_inner = 6\<rparr>] ?t = Inl UnwrapErr"
    by (simp add: spawn_def event_new_def event_clone_def joiner_drop_def event_waiter_drop_def event_wait_def oneshot_io_drop_def
        oneshot_io_new_def event_drop_def sim_eval Let_def)
  with W [where X = one_event] ok s(4) show ?thesis by auto
qed

text \<open>
  When the accept operation has ended, the poll that finds out drops the listener, and panics if
  the ring answers the cancellation of an operation that is not in flight with an error.
\<close>

lemma server_end_panics:
  fixes s :: "('u, 'ps, 'os, 'ms) rsys"
  assumes "reactor_deps D" "reachable D s" "multis s h = Some (tl_io l)" "tl_io l = MS_Submitted k ud"
    and "slab_get (multi D) (get_multishot (ri s)) k = Some e" "ms_finished e" "inner t = ri s"
    and not_found: "\<And>ud. inflight s ud = None \<Longrightarrow> fst (uring_register_sync_cancel (ur D) (uring (ri s)) ud) \<noteq> None"
  shows "\<exists>p. serve_poll D X handler a l t = Some (Inl p)"
proof -
  have h: "multis s h = Some (MS_Submitted k ud)" using assms(3,4) by simp
  from serve_poll_buffered [OF assms(1) h assms(4,5,7) refl, of X handler a] obtain i where
    i: "serve_poll D X handler a l t = (case accept_all D X handler (connections (rb_to_vec (rb D) (ms_results e))) t of
        Inl p \<Rightarrow> Some (Inl p) | Inr t' \<Rightarrow> serve_end D X l (ms_finished e) (t'\<lparr>inner := i\<rparr>))" "uring i = uring (ri s)"
    by (elim exE conjE) (rule that)
  obtain err u where "uring_register_sync_cancel (ur D) (uring (ri s)) ud = (Some err, u)"
    using not_found [OF reactor_deps.finished_not_inflight [OF assms(1,2) h assms(5,6)]]
    by (cases "uring_register_sync_cancel (ur D) (uring (ri s)) ud") auto
  with i show ?thesis
    by (cases "accept_all D X handler (connections (rb_to_vec (rb D) (ms_results e))) t")
      (simp_all add: serve_end_def listener_drop_def multishot_io_drop_def assms(4,6))
qed

lemma server_end_panics_instance:
  "\<exists>t p. serve_poll (script_deps [] (\<lambda>_. Some 2) :: nat script_deps) any_events (\<lambda>c. c) 7 \<lparr>tl_inner = 4, tl_io = MS_Submitted 0 0\<rparr>
     (t :: (unit, TcpStream, _, sim, unit) thread) = Some (Inl p)"
proof -
  let ?D = "script_deps [] (\<lambda>_. Some 2) :: nat script_deps" and ?l = "\<lparr>tl_inner = 4, tl_io = MS_Submitted 0 0\<rparr>"
  obtain s e where s: "rrun_init ?D [NewMultishot 0, PollMultishot 0 entry0 7, Complete (cqe0 5 0)] = Inr s"
      "multis s 0 = Some (tl_io ?l)" "slab_get (multi ?D) (get_multishot (ri s)) 0 = Some e" "ms_finished e"
      "\<And>ud. fst (uring_register_sync_cancel (ur ?D) (uring (ri s)) ud) \<noteq> None"
    by (simp add: reactor_eval)
  let ?t = "\<lparr>waiting = (), run_q = [], ids = (\<lambda>_. 0), next_id = 0, inner = ri s, world = sim0, chans = []\<rparr>"
  from server_end_panics [OF scr.reactor_deps_axioms rrun_init_reachable [OF s(1)] s(2) _ s(3,4) _ s(5), of 0 ?t any_events "\<lambda>c. c" 7]
  show ?thesis by auto
qed

text \<open>
  \<open>main\<close> returns an error, with nothing spawned, if the port cannot be bound, and otherwise
  only once the main task and those of all connections are done: no task is left in either
  queue.
\<close>

lemma web_main_ends:
  assumes "web_main S D X handler hpoll args t = Some (Inr (r, t'))"
  shows "case r of
      Inl e \<Rightarrow> run_q t' = run_q t \<and> waiting t' = waiting t \<and> (\<exists>w. tcp_bind X (Inr [V4 0 (arg_port args)]) (world t) = Inr (Inl e, w))
    | Inr _ \<Rightarrow> run_q t' = [] \<and> slab_is_empty S (waiting t')"
proof -
  from assms obtain res w where b: "tcp_bind X (Inr [V4 0 (arg_port args)]) (world t) = Inr (res, w)"
    by (auto simp: web_main_def obind_eq_ok)
  show ?thesis
  proof (cases res)
    case (Inl e)
    with assms b show ?thesis by (auto simp: web_main_def)
  next
    case (Inr l)
    with assms b obtain v where r: "r = Inr ()" and
      "block_on S D X (web_upoll D X handler hpoll) (Serve l) (t\<lparr>world := w\<rparr>) = Some (Inr (v, t'))"
      by (auto simp: web_main_def obind_eq_ok)
    then obtain j t1 t2 where "executor_loop S D X (web_upoll D X handler hpoll) t1 = Some (Inr t2)" "join D X j t2 = Some (Inr (v, t'))"
      by (auto simp: block_on_def obind_eq_ok)
    with executor_loop_post [of S D X "web_upoll D X handler hpoll" t1 t2 "\<lambda>_. True"] r show ?thesis
      by (auto simp: join_def joiner_drop_def obind_eq_ok rbind_eq_Inr Let_def)
  qed
qed

text \<open>One connection comes, and the accept operation ends.\<close>

abbreviation done_at_once :: "TcpStream \<Rightarrow> nat \<Rightarrow> 't \<Rightarrow> (unit Poll \<times> TcpStream \<times> 't) rs option" where
  "done_at_once \<equiv> (\<lambda>c a t. Some (Inr (Poll_Ready (), c, t)))"

abbreviation web_thread0 :: "(TcpStream web_fut Task option list, TcpStream web_fut, (script_ring, nat PendingIo option list, ResultState option list,
    i32 list MultishotResultState option list) inner, sim, unit) thread" where
  "web_thread0 \<equiv> \<lparr>waiting = [], run_q = [], ids = (\<lambda>_. 0), next_id = 0,
     inner = (ri fresh)\<lparr>uring := \<lparr>sr_sq = [], sr_ready = [], sr_batches = [[cqe0 5 0]], sr_cancel = \<lambda>_. None\<rparr>\<rparr>,
     world = sim0, chans = []\<rparr>"

interpretation simserver: web_env vec_slab ring0 sim_os "\<lambda>c. c" done_at_once
  by unfold_locales (auto intro: eff_refl)

lemmas web_eval = spawn_def event_new_def event_clone_def event_wait_def event_drop_def notify_one_def sync_channel_def
  executor_iter_def react_if_idle_def spawn_fut_poll_def chan_send_def wake_def web_upoll_def listener_poll_next_def
  accept_entry_def listener_drop_def joiner_drop_def event_waiter_drop_def join_def chan_recv_def reactor_react_def react_def react_loop_Cons react_loop_Nil
  sim_eval vec_slab_simps oneshot_io_new_def Let_def

lemma web_main_run:
  "\<exists>t'. web_main vec_slab ring0 sim_os (\<lambda>c. c) done_at_once \<lparr>arg_port = 80, arg_webroot = []\<rparr> web_thread0 = Some (Inr (Inr (), t'))"
  apply (simp add: web_main_def tcp_bind_def mk_sock_def block_on_def web_eval reactor_eval)
  apply (subst executor_loop.simps, subst executor_iter_def, simp add: web_eval reactor_eval serve_poll.simps)+
  done

lemma web_main_ends_instance:
  "\<exists>t'. web_main vec_slab ring0 sim_os (\<lambda>c. c) done_at_once \<lparr>arg_port = 80, arg_webroot = []\<rparr> web_thread0 = Some (Inr (Inr (), t'))
     \<and> run_q t' = []"
proof -
  from web_main_run obtain t' where run: "web_main vec_slab ring0 sim_os (\<lambda>c. c) done_at_once
      \<lparr>arg_port = 80, arg_webroot = []\<rparr> web_thread0 = Some (Inr (Inr (), t'))" ..
  from web_main_ends [OF run] run show ?thesis by auto
qed

end
