(* ===== verification/WebProgram.thy ===== *)
theory WebProgram
  imports WebConn WebAccept
begin

text \<open>
  The web server as one program of the executor: the main task of \<open>WebAccept\<close>, and for every
  connection the async block around \<open>handle_connection\<close>, polled as the state machine of
  \<open>WebConn\<close>. The block ignores the result, apart from logging an error.
\<close>

type_synonym conn_fut = "TcpStream \<times> conn_pt async_state"

definition conn_poll :: "('u, 'ps, 'os, 'ms, 'rb, nat) deps \<Rightarrow> Args \<Rightarrow> 'w os_api \<Rightarrow> conn_fut \<Rightarrow> nat \<Rightarrow>
    ('ws, 'g, ('u, 'ps, 'os, 'ms) inner, 'w, 'v) thread \<Rightarrow>
    (unit Poll \<times> conn_fut \<times> ('ws, 'g, ('u, 'ps, 'os, 'ms) inner, 'w, 'v) thread) rs option" where
  "conn_poll D args X f a t = (case f of (conn, st) \<Rightarrow>
     obind (block_poll D (conn_step args X conn) a st (inner t) (world t)) (\<lambda>(p, st', i, w).
     Some (Inr (map_poll (\<lambda>_. ()) p, (conn, st'), t\<lparr>inner := i, world := w\<rparr>))))"

abbreviation web_poll :: "('u, 'ps, 'os, 'ms, 'rb, nat) deps \<Rightarrow> 'w os_api \<Rightarrow> Args \<Rightarrow>
    (conn_fut web_fut, ('ws, conn_fut web_fut, ('u, 'ps, 'os, 'ms) inner, 'w, unit) thread, unit) upoll" where
  "web_poll D X args \<equiv> web_upoll D X (\<lambda>conn. (conn, At conn_start)) (conn_poll D args X)"

definition web_server :: "('ws, conn_fut web_fut) task_slab \<Rightarrow> ('u, 'ps, 'os, 'ms, 'rb, nat) deps \<Rightarrow> 'w os_api \<Rightarrow> Args \<Rightarrow>
    ('ws, conn_fut web_fut, ('u, 'ps, 'os, 'ms) inner, 'w, unit) thread \<Rightarrow>
    (unit io_result \<times> ('ws, conn_fut web_fut, ('u, 'ps, 'os, 'ms) inner, 'w, unit) thread) rs option" where
  "web_server S D X args = web_main S D X (\<lambda>conn. (conn, At conn_start)) (conn_poll D args X) args"

subsection \<open>The contract of the executor\<close>

context web_env
begin

lemma runs_on_executor: "executor_env S X {} (web_upoll D X handler hpoll)"
  by unfold_locales

end

lemma conn_poll_effects: "conn_poll D args X c a t = Some (Inr (p, c', t')) \<Longrightarrow> effects S X {} t t'"
  by (cases c) (auto simp: conn_poll_def obind_eq_ok intro!: effects_inner_world eff_refl)

lemma web_program_env: "slab_laws S \<Longrightarrow> web_env S X (conn_poll D args X)"
  by (simp add: web_env_def web_env_axioms_def conn_poll_effects)

interpretation program: web_env vec_slab D X "\<lambda>conn. (conn, At conn_start)" "conn_poll D args X" for D X args
  by (rule web_program_env [OF vec.slab_laws_axioms])


text \<open>The main task puts tasks of new connections at the end of the run queue and does nothing else to the queues.\<close>

lemma serve_poll_spawns:
  assumes "serve_poll D X handler a l t = Some (Inr (p, l', t'))"
  shows "waiting t' = waiting t \<and> (\<exists>ts. run_q t' = run_q t @ ts \<and> (\<forall>task\<in>set ts. \<exists>conn. sf_fut (task_future task) = handler conn))"
proof -
  have dropped: "waiting t2 = waiting t1 \<and> run_q t2 = run_q t1" if "joiner_drop D X j t1 = Inr t2" for D X j t1 t2
    using that by (auto simp: joiner_drop_def Let_def rbind_eq_Inr)
  have "\<forall>p l' t'. y = Inr (p, l', t') \<longrightarrow> waiting t' = waiting t \<and>
      (\<exists>ts. run_q t' = run_q t @ ts \<and> (\<forall>task\<in>set ts. \<exists>conn. sf_fut (task_future task) = handler conn))"
    if "serve_poll D X handler a l t = Some y" for y
  proof (rule serve_poll.raw_induct [OF _ that], goal_cases)
    case (1 loop D X handler a l t y)
    show ?case
    proof (intro allI impI)
      fix p l' t'
      assume y: "y = Inr (p, l', t')"
      note IH = 1(1) [rule_format, OF _ refl]
      note one = 1(2) [unfolded y]
      show "waiting t' = waiting t \<and> (\<exists>ts. run_q t' = run_q t @ ts \<and> (\<forall>task\<in>set ts. \<exists>conn. sf_fut (task_future task) = handler conn))"
      proof (cases "listener_poll_next D a l (inner t)")
        case (Inr r)
        obtain q l1 i1 where r: "r = (q, l1, i1)" by (cases r)
        consider "q = Poll_Pending" | "q = Poll_Ready None" | e where "q = Poll_Ready (Some (Inl e))" | c where "q = Poll_Ready (Some (Inr c))"
          by (metis Poll.exhaust option.exhaust sum.exhaust)
        then show ?thesis
        proof cases
          case 3
          with one Inr r have "loop D X handler a l1 (t\<lparr>inner := i1\<rparr>) = Some (Inr (p, l', t'))" by simp
          from IH [OF this] show ?thesis by simp
        next
          case 4
          with one Inr r obtain j t2 t3 where sp: "spawn X (handler c) (t\<lparr>inner := i1\<rparr>) = Inr (j, t2)"
            "joiner_drop D X j t2 = Inr t3" "loop D X handler a l1 t3 = Some (Inr (p, l', t'))"
            by (auto simp: Let_def split: sum.splits)
          from sp(1) obtain task where t2: "waiting t2 = waiting t" "run_q t2 = run_q t @ [task]" "sf_fut (task_future task) = handler c"
            by (auto simp: spawn_def Let_def rbind_eq_Inr split: prod.splits sum.splits)
          from IH [OF sp(3)] dropped [OF sp(2)] t2 show ?thesis by auto
        qed (use one Inr r in \<open>auto simp: Let_def split: sum.splits\<close>)
      qed (use one in simp)
    qed
  qed
  with assms show ?thesis by blast
qed

subsection \<open>Properties\<close>

text \<open>
  One turn of the executor in the web server polls one task and leaves the others as they
  are. If it is the task of a connection, the turn is one poll of that connection's state
  machine, which then waits at its next await or is gone, and no task is created; if it is the
  main task, every new task is that of a connection, at its start.
\<close>

lemma web_turn:
  assumes "slab_laws S" "exec_inv S None t" "executor_iter S D X (web_poll D X args) t = Some (Inr (d, t'))"
  shows "exec_inv S None t' \<and> (\<exists>task T. tasks S t = insert task T \<and> task \<notin> T \<and> (case sf_fut (task_future task) of
      Serve l \<Rightarrow> T \<subseteq> tasks S t' \<and> (\<forall>task'\<in>tasks S t' - T. (\<exists>l'. sf_fut (task_future task') = Serve l' \<and> task_id task' = task_id task)
        \<or> (\<exists>conn. sf_fut (task_future task') = Handle (conn, At conn_start)))
    | Handle (conn, st) \<Rightarrow> \<exists>i w p st' i' w'. block_poll D (conn_step args X conn) (task_id task) st i w = Some (Inr (p, st', i', w'))
        \<and> tasks S t' = (if p = Poll_Pending then insert (task\<lparr>task_future := (task_future task)\<lparr>sf_fut := Handle (conn, st')\<rparr>\<rparr>) T else T)))"
proof -
  have env: "executor_env S X {} (web_poll D X args)"
    by (rule web_env.runs_on_executor [OF web_program_env [OF assms(1)]])
  obtain task t1 r g t2 where inv: "exec_inv S None t'"
    and turn: "executor_env.turn S X {} (web_poll D X args) t task t1 r g t2 t'"
    by (rule executor_env.executor_iter_turn [OF env assms(3,2)])
  note T = turn [unfolded executor_env.turn_def [OF env]]
  then have T: "tasks S t = insert task (tasks S t1)" "task \<notin> tasks S t1"
    and poll: "web_poll D X args (sf_fut (task_future task)) (task_id task) t1 = Some (Inr (r, g, t2))"
    and t': "tasks S t' = (if r = Poll_Pending then insert (task\<lparr>task_future := (task_future task)\<lparr>sf_fut := g\<rparr>\<rparr>) (tasks S t2) else tasks S t2)"
    by (auto simp: live_def split: Poll.splits)
  let ?case = "\<lambda>task T. case sf_fut (task_future task) of
      Serve l \<Rightarrow> T \<subseteq> tasks S t' \<and> (\<forall>task'\<in>tasks S t' - T. (\<exists>l'. sf_fut (task_future task') = Serve l' \<and> task_id task' = task_id task)
        \<or> (\<exists>conn. sf_fut (task_future task') = Handle (conn, At conn_start)))
    | Handle (conn, st) \<Rightarrow> \<exists>i w p st' i' w'. block_poll D (conn_step args X conn) (task_id task) st i w = Some (Inr (p, st', i', w'))
        \<and> tasks S t' = (if p = Poll_Pending then insert (task\<lparr>task_future := (task_future task)\<lparr>sf_fut := Handle (conn, st')\<rparr>\<rparr>) T else T)"
  have "?case task (tasks S t1)"
  proof (cases "sf_fut (task_future task)")
    case (Serve l)
    with poll obtain l' where l': "serve_poll D X (\<lambda>conn. Handle (conn, At conn_start)) (task_id task) l t1 = Some (Inr (r, l', t2))" "g = Serve l'"
      by (auto simp: web_upoll_def obind_eq_ok)
    from serve_poll_spawns [OF l'(1)] obtain ts where ts: "waiting t2 = waiting t1" "run_q t2 = run_q t1 @ ts"
      "\<forall>task\<in>set ts. \<exists>conn. sf_fut (task_future task) = Handle (conn, At conn_start)"
      by blast
    then have "tasks S t2 = tasks S t1 \<union> set ts" by (auto simp: tasks_def waiting_at_def)
    with Serve l'(2) t' ts(3) show ?thesis by auto
  next
    case (Handle c)
    obtain conn st where c: "c = (conn, st)" by (cases c)
    from poll Handle c obtain p st' i' w' where p: "block_poll D (conn_step args X conn) (task_id task) st (inner t1) (world t1) = Some (Inr (p, st', i', w'))"
      "r = map_poll (\<lambda>_. ()) p" "g = Handle (conn, st')" "t2 = t1\<lparr>inner := i', world := w'\<rparr>"
      by (auto simp: web_upoll_def conn_poll_def obind_eq_ok)
    have "tasks S t2 = tasks S t1" by (simp add: p(4) tasks_def waiting_at_def)
    moreover have "r = Poll_Pending \<longleftrightarrow> p = Poll_Pending" using p(2) by (cases p) simp_all
    ultimately have "tasks S t' = (if p = Poll_Pending then insert (task\<lparr>task_future := (task_future task)\<lparr>sf_fut := Handle (conn, st')\<rparr>\<rparr>)
        (tasks S t1) else tasks S t1)" using p(3) t' by simp
    with p(1) show ?thesis unfolding Handle c web_fut.case prod.case by (intro exI conjI)
  qed
  with inv T show ?thesis by blast
qed

abbreviation conn_thread :: "(conn_fut web_fut Task option list, conn_fut web_fut, (script_ring, nat PendingIo option list, ResultState option list,
    i32 list MultishotResultState option list) inner, sim, unit) thread" where
  "conn_thread \<equiv> \<lparr>waiting = [], run_q = [\<lparr>task_id = 0, task_future = \<lparr>sf_fut = Handle (\<lparr>ts_inner = 5\<rparr>, At conn_start), sf_evt = \<lparr>evt_inner = 3\<rparr>, sf_tx = 0\<rparr>\<rparr>],
     ids = (\<lambda>_. 0), next_id = 1, inner = ri fresh, world = sim0, chans = [sync_channel]\<rparr>"

lemma web_turn_instance:
  "\<exists>t' k. executor_iter vec_slab ring0 sim_os (web_poll ring0 sim_os \<lparr>arg_port = 80, arg_webroot = []\<rparr>) conn_thread = Some (Inr (False, t'))
    \<and> exec_inv vec_slab None t' \<and> waiting t' = [Some k]"
proof -
  have "\<exists>t' k. executor_iter vec_slab ring0 sim_os (web_poll ring0 sim_os \<lparr>arg_port = 80, arg_webroot = []\<rparr>) conn_thread = Some (Inr (False, t'))
      \<and> waiting t' = [Some k]"
    by (simp add: conn_poll_def block_poll_def block_advance.simps conn_defs contains_sub.simps web_eval reactor_eval
        iof_poll_def async_reader_poll_def reader_entry_def tcp_read_def)
  then obtain t' k where run: "executor_iter vec_slab ring0 sim_os (web_poll ring0 sim_os \<lparr>arg_port = 80, arg_webroot = []\<rparr>) conn_thread = Some (Inr (False, t'))"
    "waiting t' = [Some k]" by blast
  have "exec_inv vec_slab None conn_thread"
    by (simp add: exec_inv_def waiting_at_def live_def tasks_def vec_slab_simps ran_def)
  from conjunct1 [OF web_turn [OF vec.slab_laws_axioms this run(1)]] run show ?thesis by blast
qed

end
