(* ===== verification/Echo.thy ===== *)
theory Echo
  imports WebServerThms
begin

text \<open>
  The echo tasks of \<open>src/examples/tcp.rs\<close> and \<open>src/examples/tcp_serv.rs\<close>, which differ only in
  how they get their connection: its result is an argument.
\<close>

partial_function (option) echo_loop :: "'w kernel \<Rightarrow> TcpStream \<Rightarrow> u8 list \<Rightarrow> usize \<Rightarrow> 'w \<Rightarrow> (usize io_result \<times> 'w) option" where
  "echo_loop K sock buf bytes_read w = (case await_read K (tcp_read sock buf) w of
     None \<Rightarrow> None
   | Some (r, buf', w1) \<Rightarrow> (case r of
       Inl e \<Rightarrow> Some (Inl e, w1)
     | Inr count \<Rightarrow> if count = 0 then Some (Inr bytes_read, w1)
         else (case await_write K (tcp_write sock buf') w1 of
           None \<Rightarrow> None
         | Some (r, _, w2) \<Rightarrow> (case r of Inl e \<Rightarrow> Some (Inl e, w2) | Inr _ \<Rightarrow> echo_loop K sock buf' (bytes_read + 1) w2))))"

definition echo_task :: "'w kernel \<Rightarrow> 'w os_api \<Rightarrow> TcpStream io_result \<Rightarrow> 'w \<Rightarrow> (usize io_result \<times> 'w) option" where
  "echo_task K X conn w = (case conn of
     Inl e \<Rightarrow> Some (Inl e, w)
   | Inr sock \<Rightarrow> map_option (\<lambda>(r, w'). (r, sys_close X (ts_inner sock) w')) (echo_loop K sock [0] 0 w))"

context streams
begin

lemma echo_loop_sends:
  assumes "incoming w (ts_inner sock) = map (\<lambda>b. [b]) bs" "length buf = 1"
  shows "\<exists>r w' out. echo_loop K sock buf n w = Some (map_io (\<lambda>_. n + length bs) r, w')
    \<and> sent w' = (sent w)(ts_inner sock := sent w (ts_inner sock) @ out) \<and> sends (map (\<lambda>b. [b]) bs) r out"
  using assms
proof (induction bs arbitrary: w buf n)
  case Nil
  have r: "ar_fd (tcp_read sock buf) = ts_inner sock" "ar_buf (tcp_read sock buf) = buf" by (simp_all add: tcp_read_def)
  obtain w' where w': "await_read K (tcp_read sock buf) w = Some (Inr 0, buf, w')" "sent w' = sent w"
    by (rule await_read_end [of w "tcp_read sock buf", unfolded r]) (use Nil in simp_all)
  from w'(1) have "echo_loop K sock buf n w = Some (Inr n, w')" by (subst echo_loop.simps) simp
  with w'(2) show ?case by (intro exI [of _ "Inr ()"] exI [of _ w'] exI [of _ "[]"]) (simp add: fun_upd_idem map_io_def)
next
  case (Cons b bs)
  have r: "ar_fd (tcp_read sock buf) = ts_inner sock" "ar_buf (tcp_read sock buf) = buf" by (simp_all add: tcp_read_def)
  have b: "[b] \<noteq> []" "length [b] \<le> length buf" "length buf < 2 ^ 31" "length [b] < 2 ^ 31" using Cons.prems(2) by simp_all
  have i: "incoming w (ts_inner sock) = [b] # map (\<lambda>b. [b]) bs" using Cons.prems(1) by simp
  obtain w1 where w1: "await_read K (tcp_read sock buf) w = Some (Inr (length [b]), [b] @ drop (length [b]) buf, w1)"
      "incoming w1 = (incoming w)(ts_inner sock := map (\<lambda>b. [b]) bs)" "sent w1 = sent w"
    by (rule await_read_piece [of w "tcp_read sock buf", unfolded r, OF i b(1-3)])
  obtain q m w2 out where w2: "await_write K (tcp_write sock [b]) w1 = Some (q, m, w2)" "incoming w2 = incoming w1"
      "sent w2 = (sent w1)(ts_inner sock := sent w1 (ts_inner sock) @ out)" "sends [[b]] (map_io (\<lambda>_. ()) q) out"
    by (rule write_sends [OF b(4)])
  have loop: "echo_loop K sock buf n w = (case q of Inl e \<Rightarrow> Some (Inl e, w2) | Inr _ \<Rightarrow> echo_loop K sock [b] (n + 1) w2)"
    using Cons.prems(2) w1(1) w2(1) by (subst echo_loop.simps) simp
  show ?case
  proof (cases q)
    case (Inl e)
    have "sends (map (\<lambda>b. [b]) (b # bs)) (Inl e) out" unfolding list.map
      by (rule sends_cons(2)) (use w2(4) in \<open>simp only: Inl map_io_def sum.case\<close>)
    moreover have "echo_loop K sock buf n w = Some (map_io (\<lambda>_. n + length (b # bs)) (Inl e), w2)"
      using loop by (simp add: Inl map_io_def)
    ultimately show ?thesis using w2(3) unfolding w1(3) by blast
  next
    case (Inr x)
    have "\<exists>r w' out. echo_loop K sock [b] (n + 1) w2 = Some (map_io (\<lambda>_. n + 1 + length bs) r, w')
        \<and> sent w' = (sent w2)(ts_inner sock := sent w2 (ts_inner sock) @ out) \<and> sends (map (\<lambda>b. [b]) bs) r out"
      by (rule Cons.IH) (simp_all add: w1(2) w2(2))
    then obtain r w' out' where w': "echo_loop K sock [b] (n + 1) w2 = Some (map_io (\<lambda>_. n + 1 + length bs) r, w')"
        "sent w' = (sent w2)(ts_inner sock := sent w2 (ts_inner sock) @ out')" "sends (map (\<lambda>b. [b]) bs) r out'" by blast
    have "sends (map (\<lambda>b. [b]) (b # bs)) r (out @ out')" unfolding list.map
      by (rule sends_cons(1) [OF _ w'(3)]) (use w2(4) in \<open>simp only: Inr map_io_def sum.case\<close>)
    moreover have "echo_loop K sock buf n w = Some (map_io (\<lambda>_. n + length (b # bs)) r, w')" using loop w'(1) by (simp add: Inr)
    moreover have "sent w' = (sent w)(ts_inner sock := sent w (ts_inner sock) @ out @ out')" using w'(2) w2(3) w1(3) by simp
    ultimately show ?thesis by blast
  qed
qed

end

subsection \<open>Properties\<close>

text \<open>
  The echo task sends back what it receives: when the peer has sent the bytes \<open>bs\<close> and then
  closed its side, the task ends, has written \<open>bs\<close> byte by byte, closes the connection and returns
  their number, or the error of the write that fails. It returns the error if there is no connection.
\<close>

lemma echo_all:
  assumes "streams K incoming sent" "incoming w (ts_inner sock) = map (\<lambda>b. [b]) bs"
  shows "(\<exists>r w' out. echo_task K X (Inr sock) w = Some (map_io (\<lambda>_. length bs) r, sys_close X (ts_inner sock) w')
      \<and> sent w' = (sent w)(ts_inner sock := sent w (ts_inner sock) @ out) \<and> sends (map (\<lambda>b. [b]) bs) r out)
    \<and> echo_task K X (Inl e) w = Some (Inl e, w)"
proof -
  have "\<exists>r w' out. echo_loop K sock [0] 0 w = Some (map_io (\<lambda>_. 0 + length bs) r, w')
      \<and> sent w' = (sent w)(ts_inner sock := sent w (ts_inner sock) @ out) \<and> sends (map (\<lambda>b. [b]) bs) r out"
    by (rule streams.echo_loop_sends [OF assms]) simp
  then show ?thesis by (auto simp: echo_task_def)
qed

lemma echo_all_instance:
  "\<exists>r w'. echo_task sim_kernel net_os (Inr \<lparr>ts_inner = 5\<rparr>)
      \<lparr>n_in = (\<lambda>_. [])(5 := [[104], [105]]), n_out = \<lambda>_. [], n_files = [], n_data = \<lambda>_. [], n_closed = [], n_room = \<lambda>_. 9999\<rparr>
        = Some (map_io (\<lambda>_. 2) r, w')
    \<and> sends [[104], [105]] r (n_out w' 5)"
proof -
  let ?w = "\<lparr>n_in = (\<lambda>_. [])(5 := [[104], [105]]), n_out = \<lambda>_. [], n_files = [], n_data = \<lambda>_. [], n_closed = [], n_room = \<lambda>_. 9999\<rparr>"
  have "n_in ?w (ts_inner \<lparr>ts_inner = 5\<rparr>) = map (\<lambda>b. [b]) [104, 105]" by simp
  from conjunct1 [OF echo_all [OF simst.streams_axioms this, of net_os e]] obtain r w' out where
    1: "echo_task sim_kernel net_os (Inr \<lparr>ts_inner = 5\<rparr>) ?w = Some (map_io (\<lambda>_. length [104 :: u8, 105]) r, sys_close net_os (ts_inner \<lparr>ts_inner = 5\<rparr>) w')"
      "n_out w' = (n_out ?w)(ts_inner \<lparr>ts_inner = 5\<rparr> := n_out ?w (ts_inner \<lparr>ts_inner = 5\<rparr>) @ out)" "sends (map (\<lambda>b. [b]) [104, 105]) r out"
    by (elim exE conjE) (rule that)
  have "n_out (sys_close net_os (ts_inner \<lparr>ts_inner = 5\<rparr>) w') 5 = out" using 1(2) by (simp add: net_os_def)
  moreover have "sends [[104], [105]] r out" using 1(3) unfolding list.map .
  moreover have "length [104 :: u8, 105] = (2 :: nat)" by simp
  ultimately show ?thesis using 1(1) by metis
qed

end
