(* ===== verification/EchoBlock.thy ===== *)
theory EchoBlock
  imports Echo AsyncBlock
begin

text \<open>
  The state machine of the echo loop of \<open>src/examples/tcp.rs\<close> and \<open>src/examples/tcp_serv.rs\<close>, and
  its meaning: polling it gives what \<open>echo_task\<close> gives in direct style.
\<close>

datatype echo_pt =
    E_Loop "u8 list" usize                          \<comment> \<open>the head of the loop, with \<open>buf\<close> and \<open>bytes_read\<close>\<close>
  | E_Got "usize io_result" "u8 list" usize         \<comment> \<open>after the read\<close>
  | E_Sent "usize io_result" "u8 list" usize        \<comment> \<open>after the write\<close>

definition await_piece :: "TcpStream \<Rightarrow> u8 list \<Rightarrow> usize \<Rightarrow> 'w \<Rightarrow> (echo_pt, usize io_result, 'w) act" where
  "await_piece sock buf bytes_read w = A_Await (F_Read (tcp_read sock buf)) (\<lambda>x m. E_Got (out_count x) m bytes_read) w"

fun echo_step :: "'w os_api \<Rightarrow> TcpStream \<Rightarrow> echo_pt \<Rightarrow> 'w \<Rightarrow> (echo_pt, usize io_result, 'w) act" where
  "echo_step X sock (E_Loop buf bytes_read) w = await_piece sock buf bytes_read w"
| "echo_step X sock (E_Got r buf bytes_read) w = (case r of
     Inl e \<Rightarrow> A_Return (Inl e) (sys_close X (ts_inner sock) w)
   | Inr count \<Rightarrow> if count = 0 then A_Return (Inr bytes_read) (sys_close X (ts_inner sock) w)
       else A_Await (F_Write (tcp_write sock buf)) (\<lambda>x _. E_Sent (out_count x) buf (bytes_read + 1)) w)"
| "echo_step X sock (E_Sent r buf bytes_read) w = (case r of
     Inl e \<Rightarrow> A_Return (Inl e) (sys_close X (ts_inner sock) w)
   | Inr _ \<Rightarrow> await_piece sock buf bytes_read w)"

abbreviation echo_start :: echo_pt where
  "echo_start \<equiv> E_Loop [0] 0"

subsection \<open>Meaning\<close>

abbreviation (input) sock_end :: "'w os_api \<Rightarrow> TcpStream \<Rightarrow> (usize io_result \<times> 'w) option \<Rightarrow> (usize io_result \<times> 'w) rs option" where
  "sock_end X sock \<equiv> map_option (\<lambda>(r, w). Inr (r, sys_close X (ts_inner sock) w))"

fun echo_sem :: "'w kernel \<Rightarrow> 'w os_api \<Rightarrow> TcpStream \<Rightarrow> echo_pt \<Rightarrow> 'w \<Rightarrow> (usize io_result \<times> 'w) rs option" where
  "echo_sem K X sock (E_Loop buf n) w = sock_end X sock (echo_loop K sock buf n w)"
| "echo_sem K X sock (E_Got r buf n) w = sock_end X sock (case r of
     Inl e \<Rightarrow> Some (Inl e, w)
   | Inr count \<Rightarrow> if count = 0 then Some (Inr n, w)
       else (case await_write K (tcp_write sock buf) w of
         None \<Rightarrow> None
       | Some (r, _, w2) \<Rightarrow> (case r of Inl e \<Rightarrow> Some (Inl e, w2) | Inr _ \<Rightarrow> echo_loop K sock buf (n + 1) w2)))"
| "echo_sem K X sock (E_Sent r buf n) w = sock_end X sock (case r of Inl e \<Rightarrow> Some (Inl e, w) | Inr _ \<Rightarrow> echo_loop K sock buf n w)"

lemma echo_sem_act: "echo_sem K X sock q w = act_run K (echo_sem K X sock) (echo_step X sock q w)"
proof -
  have piece: "act_run K (echo_sem K X sock) (await_piece sock buf n w) = sock_end X sock (echo_loop K sock buf n w)" for buf n w
    by (subst echo_loop.simps) (auto simp: await_piece_def split: option.splits sum.splits)
  show ?thesis by (cases q) (auto simp: piece split: option.splits sum.splits)
qed

abbreviation echo_run :: "'w kernel \<Rightarrow> 'w os_api \<Rightarrow> TcpStream \<Rightarrow> echo_pt \<Rightarrow> 'w \<Rightarrow> (usize io_result \<times> 'w) rs option" where
  "echo_run K X sock \<equiv> direct_run K (echo_step X sock)"

lemma echo_run_simps:
  "echo_run K X sock (E_Got r buf n) w = (case r of
     Inl e \<Rightarrow> Some (Inr (Inl e, sys_close X (ts_inner sock) w))
   | Inr count \<Rightarrow> if count = 0 then Some (Inr (Inr n, sys_close X (ts_inner sock) w))
       else (case await_write K (tcp_write sock buf) w of None \<Rightarrow> None | Some (x, m, w2) \<Rightarrow> echo_run K X sock (E_Sent x buf (n + 1)) w2))"
  "echo_run K X sock (E_Sent r buf n) w = (case r of
     Inl e \<Rightarrow> Some (Inr (Inl e, sys_close X (ts_inner sock) w))
   | Inr _ \<Rightarrow> act_run K (echo_run K X sock) (await_piece sock buf n w))"
  by (subst direct_run_act; cases r; simp split: option.splits)+

lemma piece_run:
  assumes "echo_loop K sock buf n w = Some (r, w')"
  shows "act_run K (echo_run K X sock) (await_piece sock buf n w) = Some (Inr (r, sys_close X (ts_inner sock) w'))"
proof -
  have "K' = K \<longrightarrow> sock' = sock \<longrightarrow> (\<forall>r w'. y = (r, w') \<longrightarrow> act_run K (echo_run K X sock) (await_piece sock buf n w) =
      Some (Inr (r, sys_close X (ts_inner sock) w')))"
    if "echo_loop K' sock' buf n w = Some y" for K' sock' buf n w y
  proof (rule echo_loop.raw_induct [OF _ that], goal_cases)
    case (1 loop K' sock' buf n w y)
    then show ?case
      by (subst await_piece_def) (auto simp: echo_run_simps split: option.splits sum.splits if_splits)
  qed
  with assms show ?thesis by blast
qed

lemma echo_run_eq:
  fixes w :: 'w
  shows "echo_run K X sock echo_start w = map_option Inr (echo_task K X (Inr sock) w)"
proof (rule option_agree)
  fix out
  assume "echo_run K X sock echo_start w = Some out"
  from direct_run_least [where sem = "echo_sem K X sock", OF echo_sem_act this]
  show "map_option Inr (echo_task K X (Inr sock) w) = Some out" by (auto simp: echo_task_def)
next
  fix out :: "(usize io_result \<times> 'w) rs"
  assume "map_option Inr (echo_task K X (Inr sock) w) = Some out"
  then obtain r w' where "echo_loop K sock [0] 0 w = Some (r, w')" "out = Inr (r, sys_close X (ts_inner sock) w')"
    by (auto simp: echo_task_def)
  with piece_run [OF this(1), of X] show "echo_run K X sock echo_start w = Some out" by (subst direct_run_act) simp
qed

lemma echo_step_fresh: "echo_step X sock q w = A_Await f k w1 \<Longrightarrow> iof_io f = OS_New"
  by (cases q) (auto simp: await_piece_def tcp_read_def tcp_write_def oneshot_io_new_def split: sum.splits if_splits)

lemma echo_block: "reactor_deps D \<Longrightarrow> async_block D (echo_step X sock)"
  by (simp add: async_block_def async_block_axioms_def echo_step_fresh)

interpretation simecho: async_block ring0 "echo_step net_os sock" for sock
  by (rule echo_block [OF ring0_deps])


subsection \<open>Properties\<close>


abbreviation two_bytes :: simnet where
  "two_bytes \<equiv> \<lparr>n_in = (\<lambda>_. [])(5 := [[104], [105]]), n_out = \<lambda>_. [], n_files = [], n_data = \<lambda>_. [], n_closed = [], n_room = \<lambda>_. 9999\<rparr>"

lemma echo_quiet:
  "\<exists>w. quiet_run ring0 sim_kernel (echo_step net_os \<lparr>ts_inner = 5\<rparr>) 7 1 (Suc (Suc (Suc (Suc (Suc (Suc 0)))))) (At echo_start) fresh two_bytes
     = Some (Inr 2, w) \<and> n_out w 5 = [104, 105]"
  by (simp add: block_eval await_piece_def net_os_def)


end
