(* ===== verification/Timer.thy ===== *)
theory Timer
  imports ReadWrite SimOs
begin

text \<open>
  Timers, \<open>src/src/futures/timer.rs\<close>: a timerfd armed at the first poll with the time that is
  left and read through the ring. A \<open>SystemTime\<close> is nanoseconds since the epoch, a
  \<open>Duration\<close> a number of nanoseconds; the clock is read by \<open>sys_now\<close>, whose readings need not
  be ordered.
\<close>

record Timer =
  tm_expiration :: int
  tm_io :: OneshotIoState
  tm_buf :: "u8 list"
  tm_fd :: i32

abbreviation NANOS :: int where "NANOS \<equiv> 1000000000"

text \<open>\<open>SystemTime + Duration\<close> panics when the seconds leave their 64 bits.\<close>

definition system_time_add :: "int \<Rightarrow> nat \<Rightarrow> int rs" where
  "system_time_add t d = (if t + int d < 2 ^ 63 * NANOS then Inr (t + int d)
     else Inl (PanicMsg ''overflow when adding duration to instant''))"

definition duration_since :: "int \<Rightarrow> int \<Rightarrow> int option" where
  "duration_since later earlier = (if earlier \<le> later then Some (later - earlier) else None)"

definition timer_sleep :: "'w os_api \<Rightarrow> nat \<Rightarrow> 'w \<Rightarrow> (Timer io_result \<times> 'w) rs" where
  "timer_sleep X d w =
     (let (now, w1) = sys_now X w
      in rbind (system_time_add now d) (\<lambda>expiration.
         let (timer, w2) = sys_timerfd_create X CLOCK_MONOTONIC TFD_NONBLOCK w1
         in if timer = - 1 then Inr (Inl (last_os_error X w2), w2)
            else Inr (Inr \<lparr>tm_expiration = expiration, tm_io = oneshot_io_new,
                           tm_buf = replicate 8 0, tm_fd = timer\<rparr>, w2)))"

definition timer_arm :: "'w os_api \<Rightarrow> 't \<Rightarrow> (Timer \<times> 'w, 't) closure" where
  "timer_arm X waker = (\<lambda>(this, w).
     (let (now, w1) = sys_now X w
      in rbind (case duration_since (tm_expiration this) now of
                  None \<Rightarrow> Inl UnwrapErr | Some d \<Rightarrow> Inr d) (\<lambda>expiration.
         let tv_sec = (of_int (expiration div NANOS) :: i64);
             tv_nsec = (of_int (expiration mod NANOS) :: i64);
             (ret, w2) = sys_timerfd_settime X (tm_fd this) 0 tv_sec tv_nsec w1
         in if ret = - 1 then Inl (PanicMsg ''timerfd_settime returned error'')
            else Inr ((build (Op_Read (tm_fd this) (InFuture ''buf'')
                         (usize_as_u32 (length (tm_buf this))) None), waker), (this, w2)))))"

definition timer_poll ::
    "('u, 'ps, 'os, 'ms, 'rb, 't) deps \<Rightarrow> 'w os_api \<Rightarrow> 't \<Rightarrow> Timer \<Rightarrow> ('u, 'ps, 'os, 'ms) inner \<Rightarrow> 'w \<Rightarrow>
     (unit Poll \<times> Timer \<times> ('u, 'ps, 'os, 'ms) inner \<times> 'w) rs" where
  "timer_poll D X waker self i w =
     (let (now, w1) = sys_now X w
      in if tm_expiration self < now then Inr (Poll_Ready (), self, i, w1)
         else rbind (oneshot_submit_or_get_result D (timer_arm X waker) (tm_io self) i (self, w1))
                (\<lambda>(x, io', i', (this, w2)).
              Inr (map_poll (\<lambda>_. ()) x, this\<lparr>tm_io := io'\<rparr>, i', w2)))"

subsection \<open>Lemmas\<close>

lemma arm_value:
  assumes "0 \<le> d" "d < 2 ^ 63 * NANOS"
  shows "sint (of_int (d div NANOS) :: i64) * NANOS + sint (of_int (d mod NANOS) :: i64) = d"
    "0 \<le> sint (of_int (d mod NANOS) :: i64)" "sint (of_int (d mod NANOS) :: i64) < NANOS"
proof -
  have small: "sint (of_int n :: i64) = n" if "0 \<le> n" "n < 2 ^ 63" for n
    using that by (simp add: signed_of_int signed_take_bit_int_eq_self)
  have "d div NANOS < 2 ^ 63" using assms by (simp add: div_less_iff_less_mult)
  then have q: "sint (of_int (d div NANOS) :: i64) = d div NANOS"
    using assms by (intro small) (simp_all add: pos_imp_zdiv_nonneg_iff)
  have r: "sint (of_int (d mod NANOS) :: i64) = d mod NANOS"
    by (intro small) (simp_all add: order.strict_trans [OF pos_mod_bound])
  show "sint (of_int (d div NANOS) :: i64) * NANOS + sint (of_int (d mod NANOS) :: i64) = d"
    unfolding q r by (rule div_mult_mod_eq)
  show "0 \<le> sint (of_int (d mod NANOS) :: i64)" "sint (of_int (d mod NANOS) :: i64) < NANOS"
    unfolding r by simp_all
qed

lemma timer_first_poll:
  assumes "tm_io self = OS_New" "sys_now X w = (now1, w1)" "now1 \<le> tm_expiration self"
    and "timer_poll D X waker self i w = Inr (p, self', i', w')"
  obtains now2 w2 ret where "sys_now X w1 = (now2, w2)" "now2 \<le> tm_expiration self" "p = Poll_Pending"
    "sys_timerfd_settime X (tm_fd self) 0 (of_int ((tm_expiration self - now2) div NANOS))
       (of_int ((tm_expiration self - now2) mod NANOS)) w2 = (ret, w')" "ret \<noteq> - 1"
proof -
  from assms obtain e self0 where arm: "timer_arm X waker (self, w1) = Inr (e, (self0, w'))"
    and p: "p = Poll_Pending"
    by (auto simp: timer_poll_def rbind_eq_Inr oneshot_first)
  obtain now2 w2 where now: "sys_now X w1 = (now2, w2)" by fastforce
  obtain ret w3 where set: "sys_timerfd_settime X (tm_fd self) 0 (of_int ((tm_expiration self - now2) div NANOS))
       (of_int ((tm_expiration self - now2) mod NANOS)) w2 = (ret, w3)" by fastforce
  from arm now set p that show thesis
    by (auto simp: timer_arm_def duration_since_def split: if_splits)
qed

subsection \<open>Properties\<close>

text \<open>
  C32. The first poll of a timer that has not expired is pending and arms the timerfd, once,
  with exactly the time that is left when the closure reads the clock: whole seconds and a
  nanosecond part below one second, without wrap-around in the 64-bit fields.
\<close>

theorem timer_arms_remaining:
  assumes "tm_io self = OS_New" "sys_now X w = (now1, w1)" "now1 \<le> tm_expiration self"
    and "timer_poll D X waker self i w = Inr (p, self', i', w')"
    and "\<And>w. 0 \<le> fst (sys_now X w)" "tm_expiration self < 2 ^ 63 * NANOS"
  shows "p = Poll_Pending \<and> (\<exists>now2 w2 sec nsec ret. sys_now X w1 = (now2, w2)
    \<and> sys_timerfd_settime X (tm_fd self) 0 sec nsec w2 = (ret, w') \<and> ret \<noteq> - 1
    \<and> sint sec * NANOS + sint nsec = tm_expiration self - now2 \<and> 0 \<le> sint nsec \<and> sint nsec < NANOS)"
proof -
  from timer_first_poll [OF assms(1-4)] obtain now2 w2 ret where
    1: "sys_now X w1 = (now2, w2)" "now2 \<le> tm_expiration self" "p = Poll_Pending"
      "sys_timerfd_settime X (tm_fd self) 0 (of_int ((tm_expiration self - now2) div NANOS))
         (of_int ((tm_expiration self - now2) mod NANOS)) w2 = (ret, w')" "ret \<noteq> - 1" .
  have "0 \<le> now2" using assms(5) [of w1] 1(1) by simp
  with 1(2) assms(6) have d: "0 \<le> tm_expiration self - now2" "tm_expiration self - now2 < 2 ^ 63 * NANOS" by simp_all
  from 1 arm_value [OF d] show ?thesis by blast
qed

theorem timer_arms_remaining_witness:
  "\<exists>self' i' w'. timer_poll ring0 sim_os 7
      \<lparr>tm_expiration = 5 * NANOS, tm_io = OS_New, tm_buf = replicate 8 0, tm_fd = 3\<rparr> (ri fresh)
      (sim0\<lparr>s_clock := [1, 2999999993]\<rparr>) = Inr (Poll_Pending, self', i', w') \<and> s_armed w' = [(3, 2, 7)]"
proof -
  let ?t = "\<lparr>tm_expiration = 5 * NANOS, tm_io = OS_New, tm_buf = replicate 8 0, tm_fd = 3\<rparr>"
  let ?w = "sim0\<lparr>s_clock := [1, 2999999993]\<rparr>"
  have nonneg: "0 \<le> fst (sys_now sim_os w)" for w by (auto simp: sim_os_def split: list.splits)
  obtain p self' i' w' where run: "timer_poll ring0 sim_os 7 ?t (ri fresh) ?w = Inr (p, self', i', w')"
      "s_armed w' = [(3, 2, 7)]"
    by (simp add: timer_poll_def timer_arm_def duration_since_def futures_eval sim_eval)
  have "sys_now sim_os ?w = (1, ?w\<lparr>s_clock := [2999999993]\<rparr>)" by (simp add: sim_eval)
  from timer_arms_remaining [OF _ this _ run(1) nonneg] run show ?thesis by simp
qed

text \<open>
  C33. A poll of a timer is ready exactly when the clock has passed the expiration or the read
  of its timerfd has finished, with whatever result.
\<close>

theorem timer_ready_iff:
  assumes "timer_poll D X waker self i w = Inr (p, self', i', w')" "sys_now X w = (now, w1)"
  shows "p = Poll_Ready () \<longleftrightarrow> tm_expiration self < now \<or> (\<exists>r. tm_io self' = OS_Finished r)"
proof (cases "tm_expiration self < now")
  case False
  with assms obtain x io' this w2 where
    "oneshot_submit_or_get_result D (timer_arm X waker) (tm_io self) i (self, w1) = Inr (x, io', i', (this, w2))"
    "p = map_poll (\<lambda>_. ()) x" "self' = this\<lparr>tm_io := io'\<rparr>"
    by (auto simp: timer_poll_def rbind_eq_Inr)
  with oneshot_poll_of_state [OF this(1)] False show ?thesis by (cases io') (simp_all add: poll_of_state_def)
qed (use assms in \<open>simp add: timer_poll_def\<close>)

theorem timer_ready_iff_witness:
  "\<exists>self' i' w' r. timer_poll ring0 sim_os 7
      \<lparr>tm_expiration = 5, tm_io = OS_Submitted 0, tm_buf = replicate 8 0, tm_fd = 3\<rparr>
      ((ri fresh)\<lparr>results := \<lparr>rr_oneshot = [Some (RS_Set 8)], rr_multishot = []\<rparr>\<rparr>) sim0
    = Inr (Poll_Ready (), self', i', w') \<and> tm_io self' = OS_Finished r"
proof -
  let ?t = "\<lparr>tm_expiration = 5, tm_io = OS_Submitted 0, tm_buf = replicate 8 0, tm_fd = 3\<rparr>"
  let ?i = "(ri fresh)\<lparr>results := \<lparr>rr_oneshot = [Some (RS_Set 8)], rr_multishot = []\<rparr>\<rparr>"
  obtain p self' i' w' where run: "timer_poll ring0 sim_os 7 ?t ?i sim0 = Inr (p, self', i', w')"
      "tm_io self' = OS_Finished 8"
    by (simp add: timer_poll_def futures_eval sim_eval)
  have "sys_now sim_os sim0 = (0, sim0)" by (simp add: sim_eval)
  from timer_ready_iff [OF run(1) this] run show ?thesis by auto
qed

text \<open>
  C34. The two readings of the clock in the first poll race. If the first is not past the
  expiration and the second is, the poll panics. If the second is the expiration itself, the
  timerfd is armed with zero, which for the kernel means to disarm it.
\<close>

theorem timer_race:
  assumes "tm_io self = OS_New" "sys_now X w = (now1, w1)" "now1 \<le> tm_expiration self"
    and "sys_now X w1 = (now2, w2)"
  shows "(tm_expiration self < now2 \<longrightarrow> timer_poll D X waker self i w = Inl UnwrapErr)
    \<and> (now2 = tm_expiration self \<and> timer_poll D X waker self i w = Inr (p, self', i', w') \<longrightarrow>
        p = Poll_Pending \<and> (\<exists>ret. sys_timerfd_settime X (tm_fd self) 0 0 0 w2 = (ret, w')))"
proof (rule conjI; rule impI)
  assume "tm_expiration self < now2"
  with assms show "timer_poll D X waker self i w = Inl UnwrapErr"
    by (simp add: timer_poll_def oneshot_submit_or_get_result_def timer_arm_def duration_since_def)
next
  assume 1: "now2 = tm_expiration self \<and> timer_poll D X waker self i w = Inr (p, self', i', w')"
  from timer_first_poll [OF assms(1-3) conjunct2 [OF 1]] assms(4) 1
  show "p = Poll_Pending \<and> (\<exists>ret. sys_timerfd_settime X (tm_fd self) 0 0 0 w2 = (ret, w'))" by auto
qed

theorem timer_race_witness:
  "timer_poll ring0 sim_os 7 \<lparr>tm_expiration = 5, tm_io = OS_New, tm_buf = replicate 8 0, tm_fd = 3\<rparr> (ri fresh)
     (sim0\<lparr>s_clock := [5, 6]\<rparr>) = Inl UnwrapErr"
proof -
  let ?t = "\<lparr>tm_expiration = 5, tm_io = OS_New, tm_buf = replicate 8 0, tm_fd = 3\<rparr>"
  have new: "tm_io ?t = OS_New" by simp
  have now: "sys_now sim_os (sim0\<lparr>s_clock := [5, 6]\<rparr>) = (5, sim0\<lparr>s_clock := [6]\<rparr>)"
    "sys_now sim_os (sim0\<lparr>s_clock := [6]\<rparr>) = (6, sim0\<lparr>s_clock := [6]\<rparr>)"
    by (simp_all add: sim_eval)
  from timer_race [OF new now(1) _ now(2), of ring0 7 "ri fresh"] show ?thesis by simp
qed

end
