(* ===== verification/Sleeps.thy ===== *)
theory Sleeps
  imports Timer TaskLoop
begin

text \<open>
  The tasks of \<open>src/examples/\<close> that sleep and print lines: the first tasks of \<open>tcp.rs\<close>,
  \<open>tcp_serv.rs\<close> and \<open>udp.rs\<close>, and both tasks of \<open>timer.rs\<close>, with its \<open>main\<close>. Such a task is given by its
  script: for how long it sleeps before each of its lines. \<open>println!\<close> is the argument \<open>print\<close>,
  which acts on the state of the system.
\<close>

datatype line = Text string | Received usize SocketAddr | Sent usize | Finished usize

text \<open>Dropping a timer drops its handle and closes its timerfd.\<close>

definition timer_drop :: "('u, 'ps, 'os, 'ms, 'rb, 't) deps \<Rightarrow> 'w os_api \<Rightarrow> Timer \<Rightarrow>
    ('u, 'ps, 'os, 'ms) inner \<Rightarrow> 'w \<Rightarrow> (('u, 'ps, 'os, 'ms) inner \<times> 'w) rs" where
  "timer_drop D X self i w = rbind (oneshot_io_drop D (tm_io self) i) (\<lambda>i1. Inr (i1, sys_close X (tm_fd self) w))"

type_synonym script = "(nat \<times> line) list"

text \<open>The states of such a task: at the head of what is left of its script, waiting for a timer, done.\<close>

datatype Sleeps = SL_At script | SL_Wait Timer line script | SL_Done

type_synonym ('u, 'ps, 'os, 'ms, 'w) sleeps_out = "(unit Poll \<times> Sleeps \<times> ('u, 'ps, 'os, 'ms) inner \<times> 'w) rs"

definition sleep_await :: "('u, 'ps, 'os, 'ms, 'rb, 't) deps \<Rightarrow> 'w os_api \<Rightarrow> (line \<Rightarrow> 'w \<Rightarrow> 'w) \<Rightarrow> 't \<Rightarrow> Timer \<Rightarrow> line \<Rightarrow> script \<Rightarrow>
    (('u, 'ps, 'os, 'ms) inner \<Rightarrow> 'w \<Rightarrow> ('u, 'ps, 'os, 'ms, 'w) sleeps_out) \<Rightarrow>
    ('u, 'ps, 'os, 'ms) inner \<Rightarrow> 'w \<Rightarrow> ('u, 'ps, 'os, 'ms, 'w) sleeps_out" where
  "sleep_await D X print a tm msg rest go_on i w =
     rbind (timer_poll D X a tm i w) (\<lambda>(p, tm', i1, w1).
     case p of
       Poll_Pending \<Rightarrow> Inr (Poll_Pending, SL_Wait tm' msg rest, i1, w1)
     | Poll_Ready _ \<Rightarrow> rbind (timer_drop D X tm' i1 w1) (\<lambda>(i2, w2). go_on i2 (print msg w2)))"

fun sleeps_loop :: "('u, 'ps, 'os, 'ms, 'rb, 't) deps \<Rightarrow> 'w os_api \<Rightarrow> (line \<Rightarrow> 'w \<Rightarrow> 'w) \<Rightarrow> 't \<Rightarrow> script \<Rightarrow>
    ('u, 'ps, 'os, 'ms) inner \<Rightarrow> 'w \<Rightarrow> ('u, 'ps, 'os, 'ms, 'w) sleeps_out" where
  "sleeps_loop D X print a [] i w = Inr (Poll_Ready (), SL_Done, i, w)"
| "sleeps_loop D X print a ((d, msg) # rest) i w = rbind (timer_sleep X d w) (\<lambda>(r, w1).
     case r of
       Inl e \<Rightarrow> Inl UnwrapErr
     | Inr tm \<Rightarrow> sleep_await D X print a tm msg rest (\<lambda>i' w'. sleeps_loop D X print a rest i' w') i w1)"

definition sleeps_poll :: "('u, 'ps, 'os, 'ms, 'rb, 't) deps \<Rightarrow> 'w os_api \<Rightarrow> (line \<Rightarrow> 'w \<Rightarrow> 'w) \<Rightarrow> 't \<Rightarrow> Sleeps \<Rightarrow>
    ('u, 'ps, 'os, 'ms) inner \<Rightarrow> 'w \<Rightarrow> ('u, 'ps, 'os, 'ms, 'w) sleeps_out" where
  "sleeps_poll D X print a st i w = (case st of
     SL_At script \<Rightarrow> sleeps_loop D X print a script i w
   | SL_Wait tm msg rest \<Rightarrow> sleep_await D X print a tm msg rest (\<lambda>i' w'. sleeps_loop D X print a rest i' w') i w
   | SL_Done \<Rightarrow> Inl (PanicMsg ''async fn resumed after completion''))"

text \<open>On a thread, and spawned with the joiner thrown away.\<close>

definition sleeps_upoll :: "('u, 'ps, 'os, 'ms, 'rb, nat) deps \<Rightarrow> 'w os_api \<Rightarrow> (line \<Rightarrow> 'w \<Rightarrow> 'w) \<Rightarrow> Sleeps \<Rightarrow> nat \<Rightarrow>
    ('ws, 'g, ('u, 'ps, 'os, 'ms) inner, 'w, 'v) thread \<Rightarrow>
    (unit Poll \<times> Sleeps \<times> ('ws, 'g, ('u, 'ps, 'os, 'ms) inner, 'w, 'v) thread) rs option" where
  "sleeps_upoll D X print st a t = obind (Some (sleeps_poll D X print a st (inner t) (world t))) (\<lambda>(p, st', i, w).
     Some (Inr (p, st', t\<lparr>inner := i, world := w\<rparr>)))"

definition spawn_detach :: "('u, 'ps, 'os, 'ms, 'rb, nat) deps \<Rightarrow> 'w os_api \<Rightarrow> 'g \<Rightarrow>
    ('ws, 'g, ('u, 'ps, 'os, 'ms) inner, 'w, 'v) thread \<Rightarrow> ('ws, 'g, ('u, 'ps, 'os, 'ms) inner, 'w, 'v) thread rs" where
  "spawn_detach D X f t = rbind (spawn X f t) (\<lambda>(joiner, t1). joiner_drop D X joiner t1)"

subsection \<open>The scripts, and \<open>timer.rs\<close>\<close>

abbreviation secs :: "nat \<Rightarrow> nat" where "secs n \<equiv> n * 1000000000"
abbreviation millis :: "nat \<Rightarrow> nat" where "millis n \<equiv> n * 1000000"

definition timer_upper :: script where
  "timer_upper = [(secs 2, Text ''Hello A!''), (secs 1, Text ''Hello B!''), (secs 1, Text ''Hello C!'')]"

definition timer_lower :: script where
  "timer_lower = [(secs 2, Text ''Hello a!''), (secs 1, Text ''Hello b!''), (secs 1, Text ''Hello c!'')]"

definition tcp_hello :: script where
  "tcp_hello = [(millis 500, Text ''Hello A!''), (secs 1, Text ''Hello B!''), (secs 1, Text ''Hello C!'')]"

definition tcp_serv_hello :: script where
  "tcp_serv_hello = [(millis 500, Text ''Hello A!''), (secs 1, Text ''Hello B!''), (secs 1, Text ''Hello C!''),
     (secs 1, Text ''Hello D!'')]"

definition udp_hello :: script where
  "udp_hello = [(millis 500, Text ''Hello A!''), (secs 1, Text ''Hello B!''), (secs 1, Text ''Hello C!'')]"

definition timer_main :: "('ws, Sleeps) task_slab \<Rightarrow> ('u, 'ps, 'os, 'ms, 'rb, nat) deps \<Rightarrow> 'w os_api \<Rightarrow> (line \<Rightarrow> 'w \<Rightarrow> 'w) \<Rightarrow>
    ('ws, Sleeps, ('u, 'ps, 'os, 'ms) inner, 'w, unit) thread \<Rightarrow>
    ('ws, Sleeps, ('u, 'ps, 'os, 'ms) inner, 'w, unit) thread rs option" where
  "timer_main S D X print t =
     obind (Some (spawn_detach D X (SL_At timer_upper) t)) (\<lambda>t1.
     obind (Some (spawn_detach D X (SL_At timer_lower) t1)) (\<lambda>t2.
     run S D X (sleeps_upoll D X print) t2))"

subsection \<open>What a poll prints\<close>

fun to_print :: "Sleeps \<Rightarrow> line list" where
  "to_print (SL_At script) = map snd script"
| "to_print (SL_Wait tm msg rest) = msg # map snd rest"
| "to_print SL_Done = []"

text \<open>What is relied on: a line is added to what has been printed, and system calls print nothing.\<close>

locale console =
  fixes X :: "'w os_api" and print :: "line \<Rightarrow> 'w \<Rightarrow> 'w" and printed :: "'w \<Rightarrow> line list"
  assumes print_line: "printed (print m w) = printed w @ [m]"
    and quiet_close: "printed (sys_close X fd w) = printed w"
    and quiet_now: "printed (snd (sys_now X w)) = printed w"
    and quiet_timerfd: "printed (snd (sys_timerfd_create X clock fl w)) = printed w"
    and quiet_settime: "printed (snd (sys_timerfd_settime X fd fl sec nsec w)) = printed w"
    and quiet_eventfd: "printed (snd (sys_eventfd X n fl w)) = printed w"
    and quiet_dup: "printed (snd (sys_dup X fd w)) = printed w"
    and quiet_write: "printed (snd (sys_write X fd bs w)) = printed w"
    and quiet_socket: "printed (snd (sys_socket X family type proto w)) = printed w"
    and quiet_bind: "printed (snd (sys_bind X fd bs n w)) = printed w"
    and quiet_listen: "printed (snd (sys_listen X fd backlog w)) = printed w"
    and quiet_udp_bind: "printed (snd (sys_udp_bind X as w)) = printed w"
begin

lemmas quiet [simp] = print_line quiet_close quiet_now quiet_timerfd quiet_settime quiet_eventfd quiet_dup quiet_write
  quiet_socket quiet_bind quiet_listen quiet_udp_bind

lemma timer_sleep_quiet: "timer_sleep X d w = Inr (r, w') \<Longrightarrow> printed w' = printed w"
  by (auto simp: timer_sleep_def rbind_eq_Inr case_prod_beta Let_def split: if_splits)

lemma timer_poll_quiet:
  assumes "timer_poll D X a tm i w = Inr (p, tm', i', w')"
  shows "printed w' = printed w"
proof -
  have arm: "printed w2 = printed w1" if "timer_arm X a (this, w1) = Inr (e, (this', w2))" for this w1 e this' w2
    using that by (auto simp: timer_arm_def rbind_eq_Inr case_prod_beta Let_def split: if_splits)
  have "printed w' = printed (snd (sys_now X w))"
    using assms arm by (auto simp: timer_poll_def rbind_eq_Inr oneshot_submit_or_get_result_def case_prod_beta
        split: if_splits OneshotIoState.splits)
  then show ?thesis by simp
qed

lemma sleep_await_prints:
  assumes "sleep_await D X print a tm msg rest go_on i w = Inr (p, st, i', w')"
    and "\<And>i1 w1. go_on i1 w1 = Inr (p, st, i', w') \<Longrightarrow>
      \<exists>ms. printed w' = printed w1 @ ms \<and> map snd rest = ms @ to_print st \<and> (p = Poll_Ready () \<longleftrightarrow> st = SL_Done)"
  shows "\<exists>ms. printed w' = printed w @ ms \<and> msg # map snd rest = ms @ to_print st \<and> (p = Poll_Ready () \<longleftrightarrow> st = SL_Done)"
proof -
  from assms(1) obtain q tm' i1 w1 where tp: "timer_poll D X a tm i w = Inr (q, tm', i1, w1)"
    by (auto simp: sleep_await_def rbind_eq_Inr)
  note quiet1 = timer_poll_quiet [OF tp]
  show ?thesis
  proof (cases q)
    case Poll_Pending
    with assms(1) tp quiet1 show ?thesis by (auto simp: sleep_await_def)
  next
    case (Poll_Ready u)
    with assms(1) tp obtain i2 where "go_on i2 (print msg (sys_close X (tm_fd tm') w1)) = Inr (p, st, i', w')"
      by (auto simp: sleep_await_def timer_drop_def rbind_eq_Inr)
    from assms(2) [OF this] quiet1 show ?thesis by auto
  qed
qed

lemma sleeps_loop_prints:
  "sleeps_loop D X print a script i w = Inr (p, st, i', w') \<Longrightarrow>
     \<exists>ms. printed w' = printed w @ ms \<and> map snd script = ms @ to_print st \<and> (p = Poll_Ready () \<longleftrightarrow> st = SL_Done)"
proof (induction script arbitrary: i w)
  case (Cons x rest)
  obtain d msg where x: "x = (d, msg)" by fastforce
  from Cons.prems obtain r w1 where r: "timer_sleep X d w = Inr (r, w1)" by (auto simp: x rbind_eq_Inr)
  with Cons.prems obtain tm where tm: "timer_sleep X d w = Inr (Inr tm, w1)"
    and aw: "sleep_await D X print a tm msg rest (\<lambda>i' w'. sleeps_loop D X print a rest i' w') i w1 = Inr (p, st, i', w')"
    by (cases r) (auto simp: x)
  from sleep_await_prints [OF aw Cons.IH] timer_sleep_quiet [OF tm] show ?case by (auto simp: x)
qed simp

lemma sleeps_poll_prints:
  assumes "sleeps_poll D X print a st i w = Inr (p, st', i', w')"
  shows "\<exists>ms. printed w' = printed w @ ms \<and> to_print st = ms @ to_print st' \<and> (p = Poll_Ready () \<longleftrightarrow> st' = SL_Done)"
proof (cases st)
  case (SL_Wait tm msg rest)
  with assms have "sleep_await D X print a tm msg rest (\<lambda>i' w'. sleeps_loop D X print a rest i' w') i w = Inr (p, st', i', w')"
    by (simp add: sleeps_poll_def)
  from sleep_await_prints [OF this sleeps_loop_prints] SL_Wait show ?thesis by simp
qed (use assms sleeps_loop_prints [of D a _ i w p st' i' w'] in \<open>simp_all add: sleeps_poll_def\<close>)

end

end
