(* ===== verification/Output.thy ===== *)
theory Output
  imports Sleeps
begin

text \<open>
  What a program of several printing tasks prints: when the executor's loop returns, the lines of
  all its tasks, interleaved, each task's in their order.
\<close>

inductive interleaves :: "(nat \<Rightarrow> 'a list) \<Rightarrow> 'a list \<Rightarrow> bool" where
  il_nil: "\<forall>i. f i = [] \<Longrightarrow> interleaves f []"
| il_cons: "f i = m # xs \<Longrightarrow> interleaves (f(i := xs)) ms \<Longrightarrow> interleaves f (m # ms)"

lemma interleaves_prefix:
  "f i = ms @ xs \<Longrightarrow> interleaves (f(i := xs)) ms' \<Longrightarrow> interleaves f (ms @ ms')"
proof (induction ms arbitrary: f)
  case Nil
  then show ?case by (simp add: fun_upd_idem)
next
  case (Cons m ms)
  from Cons.prems have "interleaves (f(i := ms @ xs)) (ms @ ms')" by (intro Cons.IH) (simp_all only: fun_upd_same fun_upd_upd)
  with Cons.prems(1) show ?case by (auto intro: il_cons)
qed

lemma interleaves_two:
  assumes "interleaves f ms" "i \<noteq> j" "\<And>k. k \<noteq> i \<Longrightarrow> k \<noteq> j \<Longrightarrow> f k = []"
  shows "ms \<in> shuffles (f i) (f j)"
  using assms
proof (induction rule: interleaves.induct)
  case (il_cons f k m xs ms)
  have "k = i \<or> k = j" using il_cons.hyps(1) il_cons.prems(2) by force
  with il_cons show ?case by (auto intro: Cons_in_shuffles_leftI Cons_in_shuffles_rightI)
qed simp

locale output_program = executor_env S D X priv upoll + console X print printed
  for S :: "('ws, 'g Task) slab_api" and D :: "('u, 'ps, 'os, 'ms, 'rb, nat) deps" and X :: "'w os_api" and priv
    and upoll :: "('g, ('ws, 'g, ('u, 'ps, 'os, 'ms) inner, 'w, 'v) thread, 'v) upoll"
    and print :: "line \<Rightarrow> 'w \<Rightarrow> 'w" and printed :: "'w \<Rightarrow> line list" +
  fixes lines :: "'g \<Rightarrow> line list set"
  assumes poll_output: "upoll g a t = Some (Inr (p, g', t')) \<Longrightarrow> tasks S t' = tasks S t
    \<and> (\<exists>ms. printed (world t') = printed (world t) @ ms \<and> (\<forall>ls\<in>case p of Poll_Pending \<Rightarrow> lines g' | Poll_Ready _ \<Rightarrow> {[]}. ms @ ls \<in> lines g))"
begin

text \<open>
  \<open>lines g\<close> are the outputs a future may still have. \<open>covers t F\<close>: \<open>F\<close> are those of the tasks of \<open>t\<close>, by
  their identifiers.
\<close>

definition covers :: "('ws, 'g, ('u, 'ps, 'os, 'ms) inner, 'w, 'v) thread \<Rightarrow> (nat \<Rightarrow> line list set) \<Rightarrow> bool" where
  "covers t F \<longleftrightarrow> (\<forall>task\<in>tasks S t. F (task_id task) = lines (sf_fut (task_future task))) \<and> (\<forall>a. a \<notin> live S t \<longrightarrow> F a = {[]})"

definition outputs :: "(nat \<Rightarrow> line list set) \<Rightarrow> line list set" where
  "outputs F = {ms. \<exists>f. (\<forall>a. f a \<in> F a) \<and> interleaves f ms}"

lemma outputs_prefix:
  assumes "\<forall>ls\<in>L. ms @ ls \<in> F a" "ms' \<in> outputs (F(a := L))"
  shows "ms @ ms' \<in> outputs F"
proof -
  from assms(2) obtain f where f: "\<And>b. f b \<in> (F(a := L)) b" "interleaves f ms'" unfolding outputs_def by blast
  let ?f = "f(a := ms @ f a)"
  have "interleaves (?f(a := f a)) ms'" using f(2) by simp
  then have "interleaves ?f (ms @ ms')" by (rule interleaves_prefix [rotated]) simp
  moreover have "?f b \<in> F b" for b using f(1) [of b] assms(1) by (cases "b = a") simp_all
  ultimately show ?thesis unfolding outputs_def by blast
qed

lemma finish_quiet: "printed (finish sf w) = printed w"
  by (simp add: finish_def event_drop_def notify_one_def Let_def case_prod_beta)

lemma turn_covers:
  assumes it: "executor_iter S D X upoll t = Some (Inr (d, t'))" and inv: "exec_inv S None t" and F: "covers t F"
  shows "exec_inv S None t' \<and> (\<exists>F' ms. covers t' F' \<and> printed (world t') = printed (world t) @ ms
    \<and> (\<forall>ms'\<in>outputs F'. ms @ ms' \<in> outputs F))"
proof -
  obtain task t1 r g t2 where inv': "exec_inv S None t'" and turn: "turn t task t1 r g t2 t'"
    by (rule executor_iter_turn [OF it inv])
  let ?a = "task_id task" and ?rest = "case r of Poll_Pending \<Rightarrow> lines g | Poll_Ready _ \<Rightarrow> {[]}"
  from turn have tasks: "tasks S t = insert task (tasks S t1)" "?a \<notin> live S t1" and w: "world t1 = world t"
    and poll: "upoll (sf_fut (task_future task)) ?a t1 = Some (Inr (r, g, t2))" by (simp_all add: turn_def)
  from poll_output [OF poll] obtain ms where t2: "tasks S t2 = tasks S t1" and ms: "printed (world t2) = printed (world t1) @ ms"
    "\<forall>ls\<in>?rest. ms @ ls \<in> lines (sf_fut (task_future task))" by blast
  have "printed (world t') = printed (world t2)" using turn by (cases r) (auto simp: turn_def finish_quiet)
  with ms(1) w have out: "printed (world t') = printed (world t) @ ms" by simp
  have Fa: "\<forall>ls\<in>?rest. ms @ ls \<in> F ?a" using F ms(2) tasks(1) by (simp add: covers_def)
  have other: "task_id task' \<noteq> ?a" if "task' \<in> tasks S t1" for task' using tasks(2) that by (metis imageI live_def)
  have t': "tasks S t' = (if r = Poll_Pending then insert (task\<lparr>task_future := (task_future task)\<lparr>sf_fut := g\<rparr>\<rparr>) (tasks S t1) else tasks S t1)"
    using turn t2 by (auto simp: turn_def split: Poll.splits)
  have live: "a \<notin> live S t" if "a \<notin> live S t'" "a \<noteq> ?a" for a
    using that t' tasks(1) by (auto simp: live_def split: if_splits)
  have "covers t' (F(?a := ?rest))"
    unfolding covers_def
  proof (intro conjI ballI allI impI)
    fix task' assume "task' \<in> tasks S t'"
    with t' consider "r = Poll_Pending" "task' = task\<lparr>task_future := (task_future task)\<lparr>sf_fut := g\<rparr>\<rparr>" | "task' \<in> tasks S t1"
      by (auto split: if_splits)
    then show "(F(?a := ?rest)) (task_id task') = lines (sf_fut (task_future task'))"
      by cases (use F tasks(1) other in \<open>auto simp: covers_def\<close>)
  next
    fix a assume a: "a \<notin> live S t'"
    show "(F(?a := ?rest)) a = {[]}"
    proof (cases "a = ?a")
      case True
      with a t' have "r \<noteq> Poll_Pending" by (auto simp: live_def)
      with True show ?thesis by (cases r) simp_all
    next
      case False
      with live [OF a] F show ?thesis by (simp add: covers_def)
    qed
  qed
  with inv' out outputs_prefix [of ?rest ms F ?a] Fa show ?thesis by blast
qed

lemma loop_output:
  assumes loop: "executor_loop S D X upoll t = Some (Inr t')" and inv: "exec_inv S None t" and F: "covers t F"
  shows "\<exists>ms\<in>outputs F. printed (world t') = printed (world t) @ ms"
proof -
  let ?P = "\<lambda>s. exec_inv S None s \<and> (\<exists>F' ms. covers s F' \<and> printed (world s) = printed (world t) @ ms
      \<and> (\<forall>ms'\<in>outputs F'. ms @ ms' \<in> outputs F))"
  have "?P t' \<and> run_q t' = [] \<and> slab_is_empty S (waiting t')"
  proof (rule executor_loop_post [where P = ?P, OF loop])
    show "?P t" using inv F by (intro conjI exI [of _ F] exI [of _ "[]"]) simp_all
  next
    fix s d s' assume P: "?P s" and it: "executor_iter S D X upoll s = Some (Inr (d, s'))"
    then obtain F' ms where F': "covers s F'" "printed (world s) = printed (world t) @ ms"
      "\<forall>ms'\<in>outputs F'. ms @ ms' \<in> outputs F" by blast
    from turn_covers [OF it conjunct1 [OF P] F'(1)] obtain F2 ms2 where "exec_inv S None s'" "covers s' F2"
      "printed (world s') = printed (world s) @ ms2" "\<forall>ms'\<in>outputs F2. ms2 @ ms' \<in> outputs F'" by blast
    with F'(2,3) show "?P s'" by (intro conjI exI [of _ F2] exI [of _ "ms @ ms2"]) simp_all
  qed
  then obtain F' ms where F': "covers t' F'" "printed (world t') = printed (world t) @ ms" "\<forall>ms'\<in>outputs F'. ms @ ms' \<in> outputs F"
    and empty: "tasks S t' = {}" by (auto simp: tasks_def waiting_at_def sl.is_empty_iff)
  have "interleaves (\<lambda>_. []) ([] :: line list)" by (intro il_nil) simp
  moreover have "[] \<in> F' a" for a using F'(1) empty by (simp add: covers_def live_def)
  ultimately have "[] \<in> outputs F'" unfolding outputs_def by (intro CollectI exI [of _ "\<lambda>_. []"]) simp
  with F'(2,3) show ?thesis by force
qed

lemma spawn_covers:
  assumes sp: "spawn X g t = Inr (j, t')" and inv: "exec_inv S None t" and F: "covers t F"
  shows "exec_inv S None t'" "covers t' (F(next_id t := lines g))" "printed (world t') = printed (world t)" "next_id t' = Suc (next_id t)"
proof -
  obtain evt where r: "run_q t' = run_q t @ [\<lparr>task_id = next_id t, task_future = \<lparr>sf_fut = g, sf_evt = evt, sf_tx = length (chans t)\<rparr>\<rparr>]"
    and w: "waiting t' = waiting t" and n: "next_id t' = Suc (next_id t)" by (rule spawn_task [OF sp])
  define task where "task = \<lparr>task_id = next_id t, task_future = \<lparr>sf_fut = g, sf_evt = evt, sf_tx = length (chans t)\<rparr>\<rparr>"
  have t': "run_q t' = run_q t @ [task]" "waiting t' = waiting t" "next_id t' = Suc (next_id t)"
    and task: "task_id task = next_id t" "sf_fut (task_future task) = g" using r w n by (simp_all add: task_def)
  have tasks: "tasks S t' = insert task (tasks S t)" using t' by (auto simp: tasks_def waiting_at_def)
  have "task_id task' \<noteq> next_id t" if "task' \<in> tasks S t" for task'
    using exec_invD(4) [OF inv, of "task_id task'"] that by (auto simp: live_def)
  with F show "covers t' (F(next_id t := lines g))" by (auto simp: covers_def tasks task live_def)
  show "exec_inv S None t'" by (rule spawn_inv(1) [OF inv sp])
  show "next_id t' = Suc (next_id t)" by (rule t'(3))
  show "printed (world t') = printed (world t)"
    using sp by (auto simp: spawn_def event_new_def event_clone_def Let_def rbind_eq_Inr case_prod_beta split: sum.splits if_splits)
qed

lemma joiner_drop_quiet:
  assumes "joiner_drop D X j t = Inr t'"
  shows "tasks S t' = tasks S t" "next_id t' = next_id t" "printed (world t') = printed (world t)" "exec_inv S c t' \<longleftrightarrow> exec_inv S c t"
    "covers t' f \<longleftrightarrow> covers t f"
proof -
  have t': "run_q t' = run_q t" "waiting t' = waiting t" "ids t' = ids t" "next_id t' = next_id t" "printed (world t') = printed (world t)"
    using assms by (auto simp: joiner_drop_def Let_def rbind_eq_Inr event_drop_def)
  then have "waiting_at S t' = waiting_at S t" by (simp add: waiting_at_def)
  with t' show tasks: "tasks S t' = tasks S t" and "exec_inv S c t' \<longleftrightarrow> exec_inv S c t"
    by (simp_all add: tasks_def exec_inv_def live_def)
  show "next_id t' = next_id t" "printed (world t') = printed (world t)" by (rule t')+
  show "covers t' f \<longleftrightarrow> covers t f" by (simp add: covers_def live_def tasks)
qed

lemma detach_covers:
  assumes "spawn_detach D X g t = Inr t'" and inv: "exec_inv S None t" and F: "covers t F"
  shows "exec_inv S None t'" "covers t' (F(next_id t := lines g))" "printed (world t') = printed (world t)" "next_id t' = Suc (next_id t)"
proof -
  from assms(1) obtain j t1 where 1: "spawn X g t = Inr (j, t1)" "joiner_drop D X j t1 = Inr t'"
    by (auto simp: spawn_detach_def rbind_eq_Inr)
  note spawn_covers [OF 1(1) inv F] joiner_drop_quiet [OF 1(2)]
  then show "exec_inv S None t'" "covers t' (F(next_id t := lines g))" "printed (world t') = printed (world t)" "next_id t' = Suc (next_id t)"
    by simp_all
qed

lemma covers_none: "tasks S t = {} \<Longrightarrow> covers t (\<lambda>_. {[]})"
  by (simp add: covers_def)

end

subsection \<open>Tasks that sleep and print\<close>

lemma sleeps_upoll_effects:
  fixes t :: "('ws, 'g, ('u, 'ps, 'os, 'ms) inner, 'w, 'v) thread"
  assumes "sleeps_upoll D X print st a t = Some (Inr (p, st', t'))"
  obtains i w where "t' = t\<lparr>inner := i, world := w\<rparr>" "sleeps_poll D X print a st (inner t) (world t) = Inr (p, st', i, w)"
  using assms by (auto simp: sleeps_upoll_def obind_eq_ok)

lemma env_effects:
  fixes t :: "('ws, 'g, ('u, 'ps, 'os, 'ms) inner, 'w, 'v) thread"
  shows "effects S X priv t (t\<lparr>inner := i, world := w\<rparr>)"
proof -
  have "effects S X priv t (t\<lparr>inner := i, world := w, chans := chans t\<rparr>)" by (rule eff_env [OF eff_refl]) simp_all
  then show ?thesis by simp
qed

lemma env_tasks: "tasks S (t\<lparr>inner := i, world := w\<rparr>) = tasks S t"
  by (simp add: tasks_def waiting_at_def)

context console
begin

lemma sleeps_upoll_lines:
  assumes "sleeps_upoll D X print st a t = Some (Inr (p, st', t'))"
  shows "\<exists>ms. printed (world t') = printed (world t) @ ms
    \<and> (\<forall>ls\<in>case p of Poll_Pending \<Rightarrow> {to_print st'} | Poll_Ready _ \<Rightarrow> {[]}. ms @ ls \<in> {to_print st})"
proof -
  obtain i w where 1: "t' = t\<lparr>inner := i, world := w\<rparr>" "sleeps_poll D X print a st (inner t) (world t) = Inr (p, st', i, w)"
    by (rule sleeps_upoll_effects [OF assms])
  from sleeps_poll_prints [OF 1(2)] 1(1) show ?thesis by (cases p) auto
qed

lemma sleeps_program:
  assumes "slab_laws S"
  shows "output_program S X UNIV (sleeps_upoll D X print) print printed (\<lambda>st. {to_print st})"
proof -
  have "executor_env S X UNIV (sleeps_upoll D X print)"
    using assms by (auto simp: executor_env_def executor_env_axioms_def intro: env_effects elim: sleeps_upoll_effects)
  moreover have "tasks S t' = tasks S t" if "sleeps_upoll D X print st a t = Some (Inr (p, st', t'))" for st a t p st' t'
    using that by (auto simp: env_tasks elim: sleeps_upoll_effects)
  ultimately show ?thesis
    unfolding output_program_def output_program_axioms_def by (intro conjI allI impI console_axioms sleeps_upoll_lines)
qed

end


subsection \<open>A simulated console\<close>

text \<open>Every reading of the clock is ten seconds after the one before; descriptors are not told apart.\<close>

record tick =
  tk_clock :: nat
  tk_log :: "line list"

definition tick_os :: "tick os_api" where
  "tick_os = \<lparr>
     errno = (\<lambda>w. 0),
     sys_close = (\<lambda>fd w. w),
     sys_dup = (\<lambda>fd w. (Inr 5, w)),
     sys_eventfd = (\<lambda>n fl w. (4, w)),
     sys_write = (\<lambda>fd b w. (8, w)),
     sys_lseek = (\<lambda>fd off whence w. (- 1, w)),
     sys_timerfd_create = (\<lambda>clock fl w. (3, w)),
     sys_timerfd_settime = (\<lambda>fd fl sec nsec w. (0, w)),
     sys_now = (\<lambda>w. (int (tk_clock w), w\<lparr>tk_clock := tk_clock w + secs 10\<rparr>)),
     sys_socket = (\<lambda>family type proto w. (6, w)),
     sys_bind = (\<lambda>fd addr n w. (0, w)),
     sys_listen = (\<lambda>fd backlog w. (0, w)),
     sys_udp_bind = (\<lambda>addrs w. (Inr 7, w)),
     little_endian = True \<rparr>"

abbreviation tick_print :: "line \<Rightarrow> tick \<Rightarrow> tick" where
  "tick_print m w \<equiv> w\<lparr>tk_log := tk_log w @ [m]\<rparr>"

interpretation tick: console tick_os tick_print tk_log
  by unfold_locales (simp_all add: tick_os_def)

interpretation tick_sleeps: output_program vec_slab D tick_os UNIV "sleeps_upoll D tick_os tick_print" tick_print tk_log "\<lambda>st. {to_print st}" for D
  by (rule tick.sleeps_program [OF vec.slab_laws_axioms])

subsection \<open>Properties\<close>

text \<open>
  C16. What \<open>timer.rs\<close> prints: when its \<open>main\<close> returns, each of its two tasks has printed all its
  lines in their order, and nothing else has been printed; how the two are interleaved is open.
\<close>

theorem timer_output:
  assumes "slab_laws S" "console X print printed" "exec_inv S None t" "tasks S t = {}"
    and "timer_main S D X print t = Some (Inr t')"
  shows "\<exists>ms\<in>shuffles (map snd timer_upper) (map snd timer_lower). printed (world t') = printed (world t) @ ms"
proof -
  note P = console.sleeps_program [OF assms(2,1)]
  from assms(5) obtain t1 t2 where m: "spawn_detach D X (SL_At timer_upper) t = Inr t1" "spawn_detach D X (SL_At timer_lower) t1 = Inr t2"
    "executor_loop S D X (sleeps_upoll D X print) t2 = Some (Inr t')"
    by (auto simp: timer_main_def obind_eq_ok run_def)
  note c1 = output_program.detach_covers [OF P m(1) assms(3) output_program.covers_none [OF P assms(4)]]
  note c2 = output_program.detach_covers [OF P m(2) c1(1,2)]
  let ?F = "(\<lambda>_. {[]})(next_id t := {map snd timer_upper}, Suc (next_id t) := {map snd timer_lower})"
  from output_program.loop_output [OF P m(3) c2(1,2)] c1(3,4) c2(3) obtain ms f where
    ms: "printed (world t') = printed (world t) @ ms" "interleaves f ms" and f: "\<And>a. f a \<in> ?F a"
    by (auto simp: output_program.outputs_def [OF P])
  have "f a = []" if "a \<noteq> next_id t" "a \<noteq> Suc (next_id t)" for a using f [of a] that by simp
  then have "ms \<in> shuffles (f (next_id t)) (f (Suc (next_id t)))" by (intro interleaves_two [OF ms(2)]) simp_all
  with ms(1) f [of "next_id t"] f [of "Suc (next_id t)"] show ?thesis by auto
qed

abbreviation tick_thread :: "(Sleeps Task option list, Sleeps, (script_ring, nat PendingIo option list, ResultState option list,
    i32 list MultishotResultState option list) inner, tick, unit) thread" where
  "tick_thread \<equiv> \<lparr>waiting = [], run_q = [], ids = (\<lambda>_. 0), next_id = 0, inner = ri fresh,
     world = \<lparr>tk_clock = 0, tk_log = []\<rparr>, chans = []\<rparr>"

lemmas tick_eval = spawn_detach_def spawn_def event_new_def event_clone_def event_wait_def event_drop_def notify_one_def sync_channel_def
  executor_iter_def react_if_idle_def spawn_fut_poll_def chan_send_def joiner_drop_def event_waiter_drop_def
  timer_sleep_def timer_poll_def timer_drop_def system_time_add_def sleep_await_def sleeps_poll_def sleeps_upoll_def tick_os_def
  vec_slab_simps oneshot_io_new_def oneshot_io_drop_def run_def Let_def

lemma tick_run: "\<exists>t'. timer_main vec_slab ring0 tick_os tick_print tick_thread = Some (Inr t')"
  by (simp add: timer_main_def timer_upper_def timer_lower_def executor_loop.simps tick_eval)

theorem timer_output_witness:
  "\<exists>t'. timer_main vec_slab ring0 tick_os tick_print tick_thread = Some (Inr t')
    \<and> tk_log (world t') \<in> shuffles (map snd timer_upper) (map snd timer_lower)"
proof -
  from tick_run obtain t' where run: "timer_main vec_slab ring0 tick_os tick_print tick_thread = Some (Inr t')" ..
  have "exec_inv vec_slab None tick_thread" "tasks vec_slab tick_thread = {}"
    by (simp_all add: exec_inv_def waiting_at_def live_def tasks_def vec_slab_simps ran_def)
  from timer_output [OF vec.slab_laws_axioms tick.console_axioms this run] run show ?thesis by auto
qed

end
