(* ===== verification/EchoTasks.thy ===== *)
theory EchoTasks
  imports EchoBlock Output
begin

text \<open>
  The programs \<open>src/examples/tcp.rs\<close> and \<open>src/examples/tcp_serv.rs\<close>: a task that prints, a task that
  gets a connection and echoes on it, and a \<open>main\<close> that runs both and joins the second. The one
  connects; the other binds a listener, takes one connection from it and drops it. Their loops
  and their \<open>main\<close>s are the same code. What goes to standard error is printed as well.
\<close>

datatype EchoFut =
    EF_Connect ConnectFut
  | EF_Bind "SocketAddr list io_result"
  | EF_Accept TcpListener
  | EF_Loop TcpStream "echo_pt async_state"
  | EF_Over

type_synonym ('u, 'ps, 'os, 'ms, 'w) echo_out =
  "(usize io_result Poll \<times> EchoFut \<times> ('u, 'ps, 'os, 'ms) inner \<times> 'w) rs option"

definition echo_resume :: "('u, 'ps, 'os, 'ms, 'rb, 't) deps \<Rightarrow> 'w os_api \<Rightarrow> 't \<Rightarrow> TcpStream \<Rightarrow> echo_pt async_state \<Rightarrow>
    ('u, 'ps, 'os, 'ms) inner \<Rightarrow> 'w \<Rightarrow> ('u, 'ps, 'os, 'ms, 'w) echo_out" where
  "echo_resume D X a sock st i w = obind (block_poll D (echo_step X sock) a st i w) (\<lambda>(p, st', i', w').
     Some (Inr (p, EF_Loop sock st', i', w')))"

definition echo_connect :: "('u, 'ps, 'os, 'ms, 'rb, 't) deps \<Rightarrow> 'w os_api \<Rightarrow> 't \<Rightarrow> ConnectFut \<Rightarrow>
    ('u, 'ps, 'os, 'ms) inner \<Rightarrow> 'w \<Rightarrow> ('u, 'ps, 'os, 'ms, 'w) echo_out" where
  "echo_connect D X a f i w = obind (Some (connect_poll D X a f i w)) (\<lambda>(p, f', i1, w1).
     case p of
       Poll_Pending \<Rightarrow> Some (Inr (Poll_Pending, EF_Connect f', i1, w1))
     | Poll_Ready (Inl e) \<Rightarrow> Some (Inr (Poll_Ready (Inl e), EF_Over, i1, w1))
     | Poll_Ready (Inr sock) \<Rightarrow> echo_resume D X a sock (At echo_start) i1 w1)"

text \<open>An error of the listener is returned, which drops it; its end makes the task panic.\<close>

definition echo_accept :: "('u, 'ps, 'os, 'ms, 'rb, 't) deps \<Rightarrow> 'w os_api \<Rightarrow> 't \<Rightarrow> TcpListener \<Rightarrow>
    ('u, 'ps, 'os, 'ms) inner \<Rightarrow> 'w \<Rightarrow> ('u, 'ps, 'os, 'ms, 'w) echo_out" where
  "echo_accept D X a listener i w = obind (Some (listener_poll_next D a listener i)) (\<lambda>(p, listener', i1).
     case p of
       Poll_Pending \<Rightarrow> Some (Inr (Poll_Pending, EF_Accept listener', i1, w))
     | Poll_Ready None \<Rightarrow> Some (Inl UnwrapNone)
     | Poll_Ready (Some (Inl e)) \<Rightarrow> obind (Some (listener_drop D X listener' i1 w)) (\<lambda>(i2, w2).
         Some (Inr (Poll_Ready (Inl e), EF_Over, i2, w2)))
     | Poll_Ready (Some (Inr conn)) \<Rightarrow> obind (Some (listener_drop D X listener' i1 w)) (\<lambda>(i2, w2).
         echo_resume D X a conn (At echo_start) i2 w2))"

definition echo_bind :: "('u, 'ps, 'os, 'ms, 'rb, 't) deps \<Rightarrow> 'w os_api \<Rightarrow> (line \<Rightarrow> 'w \<Rightarrow> 'w) \<Rightarrow> 't \<Rightarrow> SocketAddr list io_result \<Rightarrow>
    ('u, 'ps, 'os, 'ms) inner \<Rightarrow> 'w \<Rightarrow> ('u, 'ps, 'os, 'ms, 'w) echo_out" where
  "echo_bind D X print a addrs i w = obind (Some (tcp_bind X addrs w)) (\<lambda>(r, w1).
     case r of
       Inl e \<Rightarrow> Some (Inr (Poll_Ready (Inl e), EF_Over, i, w1))
     | Inr listener \<Rightarrow> echo_accept D X a listener i (print (Text ''Waiting for connection on 127.0.0.1:5000'') w1))"

definition echo_poll :: "('u, 'ps, 'os, 'ms, 'rb, 't) deps \<Rightarrow> 'w os_api \<Rightarrow> (line \<Rightarrow> 'w \<Rightarrow> 'w) \<Rightarrow> 't \<Rightarrow> EchoFut \<Rightarrow>
    ('u, 'ps, 'os, 'ms) inner \<Rightarrow> 'w \<Rightarrow> ('u, 'ps, 'os, 'ms, 'w) echo_out" where
  "echo_poll D X print a f i w = (case f of
     EF_Connect c \<Rightarrow> echo_connect D X a c i w
   | EF_Bind addrs \<Rightarrow> echo_bind D X print a addrs i w
   | EF_Accept l \<Rightarrow> echo_accept D X a l i w
   | EF_Loop sock st \<Rightarrow> echo_resume D X a sock st i w
   | EF_Over \<Rightarrow> Some (Inl (PanicMsg ''async fn resumed after completion'')))"

subsection \<open>The programs\<close>

datatype tcp_fut = TF_Hello Sleeps | TF_Echo EchoFut

datatype tcp_val = TV_Unit | TV_Read "usize io_result"

definition tcp_upoll :: "('u, 'ps, 'os, 'ms, 'rb, nat) deps \<Rightarrow> 'w os_api \<Rightarrow> (line \<Rightarrow> 'w \<Rightarrow> 'w) \<Rightarrow>
    (tcp_fut, ('ws, tcp_fut, ('u, 'ps, 'os, 'ms) inner, 'w, tcp_val) thread, tcp_val) upoll" where
  "tcp_upoll D X print f a t = (case f of
     TF_Hello sl \<Rightarrow> obind (sleeps_upoll D X print sl a t) (\<lambda>(p, sl', t'). Some (Inr (map_poll (\<lambda>_. TV_Unit) p, TF_Hello sl', t')))
   | TF_Echo e \<Rightarrow> obind (echo_poll D X print a e (inner t) (world t)) (\<lambda>(p, e', i, w).
       Some (Inr (map_poll TV_Read p, TF_Echo e', t\<lparr>inner := i, world := w\<rparr>))))"

text \<open>\<open>main\<close>, given the script of the first task and the start of the second. The joiner has the type of the second task's value.\<close>

definition echo_main :: "('ws, tcp_fut) task_slab \<Rightarrow> ('u, 'ps, 'os, 'ms, 'rb, nat) deps \<Rightarrow> 'w os_api \<Rightarrow> (line \<Rightarrow> 'w \<Rightarrow> 'w) \<Rightarrow>
    script \<Rightarrow> EchoFut \<Rightarrow> ('ws, tcp_fut, ('u, 'ps, 'os, 'ms) inner, 'w, tcp_val) thread \<Rightarrow>
    (unit io_result \<times> ('ws, tcp_fut, ('u, 'ps, 'os, 'ms) inner, 'w, tcp_val) thread) rs option" where
  "echo_main S D X print hello start t =
     obind (Some (spawn_detach D X (TF_Hello (SL_At hello)) t)) (\<lambda>t1.
     obind (Some (spawn X (TF_Echo start) t1)) (\<lambda>(echo_task, t2).
     obind (run S D X (tcp_upoll D X print) t2) (\<lambda>t3.
     obind (join D X echo_task t3) (\<lambda>(v, t4).
     case v of
       TV_Read (Inl e) \<Rightarrow> Some (Inr (Inl e, t4))
     | TV_Read (Inr bytes_read) \<Rightarrow> Some (Inr (Inr (), t4\<lparr>world := print (Finished bytes_read) (world t4)\<rparr>))
     | TV_Unit \<Rightarrow> Some (Inl (PanicMsg ''a value of another type'')))))) "

definition localhost_5000 :: "SocketAddr list io_result" where
  "localhost_5000 = Inr [V4 0x7F000001 5000]"

definition tcp_main :: "('ws, tcp_fut) task_slab \<Rightarrow> ('u, 'ps, 'os, 'ms, 'rb, nat) deps \<Rightarrow> 'w os_api \<Rightarrow> (line \<Rightarrow> 'w \<Rightarrow> 'w) \<Rightarrow>
    ('ws, tcp_fut, ('u, 'ps, 'os, 'ms) inner, 'w, tcp_val) thread \<Rightarrow>
    (unit io_result \<times> ('ws, tcp_fut, ('u, 'ps, 'os, 'ms) inner, 'w, tcp_val) thread) rs option" where
  "tcp_main S D X print = echo_main S D X print tcp_hello (EF_Connect (CF_Start localhost_5000))"

definition tcp_serv_main :: "('ws, tcp_fut) task_slab \<Rightarrow> ('u, 'ps, 'os, 'ms, 'rb, nat) deps \<Rightarrow> 'w os_api \<Rightarrow> (line \<Rightarrow> 'w \<Rightarrow> 'w) \<Rightarrow>
    ('ws, tcp_fut, ('u, 'ps, 'os, 'ms) inner, 'w, tcp_val) thread \<Rightarrow>
    (unit io_result \<times> ('ws, tcp_fut, ('u, 'ps, 'os, 'ms) inner, 'w, tcp_val) thread) rs option" where
  "tcp_serv_main S D X print = echo_main S D X print tcp_serv_hello (EF_Bind localhost_5000)"

subsection \<open>Running and joining\<close>

lemma tcp_upoll_effects:
  "tcp_upoll D X print f a t = Some (Inr (p, f', t')) \<Longrightarrow> \<exists>i w. t' = t\<lparr>inner := i, world := w\<rparr>"
  by (cases f) (auto simp: tcp_upoll_def obind_eq_ok elim!: sleeps_upoll_effects)

lemma tcp_env: "slab_laws S \<Longrightarrow> executor_env S X UNIV (tcp_upoll D X print)"
  by (auto simp: executor_env_def executor_env_axioms_def intro: env_effects dest!: tcp_upoll_effects)

interpretation tcp: executor_env vec_slab D X UNIV "tcp_upoll D X print" for D X print
  by (rule tcp_env [OF vec.slab_laws_axioms])


lemma map_poll_eq:
  "map_poll f p = Poll_Pending \<longleftrightarrow> p = Poll_Pending" "map_poll f p = Poll_Ready v \<longleftrightarrow> (\<exists>x. p = Poll_Ready x \<and> v = f x)"
  by (cases p; auto)+

lemma detach_channel:
  assumes "slab_laws S" "exec_inv S None t" "tasks S t = {}" "spawn_detach D X g t = Inr t1"
  shows "exec_inv S None t1" "\<forall>task\<in>tasks S t1. sf_tx (task_future task) < length (chans t1)"
proof -
  have env: "executor_env S X UNIV (\<lambda>_ _ _. None)" using assms(1) by (simp add: executor_env_def executor_env_axioms_def)
  from assms(4) obtain j t0 where sp: "spawn X g t = Inr (j, t0)" "joiner_drop D X j t0 = Inr t1"
    by (auto simp: spawn_detach_def rbind_eq_Inr)
  note inv = executor_env.spawn_inv [OF env assms(2) sp(1)]
  have t1: "run_q t1 = run_q t0" "waiting t1 = waiting t0" "ids t1 = ids t0" "next_id t1 = next_id t0" "length (chans t1) = length (chans t0)"
    using sp(2) by (auto simp: joiner_drop_def Let_def rbind_eq_Inr)
  then have w: "waiting_at S t1 = waiting_at S t0" by (simp add: waiting_at_def)
  with t1 have tasks: "tasks S t1 = tasks S t0" by (simp add: tasks_def)
  with inv(1) w t1 show "exec_inv S None t1" by (simp add: exec_inv_def live_def)
  have "chans t0 = chans t @ [sync_channel]" by (rule executor_env.spawn_task [OF env sp(1)])
  with inv(4) assms(3) tasks t1(5) show "\<forall>task\<in>tasks S t1. sf_tx (task_future task) < length (chans t1)" by auto
qed

subsection \<open>Properties\<close>

text \<open>
  What \<open>tcp.rs\<close> and \<open>tcp_serv.rs\<close> return. Let \<open>Q\<close> hold of the start of the echo task and be
  kept by its polls, and let \<open>R\<close> hold of every result such a task is ready with. If \<open>run\<close> returns,
  \<open>main\<close> returns too, without a panic, with a result of the echo task: its error, or nothing after
  printing the number of bytes as the last line.
\<close>

lemma echo_main_result:
  assumes "slab_laws S" "exec_inv S None t" "tasks S t = {}"
    and "spawn_detach D X (TF_Hello (SL_At hello)) t = Inr t1" "spawn X (TF_Echo start) t1 = Inr (j, t2)"
    and "run S D X (tcp_upoll D X print) t2 = Some (Inr t3)" "Q start"
    and "\<And>f a i w f' i' w'. Q f \<Longrightarrow> echo_poll D X print a f i w = Some (Inr (Poll_Pending, f', i', w')) \<Longrightarrow> Q f'"
    and "\<And>f a i w x f' i' w'. Q f \<Longrightarrow> echo_poll D X print a f i w = Some (Inr (Poll_Ready x, f', i', w')) \<Longrightarrow> R x"
  shows "\<exists>x t4. R x \<and> echo_main S D X print hello start t = Some (Inr (map_io (\<lambda>_. ()) x, t4))
    \<and> (\<forall>n. x = Inr n \<longrightarrow> (\<exists>w. world t4 = print (Finished n) w))"
proof -
  have env: "executor_env S X UNIV (tcp_upoll D X print)" by (rule tcp_env [OF assms(1)])
  note t1 = detach_channel [OF assms(1-4)]
  let ?Q = "\<lambda>g. \<exists>e. g = TF_Echo e \<and> Q e" and ?R = "\<lambda>v. \<exists>x. v = TV_Read x \<and> R x"
  have j: "tj_rx j = length (chans t1)" "tj_finished j = event_wait (tj_evt j)"
    by (rule executor_env.spawn_task [OF env assms(5)], simp)+
  have inv2: "exec_inv S None t2" by (rule executor_env.spawn_inv(1) [OF env t1(1) assms(5)])
  have owes: "executor_env.owes S (length (chans t1)) ?Q ?R t2"
    by (rule executor_env.spawn_owes [where Q = ?Q, OF env t1 assms(5)]) (use assms(7) in simp)
  have "\<exists>v. ?R v \<and> chans t3 ! length (chans t1) = \<lparr>ch_buf = Some v, ch_tx = False, ch_rx = True\<rparr>"
    by (rule executor_env.loop_owes(3) [OF env assms(6) [unfolded run_def] inv2 owes])
       (auto simp: tcp_upoll_def obind_eq_ok map_poll_eq, (erule (1) assms(8) | erule (1) assms(9))+)
  then obtain x where x: "R x" "chans t3 ! tj_rx j = \<lparr>ch_buf = Some (TV_Read x), ch_tx = False, ch_rx = True\<rparr>"
    using j(1) by auto
  from executor_env.join_sent [OF env x(2) j(2)] obtain t4 where "join D X j t3 = Some (Inr (TV_Read x, t4))" by blast
  with assms(4-6) x(1) show ?thesis by (cases x) (auto simp: echo_main_def map_io_def)
qed


text \<open>A system without sockets: the echo task returns the error, the other task prints its lines.\<close>

abbreviation no_sockets :: "tick os_api" where
  "no_sockets \<equiv> tick_os\<lparr>sys_socket := \<lambda>family type proto w. (- 1, w)\<rparr>"

abbreviation tcp_thread :: "(tcp_fut Task option list, tcp_fut, (script_ring, nat PendingIo option list, ResultState option list,
    i32 list MultishotResultState option list) inner, tick, tcp_val) thread" where
  "tcp_thread \<equiv> \<lparr>waiting = [], run_q = [], ids = (\<lambda>_. 0), next_id = 0, inner = ri fresh,
     world = \<lparr>tk_clock = 0, tk_log = []\<rparr>, chans = []\<rparr>"

lemma no_connection:
  "echo_poll D no_sockets print a (EF_Connect (CF_Start localhost_5000)) i w = Some (Inr (Poll_Ready (Inl (OsError 0)), EF_Over, i, w))"
  by (simp add: echo_poll_def echo_connect_def connect_poll_def localhost_5000_def mk_sock_def last_os_error_def tick_os_def)

lemma no_sockets_run:
  "\<exists>t1 j t2 t3. spawn_detach ring0 no_sockets (TF_Hello (SL_At tcp_hello)) tcp_thread = Inr t1
    \<and> spawn no_sockets (TF_Echo (EF_Connect (CF_Start localhost_5000))) t1 = Inr (j, t2)
    \<and> run vec_slab ring0 no_sockets (tcp_upoll ring0 no_sockets tick_print) t2 = Some (Inr t3)"
  by (simp add: executor_loop.simps tcp_upoll_def echo_poll_def echo_connect_def connect_poll_def localhost_5000_def mk_sock_def
      last_os_error_def tcp_hello_def tick_eval)

lemma echo_main_result_instance:
  "\<exists>t4. tcp_main vec_slab ring0 no_sockets tick_print tcp_thread = Some (Inr (Inl (OsError 0), t4))"
proof -
  from no_sockets_run obtain t1 j t2 t3 where run: "spawn_detach ring0 no_sockets (TF_Hello (SL_At tcp_hello)) tcp_thread = Inr t1"
    "spawn no_sockets (TF_Echo (EF_Connect (CF_Start localhost_5000))) t1 = Inr (j, t2)"
    "run vec_slab ring0 no_sockets (tcp_upoll ring0 no_sockets tick_print) t2 = Some (Inr t3)" by blast
  have t: "exec_inv vec_slab None tcp_thread" "tasks vec_slab tcp_thread = {}"
    by (simp_all add: exec_inv_def waiting_at_def live_def tasks_def vec_slab_simps ran_def)
  let ?start = "EF_Connect (CF_Start localhost_5000)"
  have "\<exists>x t4. x = Inl (OsError 0) \<and> echo_main vec_slab ring0 no_sockets tick_print tcp_hello ?start tcp_thread = Some (Inr (map_io (\<lambda>_. ()) x, t4))
      \<and> (\<forall>n. x = Inr n \<longrightarrow> (\<exists>w. world t4 = tick_print (Finished n) w))"
    by (rule echo_main_result [where Q = "\<lambda>f. f = ?start" and R = "\<lambda>x. x = Inl (OsError 0)", OF vec.slab_laws_axioms t run])
       (simp_all add: no_connection)
  then show ?thesis by (auto simp: tcp_main_def map_io_def)
qed

end
