(* ===== verification/Udp.thy ===== *)
theory Udp
  imports ReadWrite SimOs
begin

text \<open>
  UDP sockets, \<open>src/src/futures/udp.rs\<close>. The message headers live in the futures; the closure
  of the first poll fills them in, and the kernel writes the sender's address and its length
  into the header of a receive before it completes. \<open>None\<close> is the null pointer of a zeroed
  header.
\<close>

record UdpSocket =
  us_inner :: i32

record iovec =
  iov_base :: "ptr option"
  iov_len :: usize

record msghdr =
  msg_name :: "ptr option"
  msg_namelen :: u32
  msg_iov :: "ptr option"
  msg_iovlen :: usize

record RecvFrom =
  rf_sock :: i32
  rf_io :: OneshotIoState
  rf_hdr :: msghdr
  rf_iov :: iovec
  rf_csock :: CSockAddr
  rf_buf :: "u8 list"

record SendTo =
  st_sock :: i32
  st_dst :: "SocketAddr list io_result"
  st_io :: OneshotIoState
  st_hdr :: msghdr
  st_csock :: CSockAddr
  st_iov :: iovec
  st_buf :: "u8 list"

definition zeroed_hdr :: msghdr where
  "zeroed_hdr = \<lparr>msg_name = None, msg_namelen = 0, msg_iov = None, msg_iovlen = 0\<rparr>"

definition zeroed_iov :: iovec where
  "zeroed_iov = \<lparr>iov_base = None, iov_len = 0\<rparr>"

definition zeroed_csock :: CSockAddr where
  "zeroed_csock = \<lparr>addr = zeroed_addr, len = 0\<rparr>"

definition udp_bind :: "'w os_api \<Rightarrow> SocketAddr list io_result \<Rightarrow> 'w \<Rightarrow> UdpSocket io_result \<times> 'w" where
  "udp_bind X a w = (case sys_udp_bind X a w of
     (Inl e, w1) \<Rightarrow> (Inl e, w1)
   | (Inr sock, w1) \<Rightarrow> (Inr \<lparr>us_inner = sock\<rparr>, w1))"

definition recv_from :: "UdpSocket \<Rightarrow> u8 list \<Rightarrow> RecvFrom" where
  "recv_from self buf = \<lparr>rf_sock = us_inner self, rf_io = oneshot_io_new, rf_hdr = zeroed_hdr,
     rf_iov = zeroed_iov, rf_csock = zeroed_csock, rf_buf = buf\<rparr>"

definition send_to :: "UdpSocket \<Rightarrow> u8 list \<Rightarrow> SocketAddr list io_result \<Rightarrow> SendTo" where
  "send_to self buf target = \<lparr>st_sock = us_inner self, st_dst = target, st_io = oneshot_io_new,
     st_hdr = zeroed_hdr, st_csock = zeroed_csock, st_iov = zeroed_iov, st_buf = buf\<rparr>"

definition recv_prep :: "RecvFrom \<Rightarrow> (Entry \<times> RecvFrom) rs" where
  "recv_prep this =
     (let this = this\<lparr>rf_iov := \<lparr>iov_base = Some (Borrowed ''buf''), iov_len = length (rf_buf this)\<rparr>\<rparr>;
          this = this\<lparr>rf_hdr := (rf_hdr this)\<lparr>
            msg_iov := Some (InFuture ''iov''), msg_iovlen := 1,
            msg_name := Some (InFuture ''csock''),
            msg_namelen := usize_as_u32 (length (addr (rf_csock this)))\<rparr>\<rparr>
      in Inr (build (Op_RecvMsg (rf_sock this) (InFuture ''hdr'')), this))"

definition recv_out :: "bool \<Rightarrow> RecvFrom \<Rightarrow> i32 io_result \<Rightarrow> (usize \<times> SocketAddr) io_result" where
  "recv_out le this x = (case x of
     Inl e \<Rightarrow> Inl e
   | Inr sz \<Rightarrow> map_io (\<lambda>a. (i32_as_usize sz, a))
       (csock_try_into le ((rf_csock this)\<lparr>len := unat (msg_namelen (rf_hdr this))\<rparr>)))"

definition recv_from_poll ::
    "('u, 'ps, 'os, 'ms, 'rb, 't) deps \<Rightarrow> bool \<Rightarrow>
     ('u, 'ps, 'os, 'ms, 't, RecvFrom, (usize \<times> SocketAddr) io_result) fpoll" where
  "recv_from_poll D le waker this i =
     rbind (oneshot_submit_or_get_result D
              (\<lambda>this. rbind (recv_prep this) (\<lambda>(e, this'). Inr ((e, waker), this'))) (rf_io this) i this)
       (\<lambda>(x, io', i', this').
     Inr (map_poll (recv_out le this') x,
          (case x of
             Poll_Ready (Inr sz) \<Rightarrow>
               this'\<lparr>rf_io := io', rf_csock := (rf_csock this')\<lparr>len := unat (msg_namelen (rf_hdr this'))\<rparr>\<rparr>
           | _ \<Rightarrow> this'\<lparr>rf_io := io'\<rparr>), i'))"

definition send_prep :: "bool \<Rightarrow> SendTo \<Rightarrow> (Entry \<times> SendTo) rs" where
  "send_prep le this =
     rbind (case st_dst this of Inl e \<Rightarrow> Inl UnwrapErr | Inr addrs \<Rightarrow> Inr addrs) (\<lambda>addrs.
     rbind (unwrap (case addrs of [] \<Rightarrow> None | a # _ \<Rightarrow> Some a)) (\<lambda>a.
       let this = this\<lparr>st_csock := csock_from le a\<rparr>;
           this = this\<lparr>st_iov := \<lparr>iov_base = Some (Borrowed ''buf''), iov_len = length (st_buf this)\<rparr>\<rparr>;
           this = this\<lparr>st_hdr := (st_hdr this)\<lparr>
             msg_namelen := usize_as_u32 (len (st_csock this)),
             msg_name := Some (InFuture ''csock''),
             msg_iov := Some (InFuture ''iov''), msg_iovlen := 1\<rparr>\<rparr>
       in Inr (build (Op_SendMsg (st_sock this) (InFuture ''hdr'')), this)))"

definition send_to_poll ::
    "('u, 'ps, 'os, 'ms, 'rb, 't) deps \<Rightarrow> bool \<Rightarrow> ('u, 'ps, 'os, 'ms, 't, SendTo, usize io_result) fpoll" where
  "send_to_poll D le waker this i =
     rbind (oneshot_submit_or_get_result D
              (\<lambda>this. rbind (send_prep le this) (\<lambda>(e, this'). Inr ((e, waker), this'))) (st_io this) i this)
       (\<lambda>(x, io', i', this'). Inr (map_poll (map_io i32_as_usize) x, this'\<lparr>st_io := io'\<rparr>, i'))"

sublocale reactor_deps \<subseteq> receiver: oneshot_future D "recv_from_poll D le" rf_io recv_prep "recv_out le" for le
  by (rule oneshot_futureI [where upd = "\<lambda>x st f. case x of
         Poll_Ready (Inr sz) \<Rightarrow> f\<lparr>rf_io := st, rf_csock := (rf_csock f)\<lparr>len := unat (msg_namelen (rf_hdr f))\<rparr>\<rparr>
       | _ \<Rightarrow> f\<lparr>rf_io := st\<rparr>"])
     (auto simp: recv_from_poll_def split: Poll.splits sum.splits)

sublocale reactor_deps \<subseteq> sender: oneshot_future D "send_to_poll D le" st_io "send_prep le" "\<lambda>_. map_io i32_as_usize" for le
  by (rule oneshot_futureI [where upd = "\<lambda>_ st f. f\<lparr>st_io := st\<rparr>"]) (simp_all add: send_to_poll_def)

context reactor_deps
begin

lemmas receiver_delivers = receiver.delivers
lemmas sender_delivers = sender.delivers

end

subsection \<open>Lemmas\<close>

text \<open>
  The memory and length the kernel leaves for a sender: the fields of the structure of its
  family, whatever the rest of the bytes.
\<close>

fun kernel_wrote :: "bool \<Rightarrow> SocketAddr \<Rightarrow> CSockAddr \<Rightarrow> u32 \<Rightarrow> bool" where
  "kernel_wrote le (V4 ip port) c n = (unat n = V4_LEN \<and> length (addr c) = V6_LEN
     \<and> get_bytes 2 2 (addr c) = be_bytes 2 port \<and> get_bytes 4 4 (addr c) = be_bytes 4 ip)"
| "kernel_wrote le (V6 ip port flow scope) c n = (unat n = V6_LEN \<and> length (addr c) = V6_LEN
     \<and> get_bytes 2 2 (addr c) = be_bytes 2 port \<and> get_bytes 4 4 (addr c) = ne_bytes le 4 flow
     \<and> get_bytes 8 16 (addr c) = be_bytes 16 ip \<and> get_bytes 24 4 (addr c) = ne_bytes le 4 scope)"

lemma kernel_wrote_address:
  "kernel_wrote le a c n \<Longrightarrow> csock_try_into le (c\<lparr>len := unat n\<rparr>) = Inr a"
  by (cases a) (simp_all add: csock_try_into_def network_order)

lemma recv_out_ok:
  "kernel_wrote le a (rf_csock f) (msg_namelen (rf_hdr f)) \<Longrightarrow> recv_out le f (Inr sz) = Inr (i32_as_usize sz, a)"
  by (simp add: recv_out_def kernel_wrote_address)

text \<open>
  What \<open>sendmsg\<close> reads when it is given a pointer to the header of a future: the address the header
  names, if any, and the buffers it lists. A pointer that leads to none of the fields of the
  future cannot be followed.
\<close>

definition sendmsg_name :: "SendTo \<Rightarrow> u8 list option" where
  "sendmsg_name f = (if msg_name (st_hdr f) = None then Some []
     else if msg_name (st_hdr f) = Some (InFuture ''csock'') then Some (take (unat (msg_namelen (st_hdr f))) (addr (st_csock f))) else None)"

definition sendmsg_data :: "SendTo \<Rightarrow> u8 list option" where
  "sendmsg_data f = (if msg_iovlen (st_hdr f) = 0 then Some []
     else if msg_iovlen (st_hdr f) = 1 \<and> msg_iov (st_hdr f) = Some (InFuture ''iov'') \<and> iov_base (st_iov f) = Some (Borrowed ''buf'')
       then Some (take (iov_len (st_iov f)) (st_buf f)) else None)"

definition sendmsg_reads :: "SendTo \<Rightarrow> Opcode \<Rightarrow> (i32 \<times> u8 list option \<times> u8 list option) option" where
  "sendmsg_reads f op = (case op of
     Op_SendMsg fd hdr \<Rightarrow> if hdr = InFuture ''hdr'' then Some (fd, sendmsg_name f, sendmsg_data f) else None
   | _ \<Rightarrow> None)"

lemma send_prep_ok:
  assumes "st_dst f = Inr (a # as)"
  obtains e f' where "send_prep le f = Inr (e, f')"
    "sendmsg_reads f' (entry_op e) = Some (st_sock f, Some (take (len (csock_from le a)) (addr (csock_from le a))), Some (st_buf f))"
proof -
  have "len (csock_from le a) < 2 ^ 32" by (cases a) (simp_all add: csock_from_len del: csock_from.simps)
  then show thesis using assms
    by (intro that) (auto simp: send_prep_def sendmsg_reads_def sendmsg_name_def sendmsg_data_def build_def Let_def unat_usize_as_u32
        simp del: csock_from.simps)
qed

subsection \<open>Properties\<close>

text \<open>
  C30. A datagram received comes with the address of its sender, version 6 scope and flow
  information included: whatever the kernel wrote for a sender is decoded to that sender. A
  length that is that of neither family gives an \<open>InvalidData\<close> error, and an error of the
  operation is passed on.
\<close>

theorem recv_from_sender:
  assumes "kernel_wrote le a (rf_csock f) (msg_namelen (rf_hdr f))"
  shows "recv_out le f (Inr sz) = Inr (i32_as_usize sz, a)
    \<and> (unat n \<noteq> V4_LEN \<and> unat n \<noteq> V6_LEN \<longrightarrow>
         recv_out le (f\<lparr>rf_hdr := (rf_hdr f)\<lparr>msg_namelen := n\<rparr>\<rparr>) (Inr sz) = Inl (SimpleError InvalidData))
    \<and> recv_out le f (Inl e) = Inl e"
  using recv_out_ok [OF assms] by (simp add: recv_out_def csock_try_into_def)

theorem recv_from_sender_witness:
  "\<exists>f. rf_csock f = csock_from True (V4 0x7F000001 8086) \<and> recv_out True f (Inr 4) = Inr (4, V4 0x7F000001 8086)"
proof -
  let ?c = "csock_from True (V4 0x7F000001 8086)"
  let ?f = "(recv_from \<lparr>us_inner = 3\<rparr> [])\<lparr>rf_csock := ?c, rf_hdr := zeroed_hdr\<lparr>msg_namelen := 16\<rparr>\<rparr>"
  have "kernel_wrote True (V4 0x7F000001 8086) (rf_csock ?f) (msg_namelen (rf_hdr ?f))"
    by (simp add: csock_from_fields del: csock_from.simps)
  from conjunct1 [OF recv_from_sender [OF this, of 4 0]] have "rf_csock ?f = ?c
      \<and> recv_out True ?f (Inr 4) = Inr (4, V4 0x7F000001 8086)"
    by (simp add: i32_as_usize_def del: csock_from.simps)
  then show ?thesis by blast
qed

text \<open>
  C31. What a send hands to the kernel. The first poll submits an operation from which \<open>sendmsg\<close>
  reads the socket, the C form of the first address the target resolves to, in its full length,
  and the whole buffer. A target that does not resolve, or resolves to no address, makes the
  first poll panic instead of returning an error.
\<close>

theorem send_to_target:
  "case target of
     Inr (a # as) \<Rightarrow> \<exists>e f'. send_to_poll D le waker (send_to sock buf target) i =
         rbind (submit_io D i e waker Oneshot) (\<lambda>((ud, n), i'). Inr (Poll_Pending, f'\<lparr>st_io := OS_Submitted n\<rparr>, i'))
       \<and> sendmsg_reads f' (entry_op e) =
           Some (us_inner sock, Some (take (len (csock_from le a)) (addr (csock_from le a))), Some buf)
   | Inr [] \<Rightarrow> send_to_poll D le waker (send_to sock buf target) i = Inl UnwrapNone
   | Inl err \<Rightarrow> send_to_poll D le waker (send_to sock buf target) i = Inl UnwrapErr"
proof -
  let ?f = "send_to sock buf target"
  have new: "st_io ?f = OS_New" "st_dst ?f = target" "st_sock ?f = us_inner sock" "st_buf ?f = buf"
    by (simp_all add: send_to_def oneshot_io_new_def)
  show ?thesis
  proof (cases "\<exists>a as. target = Inr (a # as)")
    case True
    then obtain a as where t: "target = Inr (a # as)" by blast
    have d: "st_dst ?f = Inr (a # as)" unfolding new(2) by (rule t)
    obtain e f' where p: "send_prep le ?f = Inr (e, f')"
        "sendmsg_reads f' (entry_op e) = Some (st_sock ?f, Some (take (len (csock_from le a)) (addr (csock_from le a))), Some (st_buf ?f))"
      by (rule send_prep_ok [OF d])
    have "send_to_poll D le waker ?f i =
        rbind (submit_io D i e waker Oneshot) (\<lambda>((ud, n), i'). Inr (Poll_Pending, f'\<lparr>st_io := OS_Submitted n\<rparr>, i'))"
      by (cases "submit_io D i e waker Oneshot")
         (auto simp: send_to_poll_def oneshot_submit_or_get_result_def poll_of_state_def new(1) p(1))
    moreover have "sendmsg_reads f' (entry_op e) =
        Some (us_inner sock, Some (take (len (csock_from le a)) (addr (csock_from le a))), Some buf)"
      using p(2) unfolding new(3,4) .
    ultimately show ?thesis unfolding t sum.case list.case by (intro exI conjI)
  next
    case False
    then consider err where "target = Inl err" | "target = Inr []" by (metis list.exhaust sum.exhaust)
    then show ?thesis
      by cases (simp_all add: send_to_poll_def send_prep_def oneshot_submit_or_get_result_def send_to_def oneshot_io_new_def)
  qed
qed

theorem send_to_target_witness:
  "\<exists>f' n i'. send_to_poll ring0 True 7 (send_to \<lparr>us_inner = 3\<rparr> [1, 2] (Inr [V4 0x7F000001 80])) (ri fresh)
      = Inr (Poll_Pending, f'\<lparr>st_io := OS_Submitted n\<rparr>, i')
    \<and> sendmsg_data f' = Some [1, 2] \<and> sendmsg_name f' = Some ([2, 0, 0, 80, 127, 0, 0, 1] @ replicate 8 0)"
proof -
  have bytes: "take (len (csock_from True (V4 0x7F000001 80))) (addr (csock_from True (V4 0x7F000001 80))) =
      [2, 0, 0, 80, 127, 0, 0, 1] @ replicate 8 0" by code_simp
  let ?f = "send_to \<lparr>us_inner = 3\<rparr> [1, 2] (Inr [V4 0x7F000001 80])"
  from send_to_target [where target = "Inr [V4 0x7F000001 80]" and D = ring0 and le = True and waker = 7
      and sock = "\<lparr>us_inner = 3\<rparr>" and buf = "[1, 2]" and i = "ri fresh"] obtain e f' where
    p: "send_to_poll ring0 True 7 ?f (ri fresh) =
      rbind (submit_io ring0 (ri fresh) e 7 Oneshot) (\<lambda>((ud, n), i'). Inr (Poll_Pending, f'\<lparr>st_io := OS_Submitted n\<rparr>, i'))"
    and r: "sendmsg_reads f' (entry_op e) = Some (3, Some (take (len (csock_from True (V4 0x7F000001 80)))
      (addr (csock_from True (V4 0x7F000001 80)))), Some [1, 2])" by auto
  obtain ud n i' where "submit_io ring0 (ri fresh) e 7 Oneshot = Inr ((ud, n), i')" by (simp add: futures_eval)
  with p r show ?thesis unfolding bytes
    by (intro exI [of _ f'] exI [of _ n] exI [of _ i']) (auto simp: sendmsg_reads_def split: Opcode.splits if_splits)
qed

end
