(* ===== verification/UdpTasks.thy ===== *)
theory UdpTasks
  imports Udp Output
begin

text \<open>
  The program \<open>src/examples/udp.rs\<close>: a task that prints, one that receives a datagram and one that
  sends one a second later. The results of binding, receiving and sending are unwrapped.
\<close>

datatype RecvTask = RT_Start | RT_Recv UdpSocket RecvFrom | RT_Over

datatype SendTask = ST_Start | ST_Sleep UdpSocket Timer | ST_Send UdpSocket SendTo | ST_Over

type_synonym ('u, 'ps, 'os, 'ms, 'w, 'f) task_out = "(unit Poll \<times> 'f \<times> ('u, 'ps, 'os, 'ms) inner \<times> 'w) rs"

definition recv_task_await :: "('u, 'ps, 'os, 'ms, 'rb, 't) deps \<Rightarrow> 'w os_api \<Rightarrow> (line \<Rightarrow> 'w \<Rightarrow> 'w) \<Rightarrow> 't \<Rightarrow> UdpSocket \<Rightarrow> RecvFrom \<Rightarrow>
    ('u, 'ps, 'os, 'ms) inner \<Rightarrow> 'w \<Rightarrow> ('u, 'ps, 'os, 'ms, 'w, RecvTask) task_out" where
  "recv_task_await D X print a udpsock f i w = rbind (recv_from_poll D (little_endian X) a f i) (\<lambda>(p, f', i1).
     case p of
       Poll_Pending \<Rightarrow> Inr (Poll_Pending, RT_Recv udpsock f', i1, w)
     | Poll_Ready r \<Rightarrow> rbind (oneshot_io_drop D (rf_io f') i1) (\<lambda>i2.
         case r of
           Inl e \<Rightarrow> Inl UnwrapErr
         | Inr (count, src) \<Rightarrow> Inr (Poll_Ready (), RT_Over, i2, sys_close X (us_inner udpsock) (print (Received count src) w))))"

definition recv_task_poll :: "('u, 'ps, 'os, 'ms, 'rb, 't) deps \<Rightarrow> 'w os_api \<Rightarrow> (line \<Rightarrow> 'w \<Rightarrow> 'w) \<Rightarrow> 't \<Rightarrow> RecvTask \<Rightarrow>
    ('u, 'ps, 'os, 'ms) inner \<Rightarrow> 'w \<Rightarrow> ('u, 'ps, 'os, 'ms, 'w, RecvTask) task_out" where
  "recv_task_poll D X print a st i w = (case st of
     RT_Start \<Rightarrow> (case udp_bind X (Inr [V4 0x7F000001 9998]) w of
         (Inl e, w1) \<Rightarrow> Inl UnwrapErr
       | (Inr udpsock, w1) \<Rightarrow> recv_task_await D X print a udpsock (recv_from udpsock (replicate 1500 0)) i w1)
   | RT_Recv udpsock f \<Rightarrow> recv_task_await D X print a udpsock f i w
   | RT_Over \<Rightarrow> Inl (PanicMsg ''async fn resumed after completion''))"

definition send_task_await :: "('u, 'ps, 'os, 'ms, 'rb, 't) deps \<Rightarrow> 'w os_api \<Rightarrow> (line \<Rightarrow> 'w \<Rightarrow> 'w) \<Rightarrow> 't \<Rightarrow> UdpSocket \<Rightarrow> SendTo \<Rightarrow>
    ('u, 'ps, 'os, 'ms) inner \<Rightarrow> 'w \<Rightarrow> ('u, 'ps, 'os, 'ms, 'w, SendTask) task_out" where
  "send_task_await D X print a udpsock f i w = rbind (send_to_poll D (little_endian X) a f i) (\<lambda>(p, f', i1).
     case p of
       Poll_Pending \<Rightarrow> Inr (Poll_Pending, ST_Send udpsock f', i1, w)
     | Poll_Ready r \<Rightarrow> rbind (oneshot_io_drop D (st_io f') i1) (\<lambda>i2.
         case r of
           Inl e \<Rightarrow> Inl UnwrapErr
         | Inr count \<Rightarrow> Inr (Poll_Ready (), ST_Over, i2, sys_close X (us_inner udpsock) (print (Sent count) w))))"

definition send_task_sleep :: "('u, 'ps, 'os, 'ms, 'rb, 't) deps \<Rightarrow> 'w os_api \<Rightarrow> (line \<Rightarrow> 'w \<Rightarrow> 'w) \<Rightarrow> 't \<Rightarrow> UdpSocket \<Rightarrow> Timer \<Rightarrow>
    ('u, 'ps, 'os, 'ms) inner \<Rightarrow> 'w \<Rightarrow> ('u, 'ps, 'os, 'ms, 'w, SendTask) task_out" where
  "send_task_sleep D X print a udpsock tm i w = rbind (timer_poll D X a tm i w) (\<lambda>(p, tm', i1, w1).
     case p of
       Poll_Pending \<Rightarrow> Inr (Poll_Pending, ST_Sleep udpsock tm', i1, w1)
     | Poll_Ready _ \<Rightarrow> rbind (timer_drop D X tm' i1 w1) (\<lambda>(i2, w2).
         send_task_await D X print a udpsock (send_to udpsock (replicate 20 0xad) (Inr [V4 0x7F000001 9998])) i2 w2))"

definition send_task_poll :: "('u, 'ps, 'os, 'ms, 'rb, 't) deps \<Rightarrow> 'w os_api \<Rightarrow> (line \<Rightarrow> 'w \<Rightarrow> 'w) \<Rightarrow> 't \<Rightarrow> SendTask \<Rightarrow>
    ('u, 'ps, 'os, 'ms) inner \<Rightarrow> 'w \<Rightarrow> ('u, 'ps, 'os, 'ms, 'w, SendTask) task_out" where
  "send_task_poll D X print a st i w = (case st of
     ST_Start \<Rightarrow> (case udp_bind X (Inr [V4 0x7F000001 0]) w of
         (Inl e, w1) \<Rightarrow> Inl UnwrapErr
       | (Inr udpsock, w1) \<Rightarrow> rbind (timer_sleep X (secs 1) w1) (\<lambda>(r, w2).
           case r of
             Inl e \<Rightarrow> Inl UnwrapErr
           | Inr tm \<Rightarrow> send_task_sleep D X print a udpsock tm i w2))
   | ST_Sleep udpsock tm \<Rightarrow> send_task_sleep D X print a udpsock tm i w
   | ST_Send udpsock f \<Rightarrow> send_task_await D X print a udpsock f i w
   | ST_Over \<Rightarrow> Inl (PanicMsg ''async fn resumed after completion''))"

datatype udp_fut = UF_Hello Sleeps | UF_Recv RecvTask | UF_Send SendTask

definition udp_upoll :: "('u, 'ps, 'os, 'ms, 'rb, nat) deps \<Rightarrow> 'w os_api \<Rightarrow> (line \<Rightarrow> 'w \<Rightarrow> 'w) \<Rightarrow>
    (udp_fut, ('ws, udp_fut, ('u, 'ps, 'os, 'ms) inner, 'w, unit) thread, unit) upoll" where
  "udp_upoll D X print f a t = (case f of
     UF_Hello sl \<Rightarrow> obind (sleeps_upoll D X print sl a t) (\<lambda>(p, sl', t'). Some (Inr (p, UF_Hello sl', t')))
   | UF_Recv r \<Rightarrow> obind (Some (recv_task_poll D X print a r (inner t) (world t))) (\<lambda>(p, r', i, w).
       Some (Inr (p, UF_Recv r', t\<lparr>inner := i, world := w\<rparr>)))
   | UF_Send s \<Rightarrow> obind (Some (send_task_poll D X print a s (inner t) (world t))) (\<lambda>(p, s', i, w).
       Some (Inr (p, UF_Send s', t\<lparr>inner := i, world := w\<rparr>))))"

definition udp_main :: "('ws, udp_fut) task_slab \<Rightarrow> ('u, 'ps, 'os, 'ms, 'rb, nat) deps \<Rightarrow> 'w os_api \<Rightarrow> (line \<Rightarrow> 'w \<Rightarrow> 'w) \<Rightarrow>
    ('ws, udp_fut, ('u, 'ps, 'os, 'ms) inner, 'w, unit) thread \<Rightarrow>
    ('ws, udp_fut, ('u, 'ps, 'os, 'ms) inner, 'w, unit) thread rs option" where
  "udp_main S D X print t =
     obind (Some (spawn_detach D X (UF_Hello (SL_At udp_hello)) t)) (\<lambda>t1.
     obind (Some (spawn_detach D X (UF_Recv RT_Start) t1)) (\<lambda>t2.
     obind (Some (spawn_detach D X (UF_Send ST_Start) t2)) (\<lambda>t3.
     run S D X (udp_upoll D X print) t3)))"

subsection \<open>What the tasks print\<close>

fun udp_lines :: "udp_fut \<Rightarrow> line list set" where
  "udp_lines (UF_Hello sl) = {to_print sl}"
| "udp_lines (UF_Recv r) = {[Received n src] |n src. True}"
| "udp_lines (UF_Send s) = {[Sent n] |n. True}"

lemma udp_upoll_env: "udp_upoll D X print f a t = Some (Inr (p, f', t')) \<Longrightarrow> \<exists>i w. t' = t\<lparr>inner := i, world := w\<rparr>"
  by (cases f) (auto simp: udp_upoll_def obind_eq_ok elim!: sleeps_upoll_effects)

context console
begin

lemma udp_bind_quiet:
  assumes "udp_bind X as w = (r, w1)"
  shows "printed w1 = printed w"
proof -
  have "w1 = snd (sys_udp_bind X as w)" using assms by (auto simp: udp_bind_def split: prod.splits sum.splits)
  then show ?thesis by simp
qed

lemma recv_task_await_prints:
  assumes "recv_task_await D X print a udpsock f i w = Inr (p, st, i', w')"
  shows "p = Poll_Pending \<and> printed w' = printed w \<or> p = Poll_Ready () \<and> (\<exists>n src. printed w' = printed w @ [Received n src])"
proof -
  from assms obtain q f' i1 where q: "recv_from_poll D (little_endian X) a f i = Inr (q, f', i1)"
    by (auto simp: recv_task_await_def rbind_eq_Inr)
  show ?thesis
  proof (cases q)
    case (Poll_Ready r)
    with assms q show ?thesis by (cases r) (auto simp: recv_task_await_def rbind_eq_Inr)
  qed (use assms q in \<open>simp add: recv_task_await_def\<close>)
qed

lemma recv_task_prints:
  assumes "recv_task_poll D X print a st i w = Inr (p, st', i', w')"
  shows "p = Poll_Pending \<and> printed w' = printed w \<or> p = Poll_Ready () \<and> (\<exists>n src. printed w' = printed w @ [Received n src])"
proof (cases st)
  case RT_Start
  obtain r w1 where b: "udp_bind X (Inr [V4 0x7F000001 9998]) w = (r, w1)" by fastforce
  from assms RT_Start b udp_bind_quiet [OF b] show ?thesis by (cases r) (auto simp: recv_task_poll_def dest!: recv_task_await_prints)
qed (use assms in \<open>auto simp: recv_task_poll_def dest!: recv_task_await_prints\<close>)

lemma send_task_await_prints:
  assumes "send_task_await D X print a udpsock f i w = Inr (p, st, i', w')"
  shows "p = Poll_Pending \<and> printed w' = printed w \<or> p = Poll_Ready () \<and> (\<exists>n. printed w' = printed w @ [Sent n])"
proof -
  from assms obtain q f' i1 where q: "send_to_poll D (little_endian X) a f i = Inr (q, f', i1)"
    by (auto simp: send_task_await_def rbind_eq_Inr)
  show ?thesis
  proof (cases q)
    case (Poll_Ready r)
    with assms q show ?thesis by (cases r) (auto simp: send_task_await_def rbind_eq_Inr)
  qed (use assms q in \<open>simp add: send_task_await_def\<close>)
qed

lemma send_task_sleep_prints:
  assumes "send_task_sleep D X print a udpsock tm i w = Inr (p, st, i', w')"
  shows "p = Poll_Pending \<and> printed w' = printed w \<or> p = Poll_Ready () \<and> (\<exists>n. printed w' = printed w @ [Sent n])"
proof -
  from assms obtain q tm' i1 w1 where q: "timer_poll D X a tm i w = Inr (q, tm', i1, w1)"
    by (auto simp: send_task_sleep_def rbind_eq_Inr)
  show ?thesis
  proof (cases q)
    case (Poll_Ready r)
    with assms q obtain i2 where "send_task_await D X print a udpsock (send_to udpsock (replicate 20 0xad) (Inr [V4 0x7F000001 9998])) i2
        (sys_close X (tm_fd tm') w1) = Inr (p, st, i', w')"
      by (auto simp: send_task_sleep_def timer_drop_def rbind_eq_Inr)
    from send_task_await_prints [OF this] timer_poll_quiet [OF q] show ?thesis by simp
  qed (use assms q timer_poll_quiet [OF q] in \<open>simp add: send_task_sleep_def\<close>)
qed

lemma send_task_prints:
  assumes "send_task_poll D X print a st i w = Inr (p, st', i', w')"
  shows "p = Poll_Pending \<and> printed w' = printed w \<or> p = Poll_Ready () \<and> (\<exists>n. printed w' = printed w @ [Sent n])"
proof (cases st)
  case ST_Start
  obtain r w1 where b: "udp_bind X (Inr [V4 0x7F000001 0]) w = (r, w1)" by fastforce
  with assms ST_Start obtain udpsock where sock: "r = Inr udpsock" by (cases r) (simp_all add: send_task_poll_def)
  with assms ST_Start b obtain tr w2 where t: "timer_sleep X (secs 1) w1 = Inr (tr, w2)"
    by (auto simp: send_task_poll_def rbind_eq_Inr)
  from assms ST_Start b sock t udp_bind_quiet [OF b] timer_sleep_quiet [OF t] show ?thesis
    by (cases tr) (auto simp: send_task_poll_def dest!: send_task_sleep_prints)
qed (use assms in \<open>auto simp: send_task_poll_def dest!: send_task_await_prints send_task_sleep_prints\<close>)

lemma udp_upoll_lines:
  assumes "udp_upoll D X print f a t = Some (Inr (p, f', t'))"
  shows "\<exists>ms. printed (world t') = printed (world t) @ ms
    \<and> (\<forall>ls\<in>case p of Poll_Pending \<Rightarrow> udp_lines f' | Poll_Ready _ \<Rightarrow> {[]}. ms @ ls \<in> udp_lines f)"
proof (cases f)
  case (UF_Hello sl)
  with assms obtain sl' where "sleeps_upoll D X print sl a t = Some (Inr (p, sl', t'))" "f' = UF_Hello sl'"
    by (auto simp: udp_upoll_def obind_eq_ok)
  with sleeps_upoll_lines [OF this(1)] UF_Hello show ?thesis by (cases p) simp_all
next
  case (UF_Recv r)
  with assms obtain r' i w where r: "recv_task_poll D X print a r (inner t) (world t) = Inr (p, r', i, w)" "f' = UF_Recv r'" "world t' = w"
    by (auto simp: udp_upoll_def obind_eq_ok)
  from recv_task_prints [OF r(1)] r(2,3) UF_Recv show ?thesis by auto
next
  case (UF_Send st)
  with assms obtain s' i w where r: "send_task_poll D X print a st (inner t) (world t) = Inr (p, s', i, w)" "f' = UF_Send s'" "world t' = w"
    by (auto simp: udp_upoll_def obind_eq_ok)
  from send_task_prints [OF r(1)] r(2,3) UF_Send show ?thesis by auto
qed

lemma udp_program:
  assumes "slab_laws S"
  shows "output_program S X UNIV (udp_upoll D X print) print printed udp_lines"
proof -
  have "executor_env S X UNIV (udp_upoll D X print)"
    using assms by (auto simp: executor_env_def executor_env_axioms_def intro: env_effects dest!: udp_upoll_env)
  moreover have "tasks S t' = tasks S t" if "udp_upoll D X print f a t = Some (Inr (p, f', t'))" for f a t p f' t'
    using udp_upoll_env [OF that] by (auto simp: env_tasks)
  ultimately show ?thesis
    unfolding output_program_def output_program_axioms_def by (intro conjI allI impI console_axioms udp_upoll_lines)
qed

end

interpretation tick_udp: output_program vec_slab D tick_os UNIV "udp_upoll D tick_os tick_print" tick_print tk_log udp_lines for D
  by (rule tick.udp_program [OF vec.slab_laws_axioms])

subsection \<open>Properties\<close>

text \<open>
  C19. What \<open>udp.rs\<close> prints: when its \<open>main\<close> returns, its first task has printed its lines in their
  order, a datagram has been received and one has been sent, each reported once, and nothing
  else has been printed.
\<close>

theorem udp_output:
  assumes "slab_laws S" "console X print printed" "exec_inv S None t" "tasks S t = {}"
    and "udp_main S D X print t = Some (Inr t')"
  shows "\<exists>ms f n src m. printed (world t') = printed (world t) @ ms \<and> interleaves f ms
    \<and> f = (\<lambda>_. [])(next_id t := map snd udp_hello, next_id t + 1 := [Received n src], next_id t + 2 := [Sent m])"
proof -
  note P = console.udp_program [OF assms(2,1)]
  from assms(5) obtain t1 t2 t3 where m: "spawn_detach D X (UF_Hello (SL_At udp_hello)) t = Inr t1"
    "spawn_detach D X (UF_Recv RT_Start) t1 = Inr t2" "spawn_detach D X (UF_Send ST_Start) t2 = Inr t3"
    "executor_loop S D X (udp_upoll D X print) t3 = Some (Inr t')"
    by (auto simp: udp_main_def obind_eq_ok run_def)
  note c1 = output_program.detach_covers [OF P m(1) assms(3) output_program.covers_none [OF P assms(4)]]
  note c2 = output_program.detach_covers [OF P m(2) c1(1,2)]
  note c3 = output_program.detach_covers [OF P m(3) c2(1,2)]
  let ?F = "(\<lambda>_. {[]})(next_id t := udp_lines (UF_Hello (SL_At udp_hello)), next_id t + 1 := udp_lines (UF_Recv RT_Start),
    next_id t + 2 := udp_lines (UF_Send ST_Start))"
  from output_program.loop_output [OF P m(4) c3(1,2)] c1(3,4) c2(3,4) c3(3) obtain ms f where
    ms: "printed (world t') = printed (world t) @ ms" "interleaves f ms" and f: "\<And>a. f a \<in> ?F a"
    unfolding output_program.outputs_def [OF P] by auto
  from f [of "next_id t + 1"] obtain n src where n: "f (next_id t + 1) = [Received n src]" by auto
  from f [of "next_id t + 2"] obtain k where k: "f (next_id t + 2) = [Sent k]" by auto
  have "f = (\<lambda>_. [])(next_id t := map snd udp_hello, next_id t + 1 := [Received n src], next_id t + 2 := [Sent k])"
  proof
    fix a show "f a = ((\<lambda>_. [])(next_id t := map snd udp_hello, next_id t + 1 := [Received n src], next_id t + 2 := [Sent k])) a"
      using f [of a] n k by (cases "a = next_id t"; cases "a = next_id t + 1"; cases "a = next_id t + 2") simp_all
  qed
  with ms show ?thesis by blast
qed

text \<open>The ring completes the two operations together.\<close>

abbreviation udp_thread :: "(udp_fut Task option list, udp_fut, (script_ring, nat PendingIo option list, ResultState option list,
    i32 list MultishotResultState option list) inner, tick, unit) thread" where
  "udp_thread \<equiv> \<lparr>waiting = [], run_q = [], ids = (\<lambda>_. 0), next_id = 0,
     inner = (ri fresh)\<lparr>uring := \<lparr>sr_sq = [], sr_ready = [], sr_batches = [[cqe0 20 0, (cqe0 20 0)\<lparr>cqe_user_data := 1\<rparr>]],
       sr_cancel = \<lambda>_. None\<rparr>\<rparr>,
     world = \<lparr>tk_clock = 0, tk_log = []\<rparr>, chans = []\<rparr>"

lemmas udp_eval = tick_eval udp_upoll_def send_task_poll_def recv_task_poll_def send_task_sleep_def send_task_await_def recv_task_await_def
  udp_bind_def send_to_def send_to_poll_def send_prep_def recv_from_def recv_from_poll_def recv_prep_def wake_def
  reactor_react_def react_def react_loop_Cons react_loop_Nil reactor_eval
  recv_out_def csock_try_into_def zeroed_hdr_def zeroed_csock_def zeroed_addr_def usize_as_u32_def map_io_def

lemma udp_run: "\<exists>t'. udp_main vec_slab ring0 tick_os tick_print udp_thread = Some (Inr t')"
  apply (simp add: udp_main_def udp_hello_def udp_eval)
  apply (subst executor_loop.simps, subst executor_iter_def, simp add: udp_eval)+
  done

theorem udp_output_witness:
  "\<exists>t' f n src m. udp_main vec_slab ring0 tick_os tick_print udp_thread = Some (Inr t') \<and> interleaves f (tk_log (world t'))
     \<and> f = (\<lambda>_. [])(0 := map snd udp_hello, 1 := [Received n src], 2 := [Sent m])"
proof -
  from udp_run obtain t' where run: "udp_main vec_slab ring0 tick_os tick_print udp_thread = Some (Inr t')" ..
  have "exec_inv vec_slab None udp_thread" "tasks vec_slab udp_thread = {}"
    by (simp_all add: exec_inv_def waiting_at_def live_def tasks_def vec_slab_simps ran_def)
  from udp_output [OF vec.slab_laws_axioms tick.console_axioms this run] obtain f n src m where
    "interleaves f (tk_log (world t'))" "f = (\<lambda>_. [])(0 := map snd udp_hello, 1 := [Received n src], 2 := [Sent m])"
    by (auto simp: numeral_2_eq_2)
  with run show ?thesis by blast
qed

end
