(* ===== verification/SubTasks.thy ===== *)
theory SubTasks
  imports Output WebAccept
begin

text \<open>
  The program \<open>src/examples/sub_tasks.rs\<close>: a task that spawns another one, awaits it and asserts
  its value.
\<close>

text \<open>The values of the two tasks, which in the source have types of their own.\<close>

datatype sub_val = SV_Unit | SV_Int i32

datatype OtherTask = OT_Start | OT_Sleep Sleeps

datatype MainTask =
    MT_A Sleeps                   \<comment> \<open>before the other task is spawned\<close>
  | MT_B TaskJoiner Sleeps
  | MT_Join TaskJoiner
  | MT_C Sleeps
  | MT_Over

datatype sub_fut = SU_Main MainTask | SU_Other OtherTask

type_synonym ('ws, 'u, 'ps, 'os, 'ms, 'w) sub_thread = "('ws, sub_fut, ('u, 'ps, 'os, 'ms) inner, 'w, sub_val) thread"
type_synonym ('ws, 'u, 'ps, 'os, 'ms, 'w) sub_poll = "(sub_val Poll \<times> sub_fut \<times> ('ws, 'u, 'ps, 'os, 'ms, 'w) sub_thread) rs option"

definition other_sleep :: "('u, 'ps, 'os, 'ms, 'rb, nat) deps \<Rightarrow> 'w os_api \<Rightarrow> (line \<Rightarrow> 'w \<Rightarrow> 'w) \<Rightarrow> nat \<Rightarrow> Sleeps \<Rightarrow>
    ('ws, 'u, 'ps, 'os, 'ms, 'w) sub_thread \<Rightarrow> ('ws, 'u, 'ps, 'os, 'ms, 'w) sub_poll" where
  "other_sleep D X print a sl t = obind (sleeps_upoll D X print sl a t) (\<lambda>(p, sl', t1).
     Some (Inr (map_poll (\<lambda>_. SV_Int 24) p, SU_Other (OT_Sleep sl'), t1)))"

definition other_poll :: "('u, 'ps, 'os, 'ms, 'rb, nat) deps \<Rightarrow> 'w os_api \<Rightarrow> (line \<Rightarrow> 'w \<Rightarrow> 'w) \<Rightarrow> nat \<Rightarrow> OtherTask \<Rightarrow>
    ('ws, 'u, 'ps, 'os, 'ms, 'w) sub_thread \<Rightarrow> ('ws, 'u, 'ps, 'os, 'ms, 'w) sub_poll" where
  "other_poll D X print a st t = (case st of
     OT_Start \<Rightarrow> other_sleep D X print a (SL_At [(secs 1, Text ''Bye bye from other task'')])
       (t\<lparr>world := print (Text ''Hello from other task'') (world t)\<rparr>)
   | OT_Sleep sl \<Rightarrow> other_sleep D X print a sl t)"

definition main_c :: "('u, 'ps, 'os, 'ms, 'rb, nat) deps \<Rightarrow> 'w os_api \<Rightarrow> (line \<Rightarrow> 'w \<Rightarrow> 'w) \<Rightarrow> nat \<Rightarrow> Sleeps \<Rightarrow>
    ('ws, 'u, 'ps, 'os, 'ms, 'w) sub_thread \<Rightarrow> ('ws, 'u, 'ps, 'os, 'ms, 'w) sub_poll" where
  "main_c D X print a sl t = obind (sleeps_upoll D X print sl a t) (\<lambda>(p, sl', t1).
     case p of
       Poll_Pending \<Rightarrow> Some (Inr (Poll_Pending, SU_Main (MT_C sl'), t1))
     | Poll_Ready _ \<Rightarrow> Some (Inr (Poll_Ready SV_Unit, SU_Main MT_Over, t1)))"

text \<open>The joiner is dropped when it has been awaited; then the value is compared.\<close>

definition main_join :: "('u, 'ps, 'os, 'ms, 'rb, nat) deps \<Rightarrow> 'w os_api \<Rightarrow> (line \<Rightarrow> 'w \<Rightarrow> 'w) \<Rightarrow> nat \<Rightarrow> TaskJoiner \<Rightarrow>
    ('ws, 'u, 'ps, 'os, 'ms, 'w) sub_thread \<Rightarrow> ('ws, 'u, 'ps, 'os, 'ms, 'w) sub_poll" where
  "main_join D X print a task2 t = obind (joiner_poll D a task2 t) (\<lambda>(p, task2', t1).
     case p of
       Poll_Pending \<Rightarrow> Some (Inr (Poll_Pending, SU_Main (MT_Join task2'), t1))
     | Poll_Ready v \<Rightarrow> obind (Some (joiner_drop D X task2' t1)) (\<lambda>t2.
         if v = SV_Int 24 then main_c D X print a (SL_At [(secs 1, Text ''Hello C!'')]) t2
         else Some (Inl (PanicMsg ''assertion `left == right` failed''))))"

definition main_b :: "('u, 'ps, 'os, 'ms, 'rb, nat) deps \<Rightarrow> 'w os_api \<Rightarrow> (line \<Rightarrow> 'w \<Rightarrow> 'w) \<Rightarrow> nat \<Rightarrow> TaskJoiner \<Rightarrow> Sleeps \<Rightarrow>
    ('ws, 'u, 'ps, 'os, 'ms, 'w) sub_thread \<Rightarrow> ('ws, 'u, 'ps, 'os, 'ms, 'w) sub_poll" where
  "main_b D X print a task2 sl t = obind (sleeps_upoll D X print sl a t) (\<lambda>(p, sl', t1).
     case p of
       Poll_Pending \<Rightarrow> Some (Inr (Poll_Pending, SU_Main (MT_B task2 sl'), t1))
     | Poll_Ready _ \<Rightarrow> main_join D X print a task2 t1)"

definition main_a :: "('u, 'ps, 'os, 'ms, 'rb, nat) deps \<Rightarrow> 'w os_api \<Rightarrow> (line \<Rightarrow> 'w \<Rightarrow> 'w) \<Rightarrow> nat \<Rightarrow> Sleeps \<Rightarrow>
    ('ws, 'u, 'ps, 'os, 'ms, 'w) sub_thread \<Rightarrow> ('ws, 'u, 'ps, 'os, 'ms, 'w) sub_poll" where
  "main_a D X print a sl t = obind (sleeps_upoll D X print sl a t) (\<lambda>(p, sl', t1).
     case p of
       Poll_Pending \<Rightarrow> Some (Inr (Poll_Pending, SU_Main (MT_A sl'), t1))
     | Poll_Ready _ \<Rightarrow> obind (Some (spawn X (SU_Other OT_Start) t1)) (\<lambda>(task2, t2).
         main_b D X print a task2 (SL_At [(secs 1, Text ''Hello B!'')]) t2))"

definition sub_upoll :: "('u, 'ps, 'os, 'ms, 'rb, nat) deps \<Rightarrow> 'w os_api \<Rightarrow> (line \<Rightarrow> 'w \<Rightarrow> 'w) \<Rightarrow>
    (sub_fut, ('ws, 'u, 'ps, 'os, 'ms, 'w) sub_thread, sub_val) upoll" where
  "sub_upoll D X print f a t = (case f of
     SU_Other st \<Rightarrow> other_poll D X print a st t
   | SU_Main m \<Rightarrow> (case m of
       MT_A sl \<Rightarrow> main_a D X print a sl t
     | MT_B task2 sl \<Rightarrow> main_b D X print a task2 sl t
     | MT_Join task2 \<Rightarrow> main_join D X print a task2 t
     | MT_C sl \<Rightarrow> main_c D X print a sl t
     | MT_Over \<Rightarrow> Some (Inl (PanicMsg ''async fn resumed after completion''))))"

abbreviation sub_start :: sub_fut where
  "sub_start \<equiv> SU_Main (MT_A (SL_At [(secs 2, Text ''Hello A!'')]))"

definition sub_main :: "('ws, sub_fut) task_slab \<Rightarrow> ('u, 'ps, 'os, 'ms, 'rb, nat) deps \<Rightarrow> 'w os_api \<Rightarrow> (line \<Rightarrow> 'w \<Rightarrow> 'w) \<Rightarrow>
    ('ws, 'u, 'ps, 'os, 'ms, 'w) sub_thread \<Rightarrow> ('ws, 'u, 'ps, 'os, 'ms, 'w) sub_thread rs option" where
  "sub_main S D X print t = obind (block_on S D X (sub_upoll D X print) sub_start t) (\<lambda>(_, t'). Some (Inr t'))"

subsection \<open>The contract of the executor\<close>

lemma obind_poll:
  "obind m (\<lambda>(p, x, t). case p of Poll_Pending \<Rightarrow> A x t | Poll_Ready v \<Rightarrow> B v x t) = Some (Inr r) \<longleftrightarrow>
     (\<exists>x t. m = Some (Inr (Poll_Pending, x, t)) \<and> A x t = Some (Inr r)) \<or> (\<exists>v x t. m = Some (Inr (Poll_Ready v, x, t)) \<and> B v x t = Some (Inr r))"
proof (cases m)
  case (Some y)
  show ?thesis
  proof (cases y)
    case (Inr z)
    obtain p x t where "z = (p, x, t)" by (cases z)
    with Some Inr show ?thesis by (cases p) simp_all
  qed (simp add: Some)
qed simp

lemma joiner_poll_effects:
  fixes t :: "('ws, 'g, ('u, 'ps, 'os, 'ms) inner, 'w, 'v) thread"
  assumes "joiner_poll D a j t = Some (Inr (p, j', t'))"
  obtains i cs where "t' = t\<lparr>inner := i, chans := cs\<rparr>" "tj_rx j' = tj_rx j"
    "p = Poll_Pending \<and> cs = chans t \<or>
     (\<exists>v c. p = Poll_Ready v \<and> ch_buf (chans t ! tj_rx j) = Some v \<and> cs = (chans t)[tj_rx j := c] \<and> ch_buf c = None)"
proof -
  from assms obtain q fin i where q: "event_waiter_poll D a (tj_finished j) (inner t) = Inr (q, fin, i)"
    by (auto simp: joiner_poll_def obind_eq_ok)
  show thesis
  proof (cases q)
    case Poll_Pending
    with assms q have "t' = t\<lparr>inner := i, chans := chans t\<rparr>" "tj_rx j' = tj_rx j" "p = Poll_Pending"
      by (auto simp: joiner_poll_def)
    then show thesis by (intro that) auto
  next
    case (Poll_Ready r)
    with assms q obtain v c where "chan_recv (chans t ! tj_rx j) = Some (Inr (v, c))" "p = Poll_Ready v"
      "t' = t\<lparr>inner := i, chans := (chans t)[tj_rx j := c]\<rparr>" "tj_rx j' = tj_rx j"
      by (cases r) (auto simp: joiner_poll_def obind_eq_ok)
    then show thesis by (intro that) (auto simp: chan_recv_def split: option.splits if_splits)
  qed
qed


text \<open>
  \<open>chan_ok\<close>: every channel but \<open>c0\<close>, that of the main task, is empty or holds 24. \<open>sub_mid\<close>: what a poll
  of the main task that began in \<open>t0\<close> has done up to \<open>t\<close>.
\<close>

definition chan_ok :: "nat \<Rightarrow> sub_val chan list \<Rightarrow> bool" where
  "chan_ok c0 cs \<longleftrightarrow> c0 < length cs \<and> (\<forall>c<length cs. c \<noteq> c0 \<longrightarrow> ch_buf (cs ! c) \<in> {None, Some (SV_Int 24)})"

definition sub_mid :: "('ws, sub_fut) task_slab \<Rightarrow> 'w os_api \<Rightarrow> nat \<Rightarrow> ('ws, 'u, 'ps, 'os, 'ms, 'w) sub_thread \<Rightarrow>
    ('ws, 'u, 'ps, 'os, 'ms, 'w) sub_thread \<Rightarrow> bool" where
  "sub_mid S X c0 t0 t \<longleftrightarrow> effects S X {} t0 t \<and> chan_ok c0 (chans t) \<and> length (chans t0) \<le> length (chans t)
     \<and> (\<forall>task\<in>tasks S t - tasks S t0. \<exists>st. sf_fut (task_future task) = SU_Other st \<and> sf_tx (task_future task) \<noteq> c0)"

fun joiner_of :: "sub_fut \<Rightarrow> TaskJoiner option" where
  "joiner_of (SU_Main (MT_B j sl)) = Some j"
| "joiner_of (SU_Main (MT_Join j)) = Some j"
| "joiner_of _ = None"

definition joins :: "nat \<Rightarrow> sub_val chan list \<Rightarrow> TaskJoiner \<Rightarrow> bool" where
  "joins c0 cs j \<longleftrightarrow> tj_rx j \<noteq> c0 \<and> tj_rx j < length cs"

text \<open>How a poll of the main task ends.\<close>

definition main_post :: "nat \<Rightarrow> sub_val Poll \<Rightarrow> sub_fut \<Rightarrow> sub_val chan list \<Rightarrow> bool" where
  "main_post c0 p g cs \<longleftrightarrow> (\<forall>j. joiner_of g = Some j \<longrightarrow> joins c0 cs j) \<and> (\<exists>m. g = SU_Main m) \<and> (\<forall>v. p = Poll_Ready v \<longrightarrow> v = SV_Unit)"

lemma chan_ok_update: "chan_ok c0 cs \<Longrightarrow> ch_buf c = None \<Longrightarrow> chan_ok c0 (cs[k := c])"
  by (cases "k < length cs") (auto simp: chan_ok_def nth_list_update)

lemma sub_mid_env:
  assumes "sub_mid S X c0 t0 t" "chan_ok c0 cs" "length (chans t) \<le> length cs"
  shows "sub_mid S X c0 t0 (t\<lparr>inner := i, world := w, chans := cs\<rparr>)"
proof -
  have "effects S X {} t0 (t\<lparr>inner := i, world := w, chans := cs\<rparr>)"
    by (rule eff_env) (use assms in \<open>simp_all add: sub_mid_def\<close>)
  with assms show ?thesis by (simp add: sub_mid_def tasks_def waiting_at_def)
qed

lemma sub_mid_sleep:
  assumes "sub_mid S X c0 t0 t" "sleeps_upoll D X print sl a t = Some (Inr (p, sl', t'))"
  shows "sub_mid S X c0 t0 t'" "chans t' = chans t"
proof -
  obtain i w where t': "t' = t\<lparr>inner := i, world := w\<rparr>" by (rule sleeps_upoll_effects [OF assms(2)])
  show "sub_mid S X c0 t0 t'"
    using sub_mid_env [where i = i and w = w, OF assms(1), of "chans t"] assms(1) by (simp add: t' sub_mid_def)
  show "chans t' = chans t" by (simp add: t')
qed

lemma joiner_drop_form:
  fixes t :: "('ws, 'g, ('u, 'ps, 'os, 'ms) inner, 'w, 'v) thread"
  assumes "joiner_drop D X j t = Inr t'"
  shows "\<exists>i w c. t' = t\<lparr>inner := i, world := w, chans := (chans t)[tj_rx j := c]\<rparr> \<and> ch_buf c = None"
proof -
  let ?c = "(chans t ! tj_rx j)\<lparr>ch_buf := None, ch_rx := False\<rparr>"
  from assms obtain i where "t' = t\<lparr>chans := (chans t)[tj_rx j := ?c], world := event_drop X (tj_evt j) (world t), inner := i\<rparr>"
    by (auto simp: joiner_drop_def Let_def rbind_eq_Inr)
  then have "t' = t\<lparr>inner := i, world := event_drop X (tj_evt j) (world t), chans := (chans t)[tj_rx j := ?c]\<rparr>" by (cases t) simp
  moreover have "ch_buf ?c = None" by simp
  ultimately show ?thesis by blast
qed

lemma sub_mid_drop:
  assumes "sub_mid S X c0 t0 t" "joiner_drop D X j t = Inr t'"
  shows "sub_mid S X c0 t0 t'"
proof -
  from joiner_drop_form [OF assms(2)] obtain i w c where t': "t' = t\<lparr>inner := i, world := w, chans := (chans t)[tj_rx j := c]\<rparr>" "ch_buf c = None"
    by blast
  have "chan_ok c0 ((chans t)[tj_rx j := c])" using assms(1) t'(2) by (simp add: sub_mid_def chan_ok_update)
  then show ?thesis unfolding t'(1) by (rule sub_mid_env [OF assms(1)]) simp
qed

lemma main_c_ok:
  assumes "sub_mid S X c0 t0 t" "main_c D X print a sl t = Some (Inr (p, g, t'))"
  shows "sub_mid S X c0 t0 t' \<and> main_post c0 p g (chans t')"
proof -
  from assms(2) obtain q sl' t1 where q: "sleeps_upoll D X print sl a t = Some (Inr (q, sl', t1))"
    by (auto simp: main_c_def obind_eq_ok)
  with assms(2) have "t1 = t'" "main_post c0 p g (chans t')" by (cases q; auto simp: main_c_def main_post_def)+
  with sub_mid_sleep(1) [OF assms(1) q] show ?thesis by simp
qed

lemma main_join_ok:
  assumes mid: "sub_mid S X c0 t0 t" and j: "joins c0 (chans t) j" and run: "main_join D X print a j t = Some r"
  shows "(\<forall>p g t'. r = Inr (p, g, t') \<longrightarrow> sub_mid S X c0 t0 t' \<and> main_post c0 p g (chans t'))
    \<and> (\<forall>v j' t1. joiner_poll D a j t = Some (Inr (Poll_Ready v, j', t1)) \<longrightarrow> v = SV_Int 24)"
proof (rule conjI)
  have ok: "chan_ok c0 (chans t)" using mid by (simp add: sub_mid_def)
  show v: "\<forall>v j' t1. joiner_poll D a j t = Some (Inr (Poll_Ready v, j', t1)) \<longrightarrow> v = SV_Int 24"
  proof (intro allI impI)
    fix v j' t1 assume "joiner_poll D a j t = Some (Inr (Poll_Ready v, j', t1))"
    then have "ch_buf (chans t ! tj_rx j) = Some v" by (rule joiner_poll_effects) simp
    with ok j show "v = SV_Int 24" unfolding chan_ok_def joins_def by force
  qed
  show "\<forall>p g t'. r = Inr (p, g, t') \<longrightarrow> sub_mid S X c0 t0 t' \<and> main_post c0 p g (chans t')"
  proof (intro allI impI)
    fix p g t' assume r: "r = Inr (p, g, t')"
    with run obtain q j' t1 where q: "joiner_poll D a j t = Some (Inr (q, j', t1))"
      by (auto simp: main_join_def obind_eq_ok)
    from q obtain i cs where t1: "t1 = t\<lparr>inner := i, chans := cs\<rparr>" "tj_rx j' = tj_rx j" and cs: "q = Poll_Pending \<and> cs = chans t \<or>
        (\<exists>v c. q = Poll_Ready v \<and> ch_buf (chans t ! tj_rx j) = Some v \<and> cs = (chans t)[tj_rx j := c] \<and> ch_buf c = None)"
      by (rule joiner_poll_effects)
    from cs ok have "chan_ok c0 cs" "length cs = length (chans t)" by (auto simp: chan_ok_update)
    then have mid1: "sub_mid S X c0 t0 t1" using sub_mid_env [where i = i and w = "world t", OF mid, of cs] by (simp add: t1)
    show "sub_mid S X c0 t0 t' \<and> main_post c0 p g (chans t')"
    proof (cases q)
      case Poll_Pending
      with run r q mid1 t1 j \<open>length cs = length (chans t)\<close> show ?thesis by (auto simp: main_join_def main_post_def joins_def)
    next
      case (Poll_Ready v)
      with run r q obtain t2 where t2: "joiner_drop D X j' t1 = Inr t2"
        and c: "main_c D X print a (SL_At [(secs 1, Text ''Hello C!'')]) t2 = Some (Inr (p, g, t'))"
        by (auto simp: main_join_def obind_eq_ok split: if_splits)
      from main_c_ok [OF sub_mid_drop [OF mid1 t2] c] show ?thesis .
    qed
  qed
qed


lemma main_b_ok:
  assumes "sub_mid S X c0 t0 t" "joins c0 (chans t) j" "main_b D X print a j sl t = Some (Inr (p, g, t'))"
  shows "sub_mid S X c0 t0 t' \<and> main_post c0 p g (chans t')"
proof -
  from assms(3) obtain q sl' t1 where q: "sleeps_upoll D X print sl a t = Some (Inr (q, sl', t1))"
    by (auto simp: main_b_def obind_eq_ok)
  note mid = sub_mid_sleep [OF assms(1) q]
  show ?thesis
  proof (cases q)
    case Poll_Pending
    with assms(2,3) q mid show ?thesis by (auto simp: main_b_def main_post_def)
  next
    case (Poll_Ready u)
    with assms(3) q have "main_join D X print a j t1 = Some (Inr (p, g, t'))" by (simp add: main_b_def)
    from main_join_ok [OF mid(1) _ this] assms(2) mid(2) show ?thesis by simp
  qed
qed

lemma main_a_ok:
  assumes "sub_mid S X c0 t0 t" "main_a D X print a sl t = Some (Inr (p, g, t'))"
  shows "sub_mid S X c0 t0 t' \<and> main_post c0 p g (chans t')"
proof -
  from assms(2) obtain q sl' t1 where q: "sleeps_upoll D X print sl a t = Some (Inr (q, sl', t1))"
    by (auto simp: main_a_def obind_eq_ok)
  note mid = sub_mid_sleep [OF assms(1) q]
  show ?thesis
  proof (cases q)
    case Poll_Pending
    with assms(2) q mid show ?thesis by (auto simp: main_a_def main_post_def)
  next
    case (Poll_Ready u)
    with assms(2) q obtain j t2 where sp: "spawn X (SU_Other OT_Start) t1 = Inr (j, t2)"
      and b: "main_b D X print a j (SL_At [(secs 1, Text ''Hello B!'')]) t2 = Some (Inr (p, g, t'))"
      by (auto simp: main_a_def obind_eq_ok)
    from sp obtain evt where t2: "run_q t2 = run_q t1 @ [\<lparr>task_id = next_id t1,
        task_future = \<lparr>sf_fut = SU_Other OT_Start, sf_evt = evt, sf_tx = length (chans t1)\<rparr>\<rparr>]"
      "waiting t2 = waiting t1" "chans t2 = chans t1 @ [sync_channel]" "tj_rx j = length (chans t1)"
      by (auto simp: spawn_def Let_def rbind_eq_Inr split: prod.splits sum.splits)
    have len: "c0 < length (chans t1)" and ok: "chan_ok c0 (chans t1)" using mid(1) by (simp_all add: sub_mid_def chan_ok_def)
    have "chan_ok c0 (chans t2)" using ok by (auto simp: chan_ok_def t2(3) nth_append sync_channel_def less_Suc_eq)
    moreover have "effects S X {} t0 t2" using mid(1) eff_spawn [OF _ sp] by (auto simp: sub_mid_def)
    moreover have "tasks S t2 = insert (last (run_q t2)) (tasks S t1)" by (auto simp: tasks_def waiting_at_def t2(1,2))
    ultimately have "sub_mid S X c0 t0 t2" using mid(1) len by (auto simp: sub_mid_def t2(1,3))
    moreover have "joins c0 (chans t2) j" using len by (simp add: joins_def t2(3,4))
    ultimately show ?thesis using main_b_ok [OF _ _ b] by blast
  qed
qed

text \<open>The invariant of the program, and a turn of the executor.\<close>

definition sub_inv :: "('ws, sub_fut) task_slab \<Rightarrow> nat \<Rightarrow> ('ws, 'u, 'ps, 'os, 'ms, 'w) sub_thread \<Rightarrow> bool" where
  "sub_inv S c0 t \<longleftrightarrow> exec_inv S None t \<and> chan_ok c0 (chans t) \<and> (\<forall>task\<in>tasks S t.
     (case sf_fut (task_future task) of SU_Main _ \<Rightarrow> sf_tx (task_future task) = c0 | SU_Other _ \<Rightarrow> sf_tx (task_future task) \<noteq> c0)
     \<and> (\<forall>j. joiner_of (sf_fut (task_future task)) = Some j \<longrightarrow> joins c0 (chans t) j))"

lemma sleeps_effects:
  fixes t :: "('ws, 'g, ('u, 'ps, 'os, 'ms) inner, 'w, 'v) thread"
  assumes "effects S X {} t0 t" "sleeps_upoll D X print sl a t = Some (Inr (p, sl', t'))"
  shows "effects S X {} t0 t'"
  by (rule sleeps_upoll_effects [OF assms(2)]) (simp add: effects_inner_world [OF assms(1)])

lemma joiner_poll_eff:
  fixes t :: "('ws, 'g, ('u, 'ps, 'os, 'ms) inner, 'w, 'v) thread"
  assumes "effects S X {} t0 t" "joiner_poll D a j t = Some (Inr (p, j', t'))"
  shows "effects S X {} t0 t'"
proof -
  obtain i cs where t': "t' = t\<lparr>inner := i, chans := cs\<rparr>" "p = Poll_Pending \<and> cs = chans t \<or>
     (\<exists>v c. p = Poll_Ready v \<and> ch_buf (chans t ! tj_rx j) = Some v \<and> cs = (chans t)[tj_rx j := c] \<and> ch_buf c = None)"
    by (rule joiner_poll_effects [OF assms(2)])
  have "effects S X {} t0 (t\<lparr>inner := i, world := world t, chans := cs\<rparr>)"
    by (rule eff_env [OF assms(1)]) (use t'(2) in auto)
  with t'(1) show ?thesis by simp
qed

lemma main_c_eff: "effects S X {} t0 t \<Longrightarrow> main_c D X print a sl t = Some (Inr (p, g, t')) \<Longrightarrow> effects S X {} t0 t'"
  by (auto simp: main_c_def obind_poll intro: sleeps_effects)

lemma main_join_eff: "effects S X {} t0 t \<Longrightarrow> main_join D X print a j t = Some (Inr (p, g, t')) \<Longrightarrow> effects S X {} t0 t'"
  unfolding main_join_def obind_poll
  by (auto simp: obind_eq_ok split: if_split_asm
      intro: joiner_poll_eff main_c_eff [OF effects_joiner_drop [OF joiner_poll_eff]])

lemma main_b_eff: "effects S X {} t0 t \<Longrightarrow> main_b D X print a j sl t = Some (Inr (p, g, t')) \<Longrightarrow> effects S X {} t0 t'"
  by (auto simp: main_b_def obind_poll intro: sleeps_effects main_join_eff [OF sleeps_effects])

lemma main_a_eff: "effects S X {} t0 t \<Longrightarrow> main_a D X print a sl t = Some (Inr (p, g, t')) \<Longrightarrow> effects S X {} t0 t'"
  unfolding main_a_def obind_poll
  by (auto simp: obind_eq_ok intro: sleeps_effects main_b_eff [OF eff_spawn [OF sleeps_effects]])

lemma other_eff:
  fixes t0 t :: "('ws, 'u, 'ps, 'os, 'ms, 'w) sub_thread"
  assumes "effects S X {} t0 t" "other_poll D X print a st t = Some (Inr (p, g, t'))"
  shows "effects S X {} t0 t'"
proof -
  have "effects S X {} t0 (t\<lparr>world := w\<rparr>)" for w
    using effects_inner_world [where i = "inner t" and w = w, OF assms(1)] by simp
  with assms show ?thesis
    by (auto simp: other_poll_def other_sleep_def obind_eq_ok split: OtherTask.split_asm intro: sleeps_effects)
qed

lemma sub_upoll_eff: "sub_upoll D X print f a t = Some (Inr (p, f', t')) \<Longrightarrow> effects S X {} t t'"
  by (auto simp: sub_upoll_def split: sub_fut.split_asm MainTask.split_asm
      intro: main_a_eff main_b_eff main_c_eff main_join_eff other_eff eff_refl)

lemma sub_env: "slab_laws S \<Longrightarrow> executor_env S X {} (sub_upoll D X print)"
  by (simp add: executor_env_def executor_env_axioms_def sub_upoll_eff)

interpretation sub: executor_env vec_slab D X "{}" "sub_upoll D X print" for D X print
  by (rule sub_env [OF vec.slab_laws_axioms])


subsection \<open>The value that is asserted\<close>

lemma other_poll_ok:
  assumes "other_poll D X print a st t = Some (Inr (p, g, t'))"
  shows "\<exists>i w. t' = t\<lparr>inner := i, world := w\<rparr>" "\<exists>st'. g = SU_Other st'" "p = Poll_Ready v \<Longrightarrow> v = SV_Int 24"
proof -
  have sl: "(\<exists>i w. t' = u\<lparr>inner := i, world := w\<rparr>) \<and> (\<exists>st'. g = SU_Other st') \<and> (\<forall>v. p = Poll_Ready v \<longrightarrow> v = SV_Int 24)"
    if run: "other_sleep D X print a sl u = Some (Inr (p, g, t'))" for sl u
  proof -
    from run obtain q sl' where q: "sleeps_upoll D X print sl a u = Some (Inr (q, sl', t'))" "p = map_poll (\<lambda>_. SV_Int 24) q"
      "g = SU_Other (OT_Sleep sl')" by (auto simp: other_sleep_def obind_eq_ok)
    from q(1) have "\<exists>i w. t' = u\<lparr>inner := i, world := w\<rparr>" by (rule sleeps_upoll_effects) blast
    moreover have "\<forall>v. p = Poll_Ready v \<longrightarrow> v = SV_Int 24" using q(2) by (cases q) simp_all
    ultimately show ?thesis using q(3) by blast
  qed
  obtain sl w0 where "other_sleep D X print a sl (t\<lparr>world := w0\<rparr>) = Some (Inr (p, g, t'))"
  proof (cases st)
    case (OT_Sleep sl)
    with assms that [of sl "world t"] show thesis by (simp add: other_poll_def)
  qed (use assms that in \<open>simp add: other_poll_def\<close>)
  from sl [OF this] show "\<exists>i w. t' = t\<lparr>inner := i, world := w\<rparr>" "\<exists>st'. g = SU_Other st'" "p = Poll_Ready v \<Longrightarrow> v = SV_Int 24"
    by auto
qed

lemma main_poll_ok:
  assumes "sub_upoll D X print (SU_Main m) a t = Some (Inr (p, g, t'))" "chan_ok c0 (chans t)"
    and "\<And>j. joiner_of (SU_Main m) = Some j \<Longrightarrow> joins c0 (chans t) j"
  shows "sub_mid S X c0 t t' \<and> main_post c0 p g (chans t')"
proof -
  have mid: "sub_mid S X c0 t t" using assms(2) by (simp add: sub_mid_def eff_refl)
  show ?thesis
  proof (cases m)
    case (MT_A sl)
    show ?thesis by (rule main_a_ok [OF mid]) (use assms(1) MT_A in \<open>simp add: sub_upoll_def\<close>)
  next
    case (MT_B j sl)
    show ?thesis by (rule main_b_ok [OF mid]) (use assms(1,3) MT_B in \<open>simp_all add: sub_upoll_def\<close>)
  next
    case (MT_Join j)
    with assms(1,3) main_join_ok [OF mid, of j D print a "Inr (p, g, t')"] show ?thesis by (simp add: sub_upoll_def)
  next
    case (MT_C sl)
    show ?thesis by (rule main_c_ok [OF mid]) (use assms(1) MT_C in \<open>simp add: sub_upoll_def\<close>)
  qed (use assms(1) in \<open>simp add: sub_upoll_def\<close>)
qed

lemma chan_send_ok:
  assumes "chan_ok c0 cs" "chan_send v (cs ! k) = Some c" "k \<noteq> c0 \<longrightarrow> v = SV_Int 24"
  shows "chan_ok c0 (cs[k := c\<lparr>ch_tx := False\<rparr>])"
proof (cases "k < length cs")
  case True
  have "ch_buf c \<in> {None, Some (SV_Int 24)}" if "k \<noteq> c0"
    using assms True that by (auto simp: chan_send_def chan_ok_def split: if_splits option.splits)
  with assms(1) True show ?thesis by (auto simp: chan_ok_def nth_list_update)
qed (use assms(1) in \<open>simp add: list_update_beyond\<close>)

lemma sub_turn:
  assumes "slab_laws S" "sub_inv S c0 t" "executor_iter S D X (sub_upoll D X print) t = Some (Inr (d, t'))"
  shows "sub_inv S c0 t'"
proof -
  note env = sub_env [OF assms(1)]
  have inv: "exec_inv S None t" using assms(2) by (simp add: sub_inv_def)
  obtain task t1 r g t2 where inv': "exec_inv S None t'"
    and turn: "executor_env.turn S X {} (sub_upoll D X print) t task t1 r g t2 t'"
    by (rule executor_env.executor_iter_turn [OF env assms(3) inv])
  note T = turn [unfolded executor_env.turn_def [OF env]]
  from T have tasks: "tasks S t = insert task (tasks S t1)" and c1: "chans t1 = chans t"
    and poll: "sub_upoll D X print (sf_fut (task_future task)) (task_id task) t1 = Some (Inr (r, g, t2))" by simp_all
  have ok: "chan_ok c0 (chans t1)" using assms(2) by (simp add: sub_inv_def c1)
  let ?good = "\<lambda>cs task. (case sf_fut (task_future task) of SU_Main _ \<Rightarrow> sf_tx (task_future task) = c0 | SU_Other _ \<Rightarrow> sf_tx (task_future task) \<noteq> c0)
     \<and> (\<forall>j. joiner_of (sf_fut (task_future task)) = Some j \<longrightarrow> joins c0 cs j)"
  have good: "?good (chans t) task'" if "task' \<in> tasks S t" for task' using assms(2) that by (simp add: sub_inv_def)
  let ?task = "task\<lparr>task_future := (task_future task)\<lparr>sf_fut := g\<rparr>\<rparr>" and ?tx = "sf_tx (task_future task)"
  have P: "chan_ok c0 (chans t2) \<and> length (chans t) \<le> length (chans t2) \<and> (\<forall>task'\<in>tasks S t2 - tasks S t1. ?good (chans t2) task')
      \<and> (r = Poll_Pending \<longrightarrow> ?good (chans t2) ?task) \<and> (\<forall>v. r = Poll_Ready v \<longrightarrow> ?tx \<noteq> c0 \<longrightarrow> v = SV_Int 24)"
  proof (cases "sf_fut (task_future task)")
    case (SU_Main m)
    have tx: "?tx = c0" using good [of task] tasks SU_Main by simp
    have "sub_mid S X c0 t1 t2 \<and> main_post c0 r g (chans t2)"
      by (rule main_poll_ok [OF poll [unfolded SU_Main] ok]) (use good [of task] tasks SU_Main c1 in simp)
    then have mid: "chan_ok c0 (chans t2)" "length (chans t1) \<le> length (chans t2)" "main_post c0 r g (chans t2)"
      "\<forall>task\<in>tasks S t2 - tasks S t1. \<exists>st. sf_fut (task_future task) = SU_Other st \<and> sf_tx (task_future task) \<noteq> c0"
      by (simp_all add: sub_mid_def)
    from mid(3) obtain m' where m': "g = SU_Main m'" "\<And>j. joiner_of g = Some j \<Longrightarrow> joins c0 (chans t2) j" by (auto simp: main_post_def)
    have "?good (chans t2) task'" if new: "task' \<in> tasks S t2 - tasks S t1" for task'
    proof -
      obtain st where "sf_fut (task_future task') = SU_Other st" "sf_tx (task_future task') \<noteq> c0" using mid(4) new by blast
      then show ?thesis by simp
    qed
    moreover have "?good (chans t2) ?task" using m' tx by simp
    ultimately show ?thesis using mid(1,2) c1 tx by simp
  next
    case (SU_Other st)
    with poll have o: "other_poll D X print (task_id task) st t1 = Some (Inr (r, g, t2))" by (simp add: sub_upoll_def)
    from other_poll_ok(1,2) [OF o] obtain i w st' where t2: "t2 = t1\<lparr>inner := i, world := w\<rparr>" "g = SU_Other st'" by blast
    have tx: "?tx \<noteq> c0" using good [of task] tasks SU_Other by simp
    have "tasks S t2 = tasks S t1" by (simp add: t2 env_tasks)
    moreover have "\<forall>v. r = Poll_Ready v \<longrightarrow> v = SV_Int 24" using other_poll_ok(3) [OF o] by blast
    ultimately show ?thesis using ok c1 tx t2 by simp
  qed
  have chans': "chan_ok c0 (chans t') \<and> length (chans t') = length (chans t2)"
  proof (cases r)
    case (Poll_Ready v)
    with T obtain c where "chan_send v (chans t2 ! ?tx) = Some c" "chans t' = (chans t2)[?tx := c\<lparr>ch_tx := False\<rparr>]" by auto
    with P Poll_Ready chan_send_ok [of c0 "chans t2" v ?tx c] show ?thesis by simp
  qed (use T P in simp)
  have more: "joins c0 (chans t') j" if "joins c0 cs j" "length cs \<le> length (chans t2)" for cs j
    using that chans' by (simp add: joins_def)
  have "?good (chans t') task'" if "task' \<in> tasks S t'" for task'
  proof -
    from that T have "task' \<in> tasks S t2 \<or> r = Poll_Pending \<and> task' = ?task" by (auto split: Poll.splits)
    then consider "task' \<in> tasks S t" | "?good (chans t2) task'" using P tasks by blast
    then show ?thesis
    proof cases
      case 1 with good [OF 1] more P show ?thesis by (auto split: sub_fut.splits)
    next
      case 2 with more show ?thesis by (auto split: sub_fut.splits)
    qed
  qed
  with inv' chans' show ?thesis by (simp add: sub_inv_def)
qed


text \<open>The states between two turns of the executor.\<close>

inductive turns :: "('ws, 'g) task_slab \<Rightarrow> ('u, 'ps, 'os, 'ms, 'rb, nat) deps \<Rightarrow> 'w os_api \<Rightarrow>
    ('g, ('ws, 'g, ('u, 'ps, 'os, 'ms) inner, 'w, 'v) thread, 'v) upoll \<Rightarrow> ('ws, 'g, ('u, 'ps, 'os, 'ms) inner, 'w, 'v) thread \<Rightarrow>
    ('ws, 'g, ('u, 'ps, 'os, 'ms) inner, 'w, 'v) thread \<Rightarrow> bool" for S D X upoll t0 where
  turns_start: "turns S D X upoll t0 t0"
| turns_next: "turns S D X upoll t0 t \<Longrightarrow> executor_iter S D X upoll t = Some (Inr (d, t')) \<Longrightarrow> turns S D X upoll t0 t'"

lemma sub_inv_start:
  assumes "slab_laws S" "exec_inv S None t" "tasks S t = {}" "chans t = []" "spawn X sub_start t = Inr (j, t1)"
  shows "sub_inv S 0 t1"
proof -
  note inv = executor_env.spawn_inv [OF sub_env [OF assms(1)] assms(2,5)]
  have "chans t1 = [sync_channel]" using assms(4,5) by (auto simp: spawn_def Let_def rbind_eq_Inr split: prod.splits sum.splits)
  moreover from inv(4) assms(3,4) obtain task where "tasks S t1 = {task}" "sf_fut (task_future task) = sub_start" "sf_tx (task_future task) = 0"
    by auto
  ultimately show ?thesis using inv(1) by (auto simp: sub_inv_def chan_ok_def)
qed

lemma turns_inv: "turns S D X (sub_upoll D X print) t0 t \<Longrightarrow> slab_laws S \<Longrightarrow> sub_inv S c0 t0 \<Longrightarrow> sub_inv S c0 t"
  by (induction rule: turns.induct) (auto intro: sub_turn)

subsection \<open>Properties\<close>

text \<open>
  C18. The assertion of \<open>sub_tasks.rs\<close> holds: in every state the program reaches, whenever the joiner
  that the main task keeps is ready, it is ready with 24, the value of the other task.
\<close>

theorem sub_assertion:
  assumes "slab_laws S" "exec_inv S None t" "tasks S t = {}" "chans t = []" "spawn X sub_start t = Inr (j0, t1)"
    and "turns S D X (sub_upoll D X print) t1 t2" "task \<in> tasks S t2" "joiner_of (sf_fut (task_future task)) = Some j"
    and "chans t3 = chans t2" "joiner_poll D a j t3 = Some (Inr (Poll_Ready v, j', t4))"
  shows "v = SV_Int 24"
proof -
  have "sub_inv S 0 t2" by (rule turns_inv [OF assms(6,1) sub_inv_start [OF assms(1-5)]])
  then have "chan_ok 0 (chans t3)" "joins 0 (chans t3) j" using assms(7-9) by (auto simp: sub_inv_def)
  moreover have "ch_buf (chans t3 ! tj_rx j) = Some v" by (rule joiner_poll_effects [OF assms(10)]) simp
  ultimately show ?thesis unfolding chan_ok_def joins_def by force
qed

abbreviation sub_thread0 :: "(sub_fut Task option list, script_ring, nat PendingIo option list, ResultState option list,
    i32 list MultishotResultState option list, tick) sub_thread" where
  "sub_thread0 \<equiv> \<lparr>waiting = [], run_q = [], ids = (\<lambda>_. 0), next_id = 0, inner = ri fresh,
     world = \<lparr>tk_clock = 0, tk_log = []\<rparr>, chans = []\<rparr>"

lemma sub_run:
  "\<exists>j0 t1 ta t2 task j. spawn tick_os sub_start sub_thread0 = Inr (j0, t1)
    \<and> executor_iter vec_slab ring0 tick_os (sub_upoll ring0 tick_os tick_print) t1 = Some (Inr (False, ta))
    \<and> executor_iter vec_slab ring0 tick_os (sub_upoll ring0 tick_os tick_print) ta = Some (Inr (False, t2))
    \<and> waiting t2 = [Some task] \<and> joiner_of (sf_fut (task_future task)) = Some j
    \<and> (\<exists>v j' t4. joiner_poll ring0 0 j (t2\<lparr>inner := (inner t2)\<lparr>results := \<lparr>rr_oneshot = [Some (RS_Set 8)], rr_multishot = []\<rparr>\<rparr>\<rparr>)
        = Some (Inr (Poll_Ready v, j', t4)))"
  by (simp add: sub_upoll_def main_a_def main_b_def main_join_def joiner_poll_def event_waiter_poll_def event_waiter_entry_def
      other_poll_def other_sleep_def chan_recv_def reactor_eval tick_eval)


theorem sub_assertion_witness:
  "\<exists>j (t :: (sub_fut Task option list, script_ring, nat PendingIo option list, ResultState option list,
      i32 list MultishotResultState option list, tick) sub_thread) j' t4. joiner_poll ring0 0 j t = Some (Inr (Poll_Ready (SV_Int 24), j', t4))"
proof -
  from sub_run obtain j0 t1 ta t2 task j v j' t4 where run: "spawn tick_os sub_start sub_thread0 = Inr (j0, t1)"
    "executor_iter vec_slab ring0 tick_os (sub_upoll ring0 tick_os tick_print) t1 = Some (Inr (False, ta))"
    "executor_iter vec_slab ring0 tick_os (sub_upoll ring0 tick_os tick_print) ta = Some (Inr (False, t2))"
    "waiting t2 = [Some task]" "joiner_of (sf_fut (task_future task)) = Some j"
    "joiner_poll ring0 0 j (t2\<lparr>inner := (inner t2)\<lparr>results := \<lparr>rr_oneshot = [Some (RS_Set 8)], rr_multishot = []\<rparr>\<rparr>\<rparr>) = Some (Inr (Poll_Ready v, j', t4))"
    by (elim exE conjE) (rule that)
  have t: "exec_inv vec_slab None sub_thread0" "tasks vec_slab sub_thread0 = {}" "chans sub_thread0 = []"
    by (simp_all add: exec_inv_def waiting_at_def live_def tasks_def vec_slab_simps ran_def)
  have "slab_get vec_slab (waiting t2) 0 = Some task" by (simp add: run(4) vec_slab_simps)
  then have "task \<in> tasks vec_slab t2" by (auto simp: tasks_def waiting_at_def ran_def)
  note sub_assertion [OF vec.slab_laws_axioms t run(1) turns_next [OF turns_next [OF turns_start run(2)] run(3)] this run(5) _ run(6)]
  then have "v = SV_Int 24" by simp
  with run(6) show ?thesis by blast
qed

end
