(* ===== verification/Spec2Isabelle.thy ===== *)
theory Spec2Isabelle
  imports ReactorProps TaskProps MutexSpec WebServerProps WebProgram EchoTasks UdpTasks SubTasks
begin

text \<open>
  A verification library for \<open>trale\<close>, an asynchronous runtime for Linux on top of io_uring.

  \<^bold>\<open>The program.\<close> Each thread has an executor (\<open>src/src/task.rs\<close>) and a reactor
  (\<open>src/src/reactor/\<close>). The executor polls tasks from its run queue; a future that has to wait
  submits an operation to the ring through a handle (\<open>reactor/uring/io/\<close>), which keeps the slot of a
  result store (\<open>reactor/uring/result.rs\<close>), and leaves a waker in the reactor's table of pending
  operations (\<open>reactor/uring.rs\<close>). When the run queue is empty the executor waits for the ring; every
  completion stores its result in the slot and wakes the object of its pending entry, which moves
  the task back to the run queue. The futures (\<open>src/src/futures/\<close>) are built on the handles: events
  and the mutex on eventfd, timers, files, TCP and UDP sockets. Of the programs in \<open>src/examples/\<close> the
  web server is the largest: its main task takes connections from a listener and spawns a task
  for each, which reads a request and sends a file. The others echo over TCP, exchange a
  datagram, and print lines between sleeps.

  \<^bold>\<open>The theories\<close>, in the order of their imports:

  \<^item> \<open>Prelude\<close>: machine integers at their width, panics (\<open>rs\<close>, \<open>rbind\<close>), results of input and output.
  \<^item> \<open>Slab\<close>, \<open>RingBuf\<close>: the crates \<open>slab\<close> and \<open>ringbuffer\<close> as interfaces (records of operations with the
    laws their documentation states, as locales), each interpreted on an executable implementation.
  \<^item> \<open>ResultStore\<close>: \<open>OneshotStore\<close>, \<open>MultishotStore\<close> and \<open>RingResults\<close> of \<open>result.rs\<close>, one definition per
    method. The locale \<open>slot_lifecycle\<close> is the contract both stores keep.
  \<^item> \<open>Uring\<close>: \<open>ReactorInner\<close>, \<open>submit_io\<close>, the completion iterator and \<open>Reactor::react\<close>. The ring itself (the
    \<open>io_uring\<close> crate and the kernel) is a parameter, \<open>uring_api\<close>.
  \<^item> \<open>UringIo\<close>: \<open>OneshotUringIo\<close> and \<open>MultishotUringIo\<close> with their polls and drop handlers.
  \<^item> \<open>ReactorSys\<close>, \<open>ReactorThms\<close>, \<open>ReactorProps\<close>: the reactor with any number of handles and operations in
    flight, its events and reachable states, the invariant, and what follows. \<open>ScriptRing\<close> and
    \<open>RingEval\<close> are a ring that replays given completions, on which the statements are evaluated.
  \<^item> \<open>OneshotFuture\<close>: \<open>future_delivers\<close>, the specification of a future that waits for one operation, and
    the locale \<open>oneshot_future\<close>, the shape from which it follows. Every such future is a sublocale.
  \<^item> \<open>Os\<close>, \<open>SimOs\<close>: the system calls as a parameter (\<open>os_api\<close>) and a simulated system for evaluation.
  \<^item> \<open>ReadWrite\<close> (\<open>read.rs\<close>, \<open>write.rs\<close>), \<open>Event\<close> (\<open>event.rs\<close>, with the contract of eventfd as the locale
    \<open>eventfd_os\<close>), \<open>SockAddr\<close> (\<open>sock_addr.rs\<close>, at the level of bytes), \<open>Tcp\<close> (\<open>tcp.rs\<close>, \<open>connect\<close> as the state
    machine of its \<open>async fn\<close>), \<open>Udp\<close> (\<open>udp.rs\<close>), \<open>Timer\<close> (\<open>timer.rs\<close>), \<open>Fs\<close> (\<open>fs.rs\<close>).
  \<^item> \<open>Mutex\<close>, \<open>MutexThms\<close>, \<open>MutexProps\<close> (\<open>mutex.rs\<close>): the mutex, \<open>lock\<close> as a state machine, and the system of
    lock futures and guards on any number of threads, each with its own reactor. \<open>MutexSpec\<close>: the
    atomic lock that the mutex refines.
  \<^item> \<open>Task\<close>, \<open>TaskThms\<close>, \<open>TaskLoop\<close>, \<open>TaskProps\<close> (\<open>task.rs\<close>): tasks, wakers, \<open>spawn\<close>, joiners, the loop,
    \<open>run\<close> and \<open>block_on\<close>. The user's futures are a parameter (\<open>upoll\<close>); the locale \<open>executor_env\<close> says that
    they touch the executor only through its interface.
  \<^item> \<open>Await\<close>: awaiting a future in direct style, as the bodies of the examples are written, its
    equivalence with polling, and the locale \<open>streams\<close> of byte streams, whose writes may take a part of
    their buffer or fail; \<open>sends\<close> is what has been sent of a list of buffers. \<open>HttpText\<close>: the strings and paths
    of the standard library (\<open>from_utf8\<close>, \<open>split\<close>, \<open>trim\<close>, \<open>components\<close>, \<open>strip_prefix\<close>, \<open>join\<close>).
  \<^item> \<open>WebServer\<close>, \<open>WebServerThms\<close>, \<open>WebServerProps\<close> (\<open>src/examples/web_server.rs\<close>): \<open>handle_connection\<close> and what it
    calls, the locale \<open>web_files\<close> of the file system, and \<open>response\<close>, the specification of the answer with
    its status lines written out. \<open>WebAccept\<close>: the accept loop as a future of the executor, which keeps
    the contract \<open>executor_env\<close>, and \<open>main\<close>; \<open>no_event\<close> says when the system has no descriptors for a task.
  \<^item> \<open>AsyncBlock\<close>: the state machine the compiler makes of an \<open>async\<close> block, given by its code between
    two awaits, its polls, and the block read in direct style; the locale \<open>async_block\<close> shows that
    polling, with anything else happening in the reactor between two polls, is the same as running
    in direct style. Polling ends with an outcome of the block (\<open>Done_With\<close>) or with a poll whose
    operation the reactor does not take (\<open>Refused\<close>). \<open>WebConn\<close>: \<open>handle_connection\<close> as such a block. \<open>WebProgram\<close>: the whole web server on the
    executor.
  \<^item> \<open>Echo\<close>, \<open>EchoBlock\<close>, \<open>EchoTasks\<close>: the programs \<open>tcp.rs\<close> and \<open>tcp_serv.rs\<close>, their loop in direct style and as a
    block. \<open>Sleeps\<close>: tasks that sleep and print, and \<open>timer.rs\<close>. \<open>Output\<close>: what a program of printing tasks
    prints; the locale \<open>output_program\<close> combines the contract of the executor with that of the console.
    \<open>UdpTasks\<close>: \<open>udp.rs\<close>. \<open>SubTasks\<close>: \<open>sub_tasks.rs\<close>.

  \<^bold>\<open>How the model relates to the code.\<close> A definition has the name of the function it translates, with
  the type in front where names clash (\<open>oneshot_set_result\<close> is \<open>OneshotStore::set_result\<close>). Thread-local
  state and \<open>Rc<RefCell<..>>\<close> are passed explicitly: \<open>inner\<close> is \<open>ReactorInner\<close>, \<open>thread\<close> an executor with its
  reactor, its wakers' cells and its channels. A panic is a value \<open>Inl p\<close>; a call that never returns is
  \<open>None\<close>, and so is a loop that does not end (\<open>executor_loop\<close> is a partial function, there is no fuel).
  Drop handlers are definitions of their own and are called where the code drops. Memory given to
  the kernel is named by its place (in the future, borrowed, on the stack); addresses are not modelled.

  \<^bold>\<open>What is shown.\<close> The reactor: in every interleaving no panic other than on exhaustion or a refused cancellation, no slot is lost or
  shared, the result of an operation reaches the handle and the waker it was submitted with, streams
  keep their order. The futures: each delivers; addresses survive the conversion; \<open>bind\<close> and \<open>connect\<close>
  try their addresses as specified; timers are armed with the time left. The executor: a turn
  loses no task, a waker wakes its own task, \<open>run\<close> returns only after every task has been polled to its end, and does
  return if the work is bounded and no turn blocks; \<open>block_on\<close> returns the value of its future. The
  mutex: at most one guard, the lock is handed over, and it behaves like an atomic lock. The web
  server: for every complete request the specified response is written, and sent as far as the
  kernel takes it; every accepted connection gets its task as long as there are descriptors; and polling the task of a connection is running \<open>handle_connection\<close>. The other examples: the
  echo loop sends back what it receives, \<open>timer.rs\<close> and \<open>udp.rs\<close> print the lines of all their tasks, each
  task's in order, the assertion of \<open>sub_tasks.rs\<close> holds. Some statements are about defects, among
  them results lost in a full buffer, operations not withdrawn when their future is dropped, a
  panic when an ended stream is dropped, wake-ups lost during a poll, a mutex that stays locked
  after a cancelled \<open>lock\<close>, a wait for a notified event that suspends, a web server that leaves its
  root, pads its bodies, loses what a short write leaves, panics on malformed requests and when
  descriptors run out, and never ends at truncated requests.

  \<^bold>\<open>Assumptions.\<close> The laws of the slab and ring buffer crates; that the kernel completes only operations
  in flight, each oneshot operation once; the semaphore semantics of eventfd; that user code
  reaches the executor only through its interface; that system calls print nothing; for the examples, that reads return the
  incoming pieces in order and then 0, that every write completes, with a number of bytes it has
  taken from the front of its buffer or with an error, and that a file opened for reading and
  writing is the one that is looked up and is read as it is. Each is a named locale or the definition of
  \<open>allowed\<close> and \<open>mallowed\<close>, and each locale is interpreted.

  \<^bold>\<open>Not modelled.\<close> The contents the kernel writes into buffers (except a sender's address, and in
  direct style); panics
  that unwind through user code, and executors entered from a task (the code would find its
  executor already borrowed or loop inside a poll); wakers used from other threads, which act on
  the other thread's executor; name lookup and the standard library's UDP \<open>bind\<close>, which are
  arguments; argument parsing and logging; the text that \<open>println!\<close> makes of its arguments; imports and
  module declarations; the tests.
\<close>

subsection \<open>Properties that span the futures\<close>

text \<open>
  C9. Every future that waits for one operation of the ring delivers. The first poll submits the
  operation with the waker it was given and is pending; whatever the rest of the program does
  then, the completion of that operation yields this waker, and the next poll is ready with the
  output the future makes of the result that completion carried. For the future of \<open>Event::wait\<close>
  this differs from the documentation in \<open>event.rs\<close>, which says that waiting for an event that has
  already been notified does not suspend but polls as \<open>Ready\<close>: its first poll, too, submits the
  read of the eventfd and is pending, and only a poll after the completion is ready.
\<close>

theorem futures_deliver:
  assumes "reactor_deps D"
  shows "future_delivers D (async_reader_poll D) ar_io (\<lambda>f. Inr (reader_entry f, f)) (\<lambda>_. map_io i32_as_usize)
    \<and> future_delivers D (async_writer_poll D) aw_io (\<lambda>f. Inr (writer_entry f, f)) (\<lambda>_. map_io i32_as_usize)
    \<and> future_delivers D (event_waiter_poll D) ew_io (\<lambda>f. Inr (event_waiter_entry f, f)) (\<lambda>_. map_io (\<lambda>_. ()))
    \<and> future_delivers D (sock_connect_poll D le) sc_io (\<lambda>f. Inr (connect_entry le f, f)) (\<lambda>_. map_io (\<lambda>_. ()))
    \<and> future_delivers D (recv_from_poll D le) rf_io recv_prep (recv_out le)
    \<and> future_delivers D (send_to_poll D le) st_io (send_prep le) (\<lambda>_. map_io i32_as_usize)
    \<and> future_delivers D (file_open_poll D) fo_io (\<lambda>f. Inr (file_open_entry f, f)) (\<lambda>_. map_io (\<lambda>x. \<lparr>f_inner = x\<rparr>))
    \<and> future_delivers D (mkdir_poll D) mk_io (\<lambda>f. Inr (mkdir_entry f, f)) (\<lambda>_. map_io (\<lambda>_. ()))"
  using reactor_deps.reader_delivers [OF assms] reactor_deps.writer_delivers [OF assms] reactor_deps.waiter_delivers [OF assms]
    reactor_deps.connector_delivers [OF assms] reactor_deps.receiver_delivers [OF assms] reactor_deps.sender_delivers [OF assms]
    reactor_deps.opener_delivers [OF assms] reactor_deps.mkdirs_delivers [OF assms]
  by (intro conjI)

theorem futures_deliver_witness:
  "(\<exists>f1 i1 s3 f3 i5. async_reader_poll ring0 7 \<lparr>ar_fd = 3, ar_io = OS_New, ar_buf = [0, 0], ar_seekable = True\<rparr> (ri fresh)
        = Inr (Poll_Pending, f1, i1)
      \<and> async_reader_poll ring0 7 f1 (ri s3) = Inr (Poll_Ready (Inr 2), f3, i5) \<and> reachable ring0 s3)
   \<and> (\<exists>f f1 i1 s3 f3 i5. file_create [47, 120] = Inr f \<and> file_open_poll ring0 7 f (ri fresh) = Inr (Poll_Pending, f1, i1)
      \<and> file_open_poll ring0 7 f1 (ri s3) = Inr (Poll_Ready (Inl (OsError 2)), f3, i5) \<and> reachable ring0 s3)"
proof
  note del = futures_deliver [OF ring0_deps, of True]
  let ?f = "\<lparr>ar_fd = 3, ar_io = OS_New, ar_buf = [0, 0], ar_seekable = True\<rparr>"
  obtain p f1 i1 where "async_reader_poll ring0 7 ?f (ri fresh) = Inr (p, f1, i1)"
    by (simp add: async_reader_poll_def reader_entry_def futures_eval)
  from fresh_run [OF conjunct1 [OF del] _ this, of 2] show "\<exists>f1 i1 s3 f3 i5.
      async_reader_poll ring0 7 ?f (ri fresh) = Inr (Poll_Pending, f1, i1)
      \<and> async_reader_poll ring0 7 f1 (ri s3) = Inr (Poll_Ready (Inr 2), f3, i5) \<and> reachable ring0 s3"
    by (auto simp: reactor_value_to_result_def i32_as_usize_def)
  have open_del: "future_delivers ring0 (file_open_poll ring0) fo_io (\<lambda>f. Inr (file_open_entry f, f)) (\<lambda>_. map_io (\<lambda>x. \<lparr>f_inner = x\<rparr>))"
    using del by blast
  obtain f p f1 i1 where f: "file_create [47, 120] = Inr f" "fo_io f = OS_New"
      "file_open_poll ring0 7 f (ri fresh) = Inr (p, f1, i1)"
    by (simp add: file_create_def cstring_new_def file_open_poll_def file_open_entry_def futures_eval)
  from fresh_run [OF open_del f(2,3), of "- 2"] f(1) show "\<exists>f f1 i1 s3 f3 i5. file_create [47, 120] = Inr f
      \<and> file_open_poll ring0 7 f (ri fresh) = Inr (Poll_Pending, f1, i1)
      \<and> file_open_poll ring0 7 f1 (ri s3) = Inr (Poll_Ready (Inl (OsError 2)), f3, i5) \<and> reachable ring0 s3"
    by (auto simp: reactor_value_to_result_def i32_abs_def)
qed

subsection \<open>The executor and its reactor\<close>

text \<open>
  C7. From the completion to the run queue. When an executor with an empty run queue waits for
  its reactor and gets a batch of completions of operations in flight, the reactor processes
  them without a panic, no task is lost, and every waiting task one of whose operations has
  completed is in the run queue.
\<close>

theorem completion_requeues:
  assumes "reactor_deps D" "slab_laws S" "exec_inv S None t" "run_q t = []" "reachable D s" "inner t = ri s"
    and "uring_submit_and_wait (ur D) (uring (ri s)) 1 = Some (Inr u)" "uring_completion (ur D) u = (cs, u')"
    and "valid_batch D cs (s\<lparr>ri := (ri s)\<lparr>uring := u'\<rparr>\<rparr>)"
  shows "\<exists>s' t'. react_if_idle S D t = Some (Inr t') \<and> inner t' = ri s' \<and> reachable D s'
    \<and> exec_inv S None t' \<and> tasks S t' = tasks S t
    \<and> (\<forall>c\<in>set cs. \<forall>p k task. pend_of D s (cqe_user_data c) = Some p \<and> waiting_at S t k = Some task
         \<and> task_id task = assoc_obj p \<longrightarrow> task \<in> set (run_q t'))"
proof -
  let ?s = "s\<lparr>ri := (ri s)\<lparr>uring := u'\<rparr>\<rparr>"
  have r: "reachable D ?s" by (rule reachable.step [OF assms(5), of "RingMoves u'"]) simp_all
  from reactor_deps.valid_batch_react [OF assms(1) reactor_deps.reachable_inv [OF assms(1) r] assms(9), of "wake S" t]
  obtain s' obs where loop: "react_loop D (wake S) \<lparr>compl_queue = cs, ring = ri ?s\<rparr> t = Inr (ri s', fold (wake S) obs t)"
    and run: "rsteps D ?s (map Complete cs) s'"
    and obs: "list_all2 (\<lambda>c ob. \<exists>p. pend_of D ?s (cqe_user_data c) = Some p \<and> ob = assoc_obj p) cs obs" by blast
  let ?t = "fold (wake S) obs t"
  have idle: "react_if_idle S D t = Some (Inr (?t\<lparr>inner := ri s'\<rparr>))"
    using loop assms(4,6,7,8) by (simp add: react_if_idle_def reactor_react_def react_def)
  note inv = executor_env.react_if_idle_inv [OF slab_env [OF assms(2)] idle assms(3)]
  have "task \<in> set (run_q ?t)" if c: "c \<in> set cs" and p: "pend_of D s (cqe_user_data c) = Some p"
    and w: "waiting_at S t k = Some task" and id: "task_id task = assoc_obj p" for c p k task
  proof -
    from list_all2_set [OF obs c] obtain ob where
      "ob \<in> set obs" "\<exists>p. pend_of D ?s (cqe_user_data c) = Some p \<and> ob = assoc_obj p" by blast
    with p id have "task_id task \<in> set obs" by (auto simp: pend_of_def)
    from executor_env.fold_wake_requeues [OF slab_env [OF assms(2)] assms(3) w this] show ?thesis .
  qed
  then have "\<forall>c\<in>set cs. \<forall>p k task. pend_of D s (cqe_user_data c) = Some p \<and> waiting_at S t k = Some task
      \<and> task_id task = assoc_obj p \<longrightarrow> task \<in> set (run_q (?t\<lparr>inner := ri s'\<rparr>))" by auto
  with idle inv rsteps_reachable [OF run r] show ?thesis
    by (intro exI [of _ s'] exI [of _ "?t\<lparr>inner := ri s'\<rparr>"] conjI) simp_all
qed

theorem completion_requeues_witness:
  "\<exists>s t'. rrun_init (script_deps [[cqe0 8 0]] (\<lambda>_. None)) [NewOneshot 0, PollOneshot 0 entry0 1] = Inr s
     \<and> react_if_idle vec_slab (script_deps [[cqe0 8 0]] (\<lambda>_. None))
         (thread0\<lparr>waiting := [None, Some parked], ids := (\<lambda>a. a), next_id := 2, inner := ri s\<rparr>) = Some (Inr t')
     \<and> parked \<in> set (run_q t')"
proof -
  let ?D = "script_deps [[cqe0 8 0]] (\<lambda>_. None) :: nat script_deps"
  have "\<exists>s u u'. rrun_init ?D [NewOneshot 0, PollOneshot 0 entry0 1] = Inr s
      \<and> uring_submit_and_wait (ur ?D) (uring (ri s)) 1 = Some (Inr u) \<and> uring_completion (ur ?D) u = ([cqe0 8 0], u')
      \<and> valid_batch ?D [cqe0 8 0] (s\<lparr>ri := (ri s)\<lparr>uring := u'\<rparr>\<rparr>)
      \<and> pend_of ?D s 0 = Some \<lparr>assoc_obj = 1, result_slab_idx = 0, kind = Oneshot\<rparr>"
    by (simp add: reactor_eval pend_of_def)
  then obtain s u u' where s: "rrun_init ?D [NewOneshot 0, PollOneshot 0 entry0 1] = Inr s"
    "uring_submit_and_wait (ur ?D) (uring (ri s)) 1 = Some (Inr u)" "uring_completion (ur ?D) u = ([cqe0 8 0], u')"
    "valid_batch ?D [cqe0 8 0] (s\<lparr>ri := (ri s)\<lparr>uring := u'\<rparr>\<rparr>)"
    "pend_of ?D s 0 = Some \<lparr>assoc_obj = 1, result_slab_idx = 0, kind = Oneshot\<rparr>" by (elim exE conjE) (rule that)
  let ?t = "thread0\<lparr>waiting := [None, Some parked], ids := (\<lambda>a. a), next_id := 2, inner := ri s\<rparr>"
  have w: "waiting_at vec_slab ?t 1 = Some parked" by (simp add: waiting_at_def vec_slab_simps)
  have inv: "exec_inv vec_slab None ?t" using parked_inv [of None] by (simp add: exec_inv_def live_def tasks_def waiting_at_def)
  from completion_requeues [OF scr.reactor_deps_axioms vec.slab_laws_axioms inv _ rrun_init_reachable [OF s(1)] _ s(2,3,4)]
  obtain t' where "react_if_idle vec_slab ?D ?t = Some (Inr t')" and
    "\<forall>c\<in>set [cqe0 8 0]. \<forall>p k task. pend_of ?D s (cqe_user_data c) = Some p \<and> waiting_at vec_slab ?t k = Some task
         \<and> task_id task = assoc_obj p \<longrightarrow> task \<in> set (run_q t')" by auto
  with s(1,5) w show ?thesis by fastforce
qed

end
